(* ===== verification/Geo_Prelude.thy ===== *)
theory Geo_Prelude
  imports Complex_Main "HOL-Library.Word"
begin

text \<open>
  Shared vocabulary of the development: the functions of Go's \<open>strings\<close>, \<open>strconv\<close> and
  \<open>path/filepath\<close> packages that the program calls, on byte strings (\<open>string\<close> is a
  list of 8-bit characters, as a Go string is a sequence of bytes), and the lemmas about them that
  the component theories share. No definition of this theory models code of the repository.
\<close>

named_theorems go_defs \<open>definitions of the program's small helpers, for evaluation\<close>
named_theorems str_simps \<open>rewrite rules on the string functions\<close>

section \<open>Go's strings package\<close>

definition has_prefix :: "string \<Rightarrow> string \<Rightarrow> bool" where
  "has_prefix s p \<longleftrightarrow> take (length p) s = p"

definition has_suffix :: "string \<Rightarrow> string \<Rightarrow> bool" where
  "has_suffix s p \<longleftrightarrow> length p \<le> length s \<and> drop (length s - length p) s = p"

definition trim_suffix :: "string \<Rightarrow> string \<Rightarrow> string" where
  "trim_suffix s p = (if has_suffix s p then take (length s - length p) s else s)"

fun str_contains :: "string \<Rightarrow> string \<Rightarrow> bool" where
  "str_contains [] sub \<longleftrightarrow> sub = []"
| "str_contains (c # s) sub \<longleftrightarrow> has_prefix (c # s) sub \<or> str_contains s sub"

definition contains_any :: "string \<Rightarrow> string \<Rightarrow> bool" where
  "contains_any s cs \<longleftrightarrow> (\<exists>c \<in> set s. c \<in> set cs)"

text \<open>\<open>strings.Split\<close> by a one-byte separator; the empty string splits into one empty piece.\<close>

fun split_on :: "char \<Rightarrow> string \<Rightarrow> string list" where
  "split_on sep [] = [[]]"
| "split_on sep (c # s) =
     (if c = sep then [] # split_on sep s
      else (case split_on sep s of [] \<Rightarrow> [[c]] | p # ps \<Rightarrow> (c # p) # ps))"

fun str_join :: "string \<Rightarrow> string list \<Rightarrow> string" where
  "str_join sep [] = []"
| "str_join sep [x] = x"
| "str_join sep (x # y # ys) = x @ sep @ str_join sep (y # ys)"

text \<open>\<open>strings.LastIndex\<close> of a one-byte string; None is the result -1.\<close>

fun last_index :: "string \<Rightarrow> char \<Rightarrow> nat option" where
  "last_index [] c = None"
| "last_index (x # s) c =
     (case last_index s c of Some i \<Rightarrow> Some (Suc i)
      | None \<Rightarrow> if x = c then Some 0 else None)"

fun str_index :: "string \<Rightarrow> string \<Rightarrow> nat option" where
  "str_index [] sub = (if sub = [] then Some 0 else None)"
| "str_index (c # s) sub =
     (if has_prefix (c # s) sub then Some 0 else map_option Suc (str_index s sub))"

section \<open>White space\<close>

text \<open>
  \<open>strings.TrimSpace\<close> removes the leading and trailing runes of \<open>unicode.IsSpace\<close>.
  They are listed by their UTF-8 encodings; no encoding of the list is a proper suffix or prefix
  of another, so trimming whole encodings is the same as decoding runes.
\<close>

definition space_runes :: "string list" where
  "space_runes =
     [[CHR 0x09], [CHR 0x0A], [CHR 0x0B], [CHR 0x0C], [CHR 0x0D], [CHR 0x20],
      [CHR 0xC2, CHR 0x85], [CHR 0xC2, CHR 0xA0], [CHR 0xE1, CHR 0x9A, CHR 0x80],
      [CHR 0xE2, CHR 0x80, CHR 0x80], [CHR 0xE2, CHR 0x80, CHR 0x81],
      [CHR 0xE2, CHR 0x80, CHR 0x82], [CHR 0xE2, CHR 0x80, CHR 0x83],
      [CHR 0xE2, CHR 0x80, CHR 0x84], [CHR 0xE2, CHR 0x80, CHR 0x85],
      [CHR 0xE2, CHR 0x80, CHR 0x86], [CHR 0xE2, CHR 0x80, CHR 0x87],
      [CHR 0xE2, CHR 0x80, CHR 0x88], [CHR 0xE2, CHR 0x80, CHR 0x89],
      [CHR 0xE2, CHR 0x80, CHR 0x8A], [CHR 0xE2, CHR 0x80, CHR 0xA8],
      [CHR 0xE2, CHR 0x80, CHR 0xA9], [CHR 0xE2, CHR 0x80, CHR 0xAF],
      [CHR 0xE2, CHR 0x81, CHR 0x9F], [CHR 0xE3, CHR 0x80, CHR 0x80]]"

text \<open>Strips prefixes out of a list of patterns while one matches (empty patterns are skipped).\<close>

function strip_any :: "string list \<Rightarrow> string \<Rightarrow> string" where
  "strip_any ps s =
     (case find (\<lambda>p. p \<noteq> [] \<and> has_prefix s p) ps of
        None \<Rightarrow> s
      | Some p \<Rightarrow> strip_any ps (drop (length p) s))"
  by pat_completeness auto
termination
proof (relation "measure (\<lambda>(ps, s). length s)", goal_cases)
  case 1
  then show ?case by simp
next
  case (2 ps s p)
  then have "p \<noteq> [] \<and> has_prefix s p"
    by (auto simp: find_Some_iff)
  then have "p \<noteq> []" and "s \<noteq> []"
    by (auto simp: has_prefix_def)
  then show ?case by simp
qed

declare strip_any.simps [simp del]

definition trim_space :: "string \<Rightarrow> string" where
  "trim_space s = rev (strip_any (map rev space_runes) (rev (strip_any space_runes s)))"

text \<open>\<open>io.LimitReader\<close>: at most so many bytes.\<close>

fun limit_bytes :: "int \<Rightarrow> string \<Rightarrow> string" where
  "limit_bytes n [] = []"
| "limit_bytes n (c # cs) = (if n \<le> 0 then [] else c # limit_bytes (n - 1) cs)"

section \<open>Decimal rendering (strconv.Itoa, the verb d of fmt)\<close>

definition digit_char :: "int \<Rightarrow> char" where
  "digit_char d = char_of (48 + d)"

function int_str :: "int \<Rightarrow> string" where
  "int_str n =
     (if n < 10 then [digit_char n] else int_str (n div 10) @ [digit_char (n mod 10)])"
  by pat_completeness auto
termination
  by (relation "measure nat") auto

declare int_str.simps [simp del]

definition itoa :: "int \<Rightarrow> string" where
  "itoa i = (if i < 0 then CHR ''-'' # int_str (- i) else int_str i)"

section \<open>Quoting (strconv.Quote, the verb q of fmt)\<close>

text \<open>Bytes above ASCII are kept, as they are in printable UTF-8.\<close>

definition hex_char :: "nat \<Rightarrow> char" where
  "hex_char n = char_of (if n < 10 then 48 + n else 87 + n)"

definition quote_byte :: "char \<Rightarrow> string" where
  "quote_byte c =
     (let n = (of_char c :: nat) in
      if c = CHR 0x22 \<or> c = CHR 0x5C then [CHR 0x5C, c]
      else case map_of [(7, CHR ''a''), (8, CHR ''b''), (9, CHR ''t''), (10, CHR ''n''), (11, CHR ''v''),
                        (12, CHR ''f''), (13, CHR ''r'')] n of
             Some e \<Rightarrow> [CHR 0x5C, e]
           | None \<Rightarrow>
               if n < 32 \<or> n = 127 then [CHR 0x5C, CHR ''x'', hex_char (n div 16), hex_char (n mod 16)] else [c])"

definition go_quote :: "string \<Rightarrow> string" where
  "go_quote s = [CHR 0x22] @ concat (map quote_byte s) @ [CHR 0x22]"

section \<open>Character classes\<close>

definition is_digit :: "char \<Rightarrow> bool" where
  "is_digit c \<longleftrightarrow> 48 \<le> (of_char c :: nat) \<and> (of_char c :: nat) \<le> 57"

definition is_upper :: "char \<Rightarrow> bool" where
  "is_upper c \<longleftrightarrow> 65 \<le> (of_char c :: nat) \<and> (of_char c :: nat) \<le> 90"

definition is_lower :: "char \<Rightarrow> bool" where
  "is_lower c \<longleftrightarrow> 97 \<le> (of_char c :: nat) \<and> (of_char c :: nat) \<le> 122"

definition is_alnum :: "char \<Rightarrow> bool" where
  "is_alnum c \<longleftrightarrow> is_digit c \<or> is_upper c \<or> is_lower c"

text \<open>The class \<open>\s\<close> of Go's regular expressions: tab, newline, form feed, carriage return, space.\<close>

definition re_space :: "char \<Rightarrow> bool" where
  "re_space c \<longleftrightarrow> c \<in> {CHR 0x09, CHR 0x0A, CHR 0x0C, CHR 0x0D, CHR 0x20}"

lemmas char_class_defs = is_digit_def is_upper_def is_lower_def is_alnum_def re_space_def

section \<open>path/filepath: Clean and Join\<close>

text \<open>
  The lexical normalisation of \<open>filepath.Clean\<close> on the segments of a slash-separated path:
  empty and dot segments vanish, a double dot removes the segment before it, stays when there is
  none in a relative path, and vanishes at the root. The stack is kept in reverse.
\<close>

fun clean_segs :: "bool \<Rightarrow> string list \<Rightarrow> string list \<Rightarrow> string list" where
  "clean_segs rooted st [] = rev st"
| "clean_segs rooted st (seg # segs) =
     (if seg = [] \<or> seg = ''.'' then clean_segs rooted st segs
      else if seg = ''..'' then
        (case st of
           tp # st' \<Rightarrow> if tp = ''..'' then clean_segs rooted (seg # st) segs
                       else clean_segs rooted st' segs
         | [] \<Rightarrow> if rooted then clean_segs rooted [] segs else clean_segs rooted [seg] segs)
      else clean_segs rooted (seg # st) segs)"

definition path_clean :: "string \<Rightarrow> string" where
  "path_clean p =
     (let rooted = has_prefix p ''/'';
          r = (if rooted then ''/'' else []) @ str_join ''/'' (clean_segs rooted [] (split_on (CHR ''/'') p))
      in if r = [] then ''.'' else r)"

definition path_join :: "string list \<Rightarrow> string" where
  "path_join els =
     (let es = filter (\<lambda>e. e \<noteq> []) els in if es = [] then [] else path_clean (str_join ''/'' es))"

text \<open>\<open>filepath.Base\<close>: the last segment, trailing slashes removed.\<close>

definition path_base :: "string \<Rightarrow> string" where
  "path_base p =
     (if p = [] then ''.''
      else (let q = rev (dropWhile (\<lambda>c. c = CHR ''/'') (rev p))
            in if q = [] then ''/'' else last (split_on (CHR ''/'') q)))"

section \<open>float64\<close>

text \<open>
  A finite \<open>float64\<close> is the rational number it denotes, and a product is rounded to the nearest
  number with 53 significant bits, ties to even (subnormal spacing included; overflow to infinity
  is outside the model). \<open>f64_trunc\<close> is the conversion to an integer type, towards zero.
\<close>

text \<open>The number of binary digits of a positive integer.\<close>

function bits :: "int \<Rightarrow> int" where
  "bits n = (if n \<le> 0 then 0 else 1 + bits (n div 2))"
  by pat_completeness auto
termination
  by (relation "measure nat") auto

declare bits.simps [simp del]

definition pow2 :: "int \<Rightarrow> rat" where
  "pow2 e = (if 0 \<le> e then 2 ^ nat e else 1 / 2 ^ nat (- e))"

definition half_even :: "int \<Rightarrow> rat \<Rightarrow> int" where
  "half_even f d = (if d < 1 / 2 then f else if 1 / 2 < d then f + 1 else if even f then f else f + 1)"

definition round_half_even :: "rat \<Rightarrow> int" where
  "round_half_even r = half_even (floor r) (r - of_int (floor r))"

definition f64_spacing :: "rat \<Rightarrow> int \<Rightarrow> rat" where
  "f64_spacing q k = pow2 (max ((if q < pow2 k then k - 1 else k) - 52) (- 1074))"

definition f64_to_grid :: "rat \<Rightarrow> rat \<Rightarrow> rat" where
  "f64_to_grid q s = s * of_int (round_half_even (q / s))"

definition f64_log :: "int \<times> int \<Rightarrow> int" where
  "f64_log ab = bits (fst ab) - bits (snd ab)"

definition f64_round :: "rat \<Rightarrow> rat" where
  "f64_round q =
     (if q = 0 then 0
      else sgn q * f64_to_grid \<bar>q\<bar> (f64_spacing \<bar>q\<bar> (f64_log (quotient_of \<bar>q\<bar>))))"

definition f64_mul :: "rat \<Rightarrow> rat \<Rightarrow> rat" where
  "f64_mul x y = f64_round (x * y)"

definition f64_trunc :: "rat \<Rightarrow> int" where
  "f64_trunc x = (if 0 \<le> x then floor x else - floor (- x))"

section \<open>Shared lemmas\<close>

lemma has_prefix_Nil [simp, str_simps]: "has_prefix s []"
  by (simp add: has_prefix_def)

lemma has_prefix_Cons [simp, str_simps]:
  "has_prefix s (c # p) \<longleftrightarrow> (\<exists>s'. s = c # s' \<and> has_prefix s' p)"
  by (cases s) (auto simp: has_prefix_def)

lemma has_prefix_append [simp, str_simps]: "has_prefix (p @ s) p"
  by (simp add: has_prefix_def)

lemma has_prefix_iff: "has_prefix s p \<longleftrightarrow> (\<exists>t. s = p @ t)"
  by (metis append_take_drop_id has_prefix_append has_prefix_def)

lemma has_prefix_shorter: "has_prefix (a @ b) p \<Longrightarrow> length p \<le> length a \<Longrightarrow> has_prefix a p"
  by (simp add: has_prefix_def)

lemma has_suffix_append [simp, str_simps]: "has_suffix (s @ p) p"
  by (simp add: has_suffix_def)

lemma has_suffix_iff: "has_suffix s p \<longleftrightarrow> (\<exists>t. s = t @ p)"
  by (metis append_take_drop_id has_suffix_append has_suffix_def)

lemma str_contains_iff: "str_contains s sub \<longleftrightarrow> (\<exists>a b. s = a @ sub @ b)"
proof (induction s)
  case Nil
  then show ?case by auto
next
  case (Cons c s)
  have "str_contains (c # s) sub \<longleftrightarrow> (\<exists>t. c # s = sub @ t) \<or> (\<exists>a b. s = a @ sub @ b)"
    by (simp only: str_contains.simps Cons.IH has_prefix_iff)
  also have "\<dots> \<longleftrightarrow> (\<exists>a b. c # s = a @ sub @ b)"
  proof
    assume "(\<exists>t. c # s = sub @ t) \<or> (\<exists>a b. s = a @ sub @ b)"
    then show "\<exists>a b. c # s = a @ sub @ b"
      by (metis append_Cons append_Nil)
  next
    assume "\<exists>a b. c # s = a @ sub @ b"
    then obtain a b where "c # s = a @ sub @ b" by blast
    then show "(\<exists>t. c # s = sub @ t) \<or> (\<exists>a b. s = a @ sub @ b)"
      by (cases a) auto
  qed
  finally show ?case .
qed

lemma str_contains_singleton [simp]: "str_contains s [c] \<longleftrightarrow> c \<in> set s"
  by (metis append.assoc append_Cons append_Nil in_set_conv_decomp str_contains_iff)

lemma split_on_ne [simp]: "split_on c s \<noteq> []"
  by (induction s) (auto split: list.splits)

lemma split_on_append:
  "c \<notin> set b \<Longrightarrow> split_on c (b @ c # s) = b # split_on c s"
  by (induction b) auto

lemma split_on_id: "c \<notin> set b \<Longrightarrow> split_on c b = [b]"
  by (induction b) auto

lemma split_on_pieces: "p \<in> set (split_on c s) \<Longrightarrow> c \<notin> set p"
  by (induction s arbitrary: p) (auto split: list.splits if_splits)

lemma str_join_Cons: "xs \<noteq> [] \<Longrightarrow> str_join sep (x # xs) = x @ sep @ str_join sep xs"
  by (cases xs) auto

text \<open>Joining the pieces gives the string back: \<open>Split\<close> and \<open>Join\<close> are inverse.\<close>

lemma str_join_split [simp]: "str_join [c] (split_on c s) = s"
proof (induction s)
  case Nil
  then show ?case by simp
next
  case (Cons x s)
  obtain p ps where ps: "split_on c s = p # ps"
    by (cases "split_on c s") auto
  show ?case
    using Cons by (cases ps) (auto simp: ps)
qed

lemma split_on_join:
  "xs \<noteq> [] \<Longrightarrow> \<forall>x \<in> set xs. c \<notin> set x \<Longrightarrow> split_on c (str_join [c] xs) = xs"
proof (induction xs)
  case Nil
  then show ?case by simp
next
  case (Cons x xs)
  then show ?case
    by (cases xs) (auto simp: split_on_append split_on_id)
qed

lemma split_on_append_sep:
  "split_on c (a @ c # b) = split_on c a @ split_on c b"
proof (induction a)
  case Nil
  then show ?case by simp
next
  case (Cons x a)
  obtain p ps where "split_on c a = p # ps"
    by (cases "split_on c a") auto
  with Cons show ?case by auto
qed

lemma set_str_join: "set (str_join sep xs) \<subseteq> set sep \<union> (\<Union>x \<in> set xs. set x)"
  by (induction sep xs rule: str_join.induct) auto

lemma last_index_None_iff: "last_index s c = None \<longleftrightarrow> c \<notin> set s"
  by (induction s) (auto split: option.splits)

lemma last_index_append:
  "c \<notin> set b \<Longrightarrow> last_index (a @ c # b) c = Some (length a)"
  by (induction a) (auto simp: last_index_None_iff[symmetric] split: option.splits)

lemma last_index_Some:
  "last_index s c = Some i \<Longrightarrow> \<exists>a b. s = a @ c # b \<and> c \<notin> set b \<and> i = length a"
proof (induction s arbitrary: i)
  case Nil
  then show ?case by simp
next
  case (Cons x s)
  show ?case
  proof (cases "last_index s c")
    case None
    with Cons.prems have "x = c" "i = 0" by (auto split: if_splits)
    with None show ?thesis
      by (auto simp: last_index_None_iff intro!: exI[of _ "[]"])
  next
    case (Some j)
    with Cons.IH obtain a b where ab: "s = a @ c # b" "c \<notin> set b" "j = length a" by blast
    with Some Cons.prems have "x # s = (x # a) @ c # b" "i = length (x # a)" by auto
    with ab(2) show ?thesis by blast
  qed
qed

lemma clean_segs_plain:
  "\<forall>s \<in> set segs. s \<noteq> [] \<and> s \<noteq> ''.'' \<and> s \<noteq> ''..'' \<Longrightarrow>
   clean_segs rooted st segs = rev st @ segs"
  by (induction segs arbitrary: st) auto

lemma clean_segs_append:
  "\<forall>s \<in> set segs. s \<noteq> [] \<and> s \<noteq> ''.'' \<and> s \<noteq> ''..'' \<Longrightarrow>
   clean_segs rooted st (pre @ segs) = clean_segs rooted st pre @ segs"
  by (induction rooted st pre rule: clean_segs.induct)
    (auto simp: clean_segs_plain split: list.splits)

lemma strip_any_none:
  "find (\<lambda>p. p \<noteq> [] \<and> has_prefix s p) ps = None \<Longrightarrow> strip_any ps s = s"
  by (subst strip_any.simps) simp

lemma strip_any_Nil [simp]: "strip_any ps [] = []"
proof -
  have "find (\<lambda>p. p \<noteq> [] \<and> has_prefix [] p) ps = None"
    by (auto simp: find_None_iff has_prefix_def)
  then show ?thesis by (rule strip_any_none)
qed

lemma trim_space_Nil [simp]: "trim_space [] = []"
  by (simp add: trim_space_def)

lemma digit_char_digit:
  assumes "0 \<le> d" "d < 10"
  shows "is_digit (digit_char d)"
proof -
  have "\<forall>d \<in> set [0, 1, 2, 3, 4, 5, 6, 7, 8, 9]. is_digit (digit_char d)"
    by code_simp
  moreover have "d = 0 \<or> d = 1 \<or> d = 2 \<or> d = 3 \<or> d = 4 \<or> d = 5 \<or> d = 6 \<or> d = 7 \<or> d = 8 \<or> d = 9"
    using assms by arith
  ultimately show ?thesis by auto
qed

lemma int_str_digits: "0 \<le> n \<Longrightarrow> c \<in> set (int_str n) \<Longrightarrow> is_digit c"
proof (induction n rule: int_str.induct)
  case (1 n)
  then show ?case
    by (cases "n < 10") (auto simp: int_str.simps[of n] digit_char_digit)
qed

lemma int_str_ne [simp]: "int_str n \<noteq> []"
  by (subst int_str.simps) simp

lemma itoa_ne [simp]: "itoa i \<noteq> []"
  by (simp add: itoa_def)

lemma itoa_chars: "c \<in> set (itoa i) \<Longrightarrow> c = CHR ''-'' \<or> is_digit c"
  using int_str_digits[of i c] int_str_digits[of "- i" c] by (auto simp: itoa_def split: if_splits)

lemma limit_bytes_take: "limit_bytes n cs = take (nat n) cs"
proof (induction n cs rule: limit_bytes.induct)
  case (1 n)
  then show ?case by simp
next
  case (2 n c cs)
  then show ?case by (cases "n \<le> 0") (simp_all add: take_Cons' nat_diff_distrib)
qed

end
