(* ===== verification/Geo_World.thy ===== *)
theory Geo_World
  imports Geo_Prelude
begin

text \<open>
  The world outside the program. Every action of the program that leaves the process (a command
  run, an HTTP request, a database query, a metric set, a log line whose level a caller chose, a
  line printed) is an event; a \<open>world\<close> is the list of the events so far together with what the
  outside answers. The answers are functions of the history, so a theorem over every \<open>world\<close>
  covers every behaviour of the remote sites, failures and changes of mind included. The
  answer functions stand for code that is not in the repository (ssh, rsync, git, PostgreSQL, S3,
  HTTP servers) and are never constrained here.
\<close>

section \<open>Events, answers and the world\<close>

datatype metric =
    DriftTotal string string       \<comment> \<open>component, severity: the counter goes up by one\<close>
  | PGReplayLag string int         \<comment> \<open>secondary, gauge value in nanoseconds\<close>
  | SyncDuration string string     \<comment> \<open>component, result: one observation\<close>
  | LastSync string                \<comment> \<open>component: set to the current time\<close>

datatype event =
    Exec string "string list" "string list"   \<comment> \<open>program, arguments, added environment\<close>
  | HttpGet string string                     \<comment> \<open>URL, PRIVATE-TOKEN header\<close>
  | Connect string                            \<comment> \<open>open a pool for a DSN\<close>
  | CloseConn string
  | Query string string "string list"         \<comment> \<open>pool's DSN, statement, arguments\<close>
  | ListBucket string
  | Metric metric
  | Logged string string                      \<comment> \<open>level, subject\<close>
  | Printed string
  | Waited int                                \<comment> \<open>a timer of this many nanoseconds\<close>
  | WriteFile string string                   \<comment> \<open>path, content\<close>

text \<open>What a directory walk can find under a path; entries in the order of their names.\<close>

datatype fs_tree = FsFile | FsUnreadable | FsDir "(string \<times> fs_tree) list"

record http_response =
  StatusCode :: int
  XTotal :: string
  Body :: string

datatype sql_value = SqlNull | SqlBool bool | SqlInt int | SqlFloat rat | SqlText string

datatype sql_error = ErrNoRows | SqlError string

record world =
  trace :: "event list"
  cmd_reply :: "event list \<Rightarrow> string \<Rightarrow> string list \<Rightarrow> string list \<Rightarrow> string \<times> string option"
  http_reply :: "event list \<Rightarrow> string \<Rightarrow> string \<Rightarrow> string + http_response"
  connect_reply :: "event list \<Rightarrow> string \<Rightarrow> string option"
  sql_reply :: "event list \<Rightarrow> string \<Rightarrow> string \<Rightarrow> string list \<Rightarrow> sql_error + sql_value"
  rows_reply :: "event list \<Rightarrow> string \<Rightarrow> string \<Rightarrow> sql_error + sql_value list list \<times> sql_error option"
  bucket_pages :: "event list \<Rightarrow> string \<Rightarrow> (string + int option list) list"
  file_content :: "event list \<Rightarrow> string \<Rightarrow> string + string"
  read_dir :: "event list \<Rightarrow> string \<Rightarrow> string list option"
  write_err :: "event list \<Rightarrow> string \<Rightarrow> string option"
  dir_tree :: "event list \<Rightarrow> string \<Rightarrow> fs_tree"
  rand_draw :: "event list \<Rightarrow> int"
  ctx_err :: "event list \<Rightarrow> string option"
  elapsed_str :: "event list \<Rightarrow> string"

definition emit :: "event \<Rightarrow> world \<Rightarrow> world" where
  "emit e w = w\<lparr>trace := trace w @ [e]\<rparr>"

definition ctxErr :: "world \<Rightarrow> string option" where
  "ctxErr w = ctx_err w (trace w)"

definition cancelled :: "world \<Rightarrow> bool" where
  "cancelled w \<longleftrightarrow> ctxErr w \<noteq> None"

definition elapsed :: "world \<Rightarrow> string" where
  "elapsed w = elapsed_str w (trace w)"

section \<open>Actions\<close>

text \<open>An operation that returns an error or none.\<close>

type_synonym step = "world \<Rightarrow> string option \<times> world"

definition exec_cmd ::
    "string \<Rightarrow> string list \<Rightarrow> string list \<Rightarrow> world \<Rightarrow> (string \<times> string option) \<times> world" where
  "exec_cmd prog args env w = (cmd_reply w (trace w) prog args env, emit (Exec prog args env) w)"

definition http_get :: "string \<Rightarrow> string \<Rightarrow> world \<Rightarrow> (string + http_response) \<times> world" where
  "http_get url token w = (http_reply w (trace w) url token, emit (HttpGet url token) w)"

definition connect :: "string \<Rightarrow> world \<Rightarrow> string option \<times> world" where
  "connect dsn w = (connect_reply w (trace w) dsn, emit (Connect dsn) w)"

definition query_row ::
    "string \<Rightarrow> string \<Rightarrow> string list \<Rightarrow> world \<Rightarrow> (sql_error + sql_value) \<times> world" where
  "query_row dsn sql args w = (sql_reply w (trace w) dsn sql args, emit (Query dsn sql args) w)"

text \<open>A query for many rows fails at once, or yields rows and perhaps an error after the last one.\<close>

definition query_rows ::
    "string \<Rightarrow> string \<Rightarrow> world \<Rightarrow> (sql_error + sql_value list list \<times> sql_error option) \<times> world" where
  "query_rows dsn sql w = (rows_reply w (trace w) dsn sql, emit (Query dsn sql []) w)"

text \<open>Reading leaves no event; writing does, and may fail.\<close>

definition read_path :: "string \<Rightarrow> world \<Rightarrow> string + string" where
  "read_path path w = file_content w (trace w) path"

definition list_dir :: "string \<Rightarrow> world \<Rightarrow> string list option" where
  "list_dir path w = read_dir w (trace w) path"

definition write_path :: "string \<Rightarrow> string \<Rightarrow> step" where
  "write_path path content w = (write_err w (trace w) path, emit (WriteFile path content) w)"

definition list_bucket :: "string \<Rightarrow> world \<Rightarrow> (string + int option list) list \<times> world" where
  "list_bucket b w = (bucket_pages w (trace w) b, emit (ListBucket b) w)"

fun show_sql_error :: "sql_error \<Rightarrow> string" where
  "show_sql_error ErrNoRows = ''no rows in result set''"
| "show_sql_error (SqlError e) = e"

text \<open>
  Steps that run in order until one returns an error: the shape of every sequence of remote
  commands in the program.
\<close>

fun run_steps :: "step list \<Rightarrow> step" where
  "run_steps [] w = (None, w)"
| "run_steps (s # ss) w =
     (case s w of (Some e, w') \<Rightarrow> (Some e, w') | (None, w') \<Rightarrow> run_steps ss w')"

section \<open>Histories only grow\<close>

definition extends :: "world \<Rightarrow> world \<Rightarrow> bool" where
  "extends w w' \<longleftrightarrow> (\<exists>es. w' = w\<lparr>trace := trace w @ es\<rparr>)"

text \<open>The events a run added.\<close>

definition added :: "world \<Rightarrow> world \<Rightarrow> event list" where
  "added w w' = drop (length (trace w)) (trace w')"

named_theorems extends_intros \<open>each operation only adds to the history\<close>

lemma trace_emit [simp]: "trace (emit e w) = trace w @ [e]"
  by (simp add: emit_def)

lemma env_emit [simp]:
  "cmd_reply (emit e w) = cmd_reply w" "http_reply (emit e w) = http_reply w"
  "connect_reply (emit e w) = connect_reply w" "sql_reply (emit e w) = sql_reply w"
  "rows_reply (emit e w) = rows_reply w" "file_content (emit e w) = file_content w"
  "read_dir (emit e w) = read_dir w" "write_err (emit e w) = write_err w"
  "dir_tree (emit e w) = dir_tree w" "rand_draw (emit e w) = rand_draw w"
  "bucket_pages (emit e w) = bucket_pages w" "ctx_err (emit e w) = ctx_err w"
  "elapsed_str (emit e w) = elapsed_str w"
  by (simp_all add: emit_def)

lemma extends_refl [simp, intro]: "extends w w"
  unfolding extends_def by (rule exI[of _ "[]"]) simp

lemma extends_trans: "extends w w' \<Longrightarrow> extends w' w'' \<Longrightarrow> extends w w''"
  by (auto simp: extends_def)

lemma extends_emit [simp, extends_intros]: "extends w (emit e w)"
  by (auto simp: extends_def emit_def)

lemma extends_emitI: "extends w w' \<Longrightarrow> extends w (emit e w')"
  using extends_emit extends_trans by blast

lemma extends_trace: "extends w w' \<Longrightarrow> trace w' = trace w @ added w w'"
  by (auto simp: extends_def added_def)

lemma extends_env:
  assumes "extends w w'"
  shows "cmd_reply w' = cmd_reply w" "http_reply w' = http_reply w" "sql_reply w' = sql_reply w"
    "connect_reply w' = connect_reply w" "rows_reply w' = rows_reply w" "bucket_pages w' = bucket_pages w"
    "ctx_err w' = ctx_err w" "elapsed_str w' = elapsed_str w"
    "file_content w' = file_content w" "read_dir w' = read_dir w" "write_err w' = write_err w"
    "dir_tree w' = dir_tree w" "rand_draw w' = rand_draw w"
  using assms by (auto simp: extends_def)

lemma added_refl [simp]: "added w w = []"
  by (simp add: added_def)

lemma added_emit [simp]: "added w (emit e w) = [e]"
  by (simp add: added_def)

lemma added_trans:
  "extends w w' \<Longrightarrow> extends w' w'' \<Longrightarrow> added w w'' = added w w' @ added w' w''"
  by (auto simp: extends_def added_def)

lemma added_emitI: "extends w w' \<Longrightarrow> added w (emit e w') = added w w' @ [e]"
  using added_trans[OF _ extends_emit, of w w' e] by simp

lemma extends_actions [extends_intros]:
  "extends w (snd (exec_cmd p a n w))" "extends w (snd (http_get u t w))"
  "extends w (snd (connect d w))" "extends w (snd (query_row d q as w))"
  "extends w (snd (list_bucket b w))" "extends w (snd (query_rows d q w))"
  "extends w (snd (write_path p c w))"
  by (simp_all add: write_path_def exec_cmd_def http_get_def connect_def query_row_def list_bucket_def query_rows_def)

lemma run_steps_append:
  "run_steps (ss @ ts) w =
     (case run_steps ss w of (Some e, w') \<Rightarrow> (Some e, w') | (None, w') \<Rightarrow> run_steps ts w')"
  by (induction ss arbitrary: w) (auto split: prod.splits option.splits)

lemma run_steps_extends:
  "(\<And>s w. s \<in> set ss \<Longrightarrow> extends w (snd (s w))) \<Longrightarrow> extends w (snd (run_steps ss w))"
proof (induction ss arbitrary: w)
  case Nil
  then show ?case by simp
next
  case (Cons s ss)
  obtain r w1 where s: "s w = (r, w1)" by fastforce
  have 1: "extends w w1" using Cons.prems[of s w] s by simp
  show ?case
  proof (cases r)
    case None
    have "extends w1 (snd (run_steps ss w1))" using Cons by simp
    with 1 None s show ?thesis by (auto intro: extends_trans)
  next
    case (Some e)
    with 1 s show ?thesis by simp
  qed
qed

text \<open>
  A run of the steps \<open>g c\<close> that each make one event \<open>f c\<close>: on success all events are
  there, in order; on failure those up to and including the failing step.
\<close>

lemma run_steps_trace:
  assumes "\<And>c w. c \<in> set cs \<Longrightarrow> snd (g c w) = emit (f c) w"
  shows "run_steps (map g cs) w = (None, w') \<Longrightarrow> trace w' = trace w @ map f cs"
    and "run_steps (map g cs) w = (Some e, w') \<Longrightarrow>
      \<exists>k < length cs. trace w' = trace w @ map f (take (Suc k) cs)"
  using assms
proof (induction cs arbitrary: w)
  case Nil
  {
    case 1
    then show ?case by simp
  next
    case 2
    then show ?case by simp
  }
next
  case (Cons c cs)
  {
    case 1
    obtain r w1 where s: "g c w = (r, w1)" by fastforce
    have "w1 = emit (f c) w" using 1(2)[of c w] s by simp
    then show ?case using 1 s Cons.IH(1)[of w1] by (auto split: option.splits)
  next
    case 2
    obtain r w1 where s: "g c w = (r, w1)" by fastforce
    have w1: "w1 = emit (f c) w" using 2(2)[of c w] s by simp
    show ?case
    proof (cases r)
      case None
      then obtain k where "k < length cs" "trace w' = trace w1 @ map f (take (Suc k) cs)"
        using 2 s Cons.IH(2)[of w1] by auto
      then show ?thesis using w1 by (intro exI[of _ "Suc k"]) auto
    next
      case (Some x)
      then show ?thesis using 2(1) s w1 by (intro exI[of _ 0]) auto
    qed
  }
qed

section \<open>What a history holds\<close>

definition execs :: "event list \<Rightarrow> (string \<times> string list) list" where
  "execs es = List.map_filter (\<lambda>e. case e of Exec p a _ \<Rightarrow> Some (p, a) | _ \<Rightarrow> None) es"

definition drift_count :: "string \<Rightarrow> string \<Rightarrow> event list \<Rightarrow> nat" where
  "drift_count c sev es = count_list es (Metric (DriftTotal c sev))"

lemma execs_simps [simp]:
  "execs [] = []" "execs (xs @ ys) = execs xs @ execs ys"
  "execs (Exec p a n # es) = (p, a) # execs es"
  by (simp_all add: execs_def map_filter_def)

lemma execs_other [simp]:
  "execs (Printed s # es) = execs es" "execs (Metric m # es) = execs es"
  "execs (Logged l s # es) = execs es" "execs (HttpGet u t # es) = execs es"
  "execs (Query d q as # es) = execs es" "execs (Connect d # es) = execs es"
  "execs (CloseConn d # es) = execs es" "execs (ListBucket b # es) = execs es"
  "execs (Waited n # es) = execs es" "execs (WriteFile p c # es) = execs es"
  by (simp_all add: execs_def map_filter_def)

text \<open>Steps that run no command.\<close>

definition silent :: "step \<Rightarrow> bool" where
  "silent s \<longleftrightarrow> (\<forall>w. extends w (snd (s w)) \<and> execs (added w (snd (s w))) = [])"

lemma run_steps_silent:
  assumes "\<forall>s \<in> set ss. silent s"
  shows "silent (run_steps ss)"
  unfolding silent_def
proof (intro allI)
  fix w
  show "extends w (snd (run_steps ss w)) \<and> execs (added w (snd (run_steps ss w))) = []"
    using assms
  proof (induction ss arbitrary: w)
    case Nil
    then show ?case by simp
  next
    case (Cons s ss)
    obtain r w1 where s: "s w = (r, w1)" by fastforce
    have 1: "extends w w1" "execs (added w w1) = []"
      using Cons.prems s by (auto simp: silent_def dest: spec[of _ w])
    have 2: "extends w1 (snd (run_steps ss w1)) \<and> execs (added w1 (snd (run_steps ss w1))) = []"
      using Cons by simp
    with 1 s show ?case
      by (cases r) (auto simp: added_trans[of w w1 "snd (run_steps ss w1)"] intro: extends_trans)
  qed
qed

section \<open>Histories that only observe\<close>

text \<open>
  Statements that read, by their first word. An event observes if it neither writes a file nor
  sends a statement of another kind; what a command does on its host is not its matter.
\<close>

definition reading_sql :: "string \<Rightarrow> bool" where
  "reading_sql q \<longleftrightarrow> has_prefix q ''SELECT '' \<or> has_prefix q ''SHOW ''"

fun observing :: "event \<Rightarrow> bool" where
  "observing (Query d q as) = reading_sql q"
| "observing (WriteFile p c) = False"
| "observing _ = True"

definition observes :: "world \<Rightarrow> world \<Rightarrow> bool" where
  "observes w w' \<longleftrightarrow> extends w w' \<and> list_all observing (added w w')"

lemma observes_refl [simp, intro]: "observes w w"
  by (simp add: observes_def)

lemma observes_trans: "observes w w1 \<Longrightarrow> observes w1 w2 \<Longrightarrow> observes w w2"
  by (auto simp: observes_def added_trans[of w w1 w2] intro: extends_trans)

lemma observes_emit: "observes w w1 \<Longrightarrow> observing e \<Longrightarrow> observes w (emit e w1)"
  by (auto simp: observes_def added_emitI intro: extends_emitI)

lemma observes_emits: "observing e \<Longrightarrow> observes w (emit e w)"
  by (simp add: observes_emit)

lemma observes_after: "observing e \<Longrightarrow> observes (emit e w) w' \<Longrightarrow> observes w w'"
  by (rule observes_trans[OF observes_emits])

lemma observes_fold: "(\<And>x. x \<in> set xs \<Longrightarrow> observing (f x)) \<Longrightarrow> observes w (fold (\<lambda>x. emit (f x)) xs w)"
proof (induction xs arbitrary: w)
  case (Cons x xs)
  then have "observes (emit (f x) w) (fold (\<lambda>x. emit (f x)) xs (emit (f x) w))" by simp
  then show ?case using observes_after[of "f x"] Cons.prems by simp
qed simp

lemma run_steps_observes:
  "(\<And>s w. s \<in> set ss \<Longrightarrow> observes w (snd (s w))) \<Longrightarrow> observes w (snd (run_steps ss w))"
proof (induction ss arbitrary: w)
  case (Cons s ss)
  obtain r w1 where s: "s w = (r, w1)" by fastforce
  have 1: "observes w w1" using Cons.prems[of s w] s by simp
  have "observes w1 (snd (run_steps ss w1))" using Cons by simp
  then show ?case using 1 s by (cases r) (auto intro: observes_trans)
qed simp

text \<open>A world that never fails, for witnesses: every command answers with the given output.\<close>

definition calm_world :: "string \<Rightarrow> world" where
  "calm_world out =
     \<lparr>trace = [], cmd_reply = (\<lambda>_ _ _ _. (out, None)),
      http_reply = (\<lambda>_ _ _. Inr \<lparr>StatusCode = 200, XTotal = ''0'', Body = []\<rparr>),
      connect_reply = (\<lambda>_ _. None), sql_reply = (\<lambda>_ _ _ _. Inr (SqlInt 0)),
      rows_reply = (\<lambda>_ _ _. Inr ([], None)), bucket_pages = (\<lambda>_ _. []),
      file_content = (\<lambda>_ _. Inr []), read_dir = (\<lambda>_ _. None), write_err = (\<lambda>_ _. None),
      dir_tree = (\<lambda>_ _. FsDir []), rand_draw = (\<lambda>_. 0), ctx_err = (\<lambda>_. None), elapsed_str = (\<lambda>_. ''1s'')\<rparr>"

end
