(* ===== verification/Sshexec.thy ===== *)
theory Sshexec
  imports Geo_World
begin

text \<open>
  \<open>internal/sshexec/sshexec.go\<close>: the host-key policy and the construction of every ssh
  command, and the interface \<open>sshexec.Runner\<close> through which the other packages run
  remote commands. \<open>ssh_runner\<close> is that interface as a locale: one remote command is one
  event, which names the host and the command.
\<close>

section \<open>Configuration and commands\<close>

record ssh_config =
  KnownHostsFile :: string
  StrictHostKeyChecking :: string

definition EffectiveStrictHostKeyChecking :: "ssh_config \<Rightarrow> string" where
  "EffectiveStrictHostKeyChecking c =
     (if StrictHostKeyChecking c \<noteq> [] then StrictHostKeyChecking c
      else if KnownHostsFile c \<noteq> [] then ''yes''
      else ''accept-new'')"

definition ExtraArgs :: "ssh_config \<Rightarrow> string list" where
  "ExtraArgs c =
     [''-o'', ''StrictHostKeyChecking='' @ EffectiveStrictHostKeyChecking c] @
     (if KnownHostsFile c \<noteq> [] then [''-o'', ''UserKnownHostsFile='' @ KnownHostsFile c] else [])"

definition ssh_Command :: "ssh_config \<Rightarrow> string \<Rightarrow> string \<Rightarrow> string \<times> string list" where
  "ssh_Command c host remoteCmd = (''ssh'', ExtraArgs c @ [host, remoteCmd])"

definition CombinedOutput ::
    "ssh_config \<Rightarrow> string \<Rightarrow> string \<Rightarrow> world \<Rightarrow> (string \<times> string option) \<times> world" where
  "CombinedOutput c host remoteCmd w =
     (let (prog, args) = ssh_Command c host remoteCmd in exec_cmd prog args [] w)"

definition SSHString :: "ssh_config \<Rightarrow> string" where
  "SSHString c = ''ssh '' @ str_join '' '' (ExtraArgs c)"

definition ssh_Default :: ssh_config where
  "ssh_Default = \<lparr>KnownHostsFile = [], StrictHostKeyChecking = []\<rparr>"

definition CheckHost :: "string \<Rightarrow> string option" where
  "CheckHost host = (if host = [] then Some ''ssh_host not configured'' else None)"

text \<open>The event a remote command is recorded as.\<close>

abbreviation ssh_event :: "ssh_config \<Rightarrow> string \<Rightarrow> string \<Rightarrow> event" where
  "ssh_event c h cmd \<equiv> Exec ''ssh'' (ExtraArgs c @ [h, cmd]) []"

section \<open>The Runner interface\<close>

type_synonym ssh_run = "string \<Rightarrow> string \<Rightarrow> world \<Rightarrow> (string \<times> string option) \<times> world"

locale ssh_runner =
  fixes run :: ssh_run
    and sent :: "string \<Rightarrow> string \<Rightarrow> event"
  assumes run_emits: "snd (run h c w) = emit (sent h c) w"
    and sent_inj: "sent h c = sent h' c' \<Longrightarrow> h = h' \<and> c = c'"
begin

lemma run_extends: "extends w (snd (run h c w))"
  by (simp add: run_emits)

lemma run_cases:
  obtains out err where "run h c w = ((out, err), emit (sent h c) w)"
  using run_emits[of h c w] by (metis prod.collapse)

end

lemma CombinedOutput_eq:
  "CombinedOutput c h cmd w =
     (cmd_reply w (trace w) ''ssh'' (ExtraArgs c @ [h, cmd]) [], emit (ssh_event c h cmd) w)"
  by (simp add: CombinedOutput_def ssh_Command_def exec_cmd_def)

interpretation real_ssh: ssh_runner "CombinedOutput c" "ssh_event c"
  by unfold_locales (auto simp: CombinedOutput_eq)

section \<open>The host-key policy\<close>

lemma ExtraArgs_ne [simp]: "ExtraArgs c \<noteq> []"
  by (simp add: ExtraArgs_def)

lemma host_not_in_policy: "last (ExtraArgs c @ [h, cmd]) = cmd"
  by simp

text \<open>Pinned host keys are enforced: when a known-hosts file is configured and the mode is not
  overridden, every ssh command the program builds, and the option string it hands to rsync and
  git, demands strict checking against exactly that file; without one the mode is accept-new, and
  an explicit mode always wins.\<close>

lemma host_key_policy:
  "fst (ssh_Command c h cmd) = ''ssh'' \<and>
   snd (ssh_Command c h cmd) =
     ''-o'' # (''StrictHostKeyChecking='' @
        (if StrictHostKeyChecking c \<noteq> [] then StrictHostKeyChecking c
         else if KnownHostsFile c \<noteq> [] then ''yes'' else ''accept-new'')) #
     (if KnownHostsFile c = [] then [] else [''-o'', ''UserKnownHostsFile='' @ KnownHostsFile c]) @
     [h, cmd] \<and>
   SSHString c = str_join '' '' (''ssh'' # butlast (butlast (snd (ssh_Command c h cmd))))"
  by (simp add: ssh_Command_def ExtraArgs_def EffectiveStrictHostKeyChecking_def SSHString_def
      butlast_append)

text \<open>The option string that rsync and git split at spaces gives back the exact arguments
  the program uses for its own ssh commands, as long as the configured file name and mode hold
  no space.\<close>

lemma ssh_string_splits_back:
  assumes "CHR '' '' \<notin> set (KnownHostsFile c)" and "CHR '' '' \<notin> set (StrictHostKeyChecking c)"
  shows "split_on (CHR '' '') (SSHString c) = ''ssh'' # ExtraArgs c"
proof -
  have "\<forall>a \<in> set (''ssh'' # ExtraArgs c). CHR '' '' \<notin> set a"
    using assms by (auto simp: ExtraArgs_def EffectiveStrictHostKeyChecking_def)
  then have "split_on (CHR '' '') (str_join '' '' (''ssh'' # ExtraArgs c)) = ''ssh'' # ExtraArgs c"
    by (intro split_on_join) simp_all
  then show ?thesis
    by (simp add: SSHString_def str_join_Cons)
qed

lemma ssh_string_splits_back_witness:
  "split_on (CHR '' '') (SSHString \<lparr>KnownHostsFile = ''/etc/geoctl/known_hosts'',
      StrictHostKeyChecking = []\<rparr>) =
   [''ssh'', ''-o'', ''StrictHostKeyChecking=yes'', ''-o'',
    ''UserKnownHostsFile=/etc/geoctl/known_hosts'']"
  using ssh_string_splits_back[of "\<lparr>KnownHostsFile = ''/etc/geoctl/known_hosts'',
      StrictHostKeyChecking = []\<rparr>"]
  by (simp add: ExtraArgs_def EffectiveStrictHostKeyChecking_def)

end
