(* ===== verification/Config.thy ===== *)
theory Config
  imports Sshexec
begin

text \<open>
  \<open>internal/config/config.go\<close>, the data and the loading: the configuration records, the
  expansion of environment references by reflection after the YAML parse, the semantic
  validation with its defaults, and \<open>Load\<close>. Field names carry their record's short name as a
  prefix. The YAML decoder and the file read are parameters of \<open>Load\<close>.
\<close>

section \<open>The configuration\<close>

record PostgresConfig =
  pg_Host :: string
  pg_Port :: int
  pg_DB :: string
  pg_User :: string
  pg_Password :: string
  pg_ReplicationUser :: string
  pg_ReplicationPassword :: string
  pg_SlotName :: string
  pg_SSLMode :: string
  pg_SSLRootCert :: string
  pg_SSLCert :: string
  pg_SSLKey :: string

record GitStorage =
  git_Mode :: string
  git_ReposPath :: string
  git_HashedStorage :: bool

record S3Config =
  s3_Region :: string
  s3_PrimaryBucket :: string
  s3_ReplicaBucket :: string
  s3_AccessKey :: string
  s3_SecretKey :: string
  s3_Endpoint :: string
  s3_ReplicationLag :: int

record ObjectStoreConfig =
  os_Backend :: string
  os_S3 :: "S3Config option"
  os_FSPaths :: "string list"

record RegistryConfig =
  reg_Mode :: string
  reg_FSPath :: string
  reg_S3 :: "S3Config option"

record SiteConfig =
  site_Name :: string
  site_ExternalURL :: string
  site_Postgres :: PostgresConfig
  site_Git :: GitStorage
  site_ObjectStore :: ObjectStoreConfig
  site_Registry :: "RegistryConfig option"
  site_SSHHost :: string

record SyncConfig =
  sync_SweepInterval :: int
  sync_LagWarningThreshold :: int
  sync_LagCriticalThreshold :: int
  sync_FailoverEnabled :: bool
  sync_ReadOnlySecondary :: bool
  sync_ConsistencySamplePct :: rat

record WebhookConfig =
  wh_Addr :: string
  wh_SecretToken :: string

record APIValidatorConfig =
  api_Enabled :: bool
  api_PrimaryToken :: string
  api_SecondaryToken :: string

text \<open>A Go map is iterated in an unspecified order; the list is the order of one run.\<close>

record FailoverConfig =
  fo_HealthCheckURLs :: "string list"
  fo_HealthCheckInterval :: int
  fo_QuorumRequired :: int
  fo_DNSPlugin :: string
  fo_DNSConfig :: "(string \<times> string) list"
  fo_AutoFailover :: bool

record Config =
  Primary :: SiteConfig
  Secondaries :: "SiteConfig list"
  Sync :: SyncConfig
  Metrics_Addr :: string
  Log_Level :: string
  Log_Format :: string
  ControlDB :: string
  Webhook :: "WebhookConfig option"
  APIValidator :: "APIValidatorConfig option"
  Failover :: "FailoverConfig option"
  SSH :: ssh_config

definition SSHExecConfig :: "Config \<Rightarrow> ssh_config" where
  "SSHExecConfig c =
     \<lparr>KnownHostsFile = KnownHostsFile (SSH c),
      StrictHostKeyChecking = StrictHostKeyChecking (SSH c)\<rparr>"

section \<open>Environment references\<close>

type_synonym environment = "string \<Rightarrow> string option"

definition name_start :: "char \<Rightarrow> bool" where
  "name_start c \<longleftrightarrow> is_upper c \<or> c = CHR ''_''"

definition name_char :: "char \<Rightarrow> bool" where
  "name_char c \<longleftrightarrow> is_upper c \<or> is_digit c \<or> c = CHR ''_''"

text \<open>A match of \<open>envRefRe\<close> at the front of a string: the variable's name and what follows.\<close>

definition envRefRe :: "string \<Rightarrow> (string \<times> string) option" where
  "envRefRe s =
     (if has_prefix s ''${'' then
        (let n = takeWhile name_char (drop 2 s); r = dropWhile name_char (drop 2 s)
         in if n \<noteq> [] \<and> name_start (hd n) \<and> r \<noteq> [] \<and> hd r = CHR ''}'' then Some (n, tl r) else None)
      else None)"

lemma envRefRe_shorter: "envRefRe s = Some (n, r) \<Longrightarrow> length r < length s"
proof -
  assume e: "envRefRe s = Some (n, r)"
  then have "r = tl (dropWhile name_char (drop 2 s))" "dropWhile name_char (drop 2 s) \<noteq> []"
    by (auto simp: envRefRe_def Let_def split: if_splits)
  moreover have "length (dropWhile name_char (drop 2 s)) \<le> length s"
    by (metis length_dropWhile_le length_drop diff_le_self le_trans)
  ultimately show ?thesis
    by (cases "dropWhile name_char (drop 2 s)") auto
qed

text \<open>
  \<open>ReplaceAllStringFunc\<close> with the closure of \<open>expandEnvString\<close>: matches from left to right, a
  variable that is unset or empty is recorded and its reference left in place.
\<close>

function replaceEnv :: "environment \<Rightarrow> string \<Rightarrow> string \<times> string list" where
  "replaceEnv env [] = ([], [])"
| "replaceEnv env (c # s) =
     (case envRefRe (c # s) of
        None \<Rightarrow> (let (out, missing) = replaceEnv env s in (c # out, missing))
      | Some (n, r) \<Rightarrow>
          (let (out, missing) = replaceEnv env r
           in case env n of
                None \<Rightarrow> (''${'' @ n @ ''}'' @ out, n # missing)
              | Some v \<Rightarrow> if v = [] then (''${'' @ n @ ''}'' @ out, n # missing)
                          else (v @ out, missing)))"
  by pat_completeness auto
termination
  by (relation "measure (\<lambda>(env, s). length s)") (auto dest: envRefRe_shorter)

definition missing_msg :: "string list \<Rightarrow> string" where
  "missing_msg missing =
     ''environment variables referenced but not set: '' @ str_join '', '' missing"

definition ExpandEnv :: "environment \<Rightarrow> string \<Rightarrow> string + string" where
  "ExpandEnv env raw =
     (let (out, missing) = replaceEnv env raw
      in if missing \<noteq> [] then Inl (missing_msg missing) else Inr out)"

definition expandEnvString :: "environment \<Rightarrow> string \<Rightarrow> string + string" where
  "expandEnvString env s =
     (if \<not> str_contains s ''${'' then Inr s
      else (let (result, missing) = replaceEnv env s
            in if missing \<noteq> [] then Inl (missing_msg missing) else Inr result))"

section \<open>The reflection walk\<close>

text \<open>The walk returns, fails with an error, or panics.\<close>

datatype 'a outcome = Done 'a | Failed string | Panicked string

fun walk :: "('r \<Rightarrow> 'r outcome) list \<Rightarrow> 'r \<Rightarrow> 'r outcome" where
  "walk [] r = Done r"
| "walk (f # fs) r = (case f r of Done r' \<Rightarrow> walk fs r' | Failed e \<Rightarrow> Failed e | Panicked p \<Rightarrow> Panicked p)"

text \<open>\<open>resolveEnv\<close> on the kinds String, Pointer, Slice and Map, and on a field of a struct.\<close>

definition resolve_string :: "environment \<Rightarrow> string \<Rightarrow> string outcome" where
  "resolve_string env s = (case expandEnvString env s of Inl e \<Rightarrow> Failed e | Inr v \<Rightarrow> Done v)"

definition resolve_ptr :: "('a \<Rightarrow> 'a outcome) \<Rightarrow> 'a option \<Rightarrow> 'a option outcome" where
  "resolve_ptr sub p = (case p of None \<Rightarrow> Done None | Some x \<Rightarrow> map_outcome Some (sub x))"

fun resolve_slice :: "('a \<Rightarrow> 'a outcome) \<Rightarrow> 'a list \<Rightarrow> 'a list outcome" where
  "resolve_slice sub [] = Done []"
| "resolve_slice sub (x # xs) =
     (case sub x of
        Done y \<Rightarrow> map_outcome (\<lambda>ys. y # ys) (resolve_slice sub xs)
      | Failed e \<Rightarrow> Failed e
      | Panicked p \<Rightarrow> Panicked p)"

text \<open>
  A value obtained by \<open>MapIndex\<close> cannot be assigned: \<open>SetString\<close> on it panics, whatever the
  string is. The first key visited ends the walk of a non-empty map.
\<close>

definition resolve_map :: "environment \<Rightarrow> (string \<times> string) list \<Rightarrow> (string \<times> string) list outcome" where
  "resolve_map env m =
     (case m of
        [] \<Rightarrow> Done []
      | (k, v) # _ \<Rightarrow>
          (case resolve_string env v of
             Done v' \<Rightarrow> Panicked ''reflect: reflect.Value.SetString using unaddressable value''
           | Failed e \<Rightarrow> Failed e
           | Panicked p \<Rightarrow> Panicked p))"

definition field :: "('a \<Rightarrow> 'a outcome) \<Rightarrow> ('r \<Rightarrow> 'a) \<Rightarrow> (('a \<Rightarrow> 'a) \<Rightarrow> 'r \<Rightarrow> 'r) \<Rightarrow> 'r \<Rightarrow> 'r outcome" where
  "field sub get upd r = map_outcome (\<lambda>v. upd (\<lambda>_. v) r) (sub (get r))"

abbreviation strf :: "environment \<Rightarrow> ('r \<Rightarrow> string) \<Rightarrow> ((string \<Rightarrow> string) \<Rightarrow> 'r \<Rightarrow> 'r) \<Rightarrow> 'r \<Rightarrow> 'r outcome" where
  "strf env \<equiv> field (resolve_string env)"

definition resolve_pg :: "environment \<Rightarrow> PostgresConfig \<Rightarrow> PostgresConfig outcome" where
  "resolve_pg env =
     walk [strf env pg_Host pg_Host_update, strf env pg_DB pg_DB_update,
       strf env pg_User pg_User_update, strf env pg_Password pg_Password_update,
       strf env pg_ReplicationUser pg_ReplicationUser_update,
       strf env pg_ReplicationPassword pg_ReplicationPassword_update,
       strf env pg_SlotName pg_SlotName_update, strf env pg_SSLMode pg_SSLMode_update,
       strf env pg_SSLRootCert pg_SSLRootCert_update, strf env pg_SSLCert pg_SSLCert_update,
       strf env pg_SSLKey pg_SSLKey_update]"

definition resolve_git :: "environment \<Rightarrow> GitStorage \<Rightarrow> GitStorage outcome" where
  "resolve_git env =
     walk [strf env git_Mode git_Mode_update, strf env git_ReposPath git_ReposPath_update]"

definition resolve_s3 :: "environment \<Rightarrow> S3Config \<Rightarrow> S3Config outcome" where
  "resolve_s3 env =
     walk [strf env s3_Region s3_Region_update, strf env s3_PrimaryBucket s3_PrimaryBucket_update,
       strf env s3_ReplicaBucket s3_ReplicaBucket_update, strf env s3_AccessKey s3_AccessKey_update,
       strf env s3_SecretKey s3_SecretKey_update, strf env s3_Endpoint s3_Endpoint_update]"

definition resolve_os :: "environment \<Rightarrow> ObjectStoreConfig \<Rightarrow> ObjectStoreConfig outcome" where
  "resolve_os env =
     walk [strf env os_Backend os_Backend_update,
       field (resolve_ptr (resolve_s3 env)) os_S3 os_S3_update,
       field (resolve_slice (resolve_string env)) os_FSPaths os_FSPaths_update]"

definition resolve_reg :: "environment \<Rightarrow> RegistryConfig \<Rightarrow> RegistryConfig outcome" where
  "resolve_reg env =
     walk [strf env reg_Mode reg_Mode_update, strf env reg_FSPath reg_FSPath_update,
       field (resolve_ptr (resolve_s3 env)) reg_S3 reg_S3_update]"

definition resolve_site :: "environment \<Rightarrow> SiteConfig \<Rightarrow> SiteConfig outcome" where
  "resolve_site env =
     walk [strf env site_Name site_Name_update, strf env site_ExternalURL site_ExternalURL_update,
       field (resolve_pg env) site_Postgres site_Postgres_update,
       field (resolve_git env) site_Git site_Git_update,
       field (resolve_os env) site_ObjectStore site_ObjectStore_update,
       field (resolve_ptr (resolve_reg env)) site_Registry site_Registry_update,
       strf env site_SSHHost site_SSHHost_update]"

definition resolve_webhook :: "environment \<Rightarrow> WebhookConfig \<Rightarrow> WebhookConfig outcome" where
  "resolve_webhook env =
     walk [strf env wh_Addr wh_Addr_update, strf env wh_SecretToken wh_SecretToken_update]"

definition resolve_api :: "environment \<Rightarrow> APIValidatorConfig \<Rightarrow> APIValidatorConfig outcome" where
  "resolve_api env =
     walk [strf env api_PrimaryToken api_PrimaryToken_update,
       strf env api_SecondaryToken api_SecondaryToken_update]"

definition resolve_failover :: "environment \<Rightarrow> FailoverConfig \<Rightarrow> FailoverConfig outcome" where
  "resolve_failover env =
     walk [field (resolve_slice (resolve_string env)) fo_HealthCheckURLs fo_HealthCheckURLs_update,
       strf env fo_DNSPlugin fo_DNSPlugin_update,
       field (resolve_map env) fo_DNSConfig fo_DNSConfig_update]"

definition resolve_ssh :: "environment \<Rightarrow> ssh_config \<Rightarrow> ssh_config outcome" where
  "resolve_ssh env =
     walk [strf env KnownHostsFile KnownHostsFile_update,
       strf env StrictHostKeyChecking StrictHostKeyChecking_update]"

definition resolveEnvInStruct :: "environment \<Rightarrow> Config \<Rightarrow> Config outcome" where
  "resolveEnvInStruct env =
     walk [field (resolve_site env) Primary Primary_update,
       field (resolve_slice (resolve_site env)) Secondaries Secondaries_update,
       strf env Metrics_Addr Metrics_Addr_update,
       strf env Log_Level Log_Level_update, strf env Log_Format Log_Format_update,
       strf env ControlDB ControlDB_update,
       field (resolve_ptr (resolve_webhook env)) Webhook Webhook_update,
       field (resolve_ptr (resolve_api env)) APIValidator APIValidator_update,
       field (resolve_ptr (resolve_failover env)) Failover Failover_update,
       field (resolve_ssh env) SSH SSH_update]"

section \<open>Validation\<close>

datatype config_error =
    Required string
  | GitModeInvalid string
  | NoSecondary
  | SecondaryNameRequired nat
  | SecondaryNameDuplicated nat string
  | SecondaryHostRequired nat
  | SecondaryPasswordRequired nat

definition primary_errors :: "Config \<Rightarrow> config_error list" where
  "primary_errors c =
     (let p = Primary c; g = site_Git p in
      (if site_Name p = [] then [Required ''primary.name''] else []) @
      (if site_ExternalURL p = [] then [Required ''primary.external_url''] else []) @
      (if pg_Host (site_Postgres p) = [] then [Required ''primary.postgres.host''] else []) @
      (if pg_Port (site_Postgres p) = 0 then [Required ''primary.postgres.port''] else []) @
      (if pg_ReplicationUser (site_Postgres p) = []
       then [Required ''primary.postgres.replication_user''] else []) @
      (if pg_ReplicationPassword (site_Postgres p) = []
       then [Required ''primary.postgres.replication_password''] else []) @
      (if git_Mode g = [] then [Required ''primary.git.mode''] else []) @
      (if git_Mode g = ''rsync'' \<or> git_Mode g = ''fetch'' then [] else [GitModeInvalid (git_Mode g)]) @
      (if git_Mode g = ''rsync'' \<and> git_ReposPath g = []
       then [Required ''primary.git.repos_path''] else []))"

fun secondary_errors :: "nat \<Rightarrow> string set \<Rightarrow> SiteConfig list \<Rightarrow> config_error list" where
  "secondary_errors i seen [] = []"
| "secondary_errors i seen (s # ss) =
     (if site_Name s = [] then [SecondaryNameRequired i] else []) @
     (if site_Name s \<noteq> [] \<and> site_Name s \<in> seen then [SecondaryNameDuplicated i (site_Name s)] else []) @
     (if pg_Host (site_Postgres s) = [] then [SecondaryHostRequired i] else []) @
     (if pg_ReplicationPassword (site_Postgres s) = [] then [SecondaryPasswordRequired i] else []) @
     secondary_errors (Suc i) (insert (site_Name s) seen) ss"

definition second_ns :: int where
  "second_ns = 1000000000"

definition sync_defaults :: "SyncConfig \<Rightarrow> SyncConfig" where
  "sync_defaults s =
     s\<lparr>sync_SweepInterval := if sync_SweepInterval s = 0 then 300 * second_ns else sync_SweepInterval s,
       sync_LagWarningThreshold :=
         if sync_LagWarningThreshold s = 0 then 30 * second_ns else sync_LagWarningThreshold s,
       sync_LagCriticalThreshold :=
         if sync_LagCriticalThreshold s = 0 then 300 * second_ns else sync_LagCriticalThreshold s,
       sync_ConsistencySamplePct :=
         if sync_ConsistencySamplePct s = 0 then f64_round (1 / 100) else sync_ConsistencySamplePct s\<rparr>"

definition failover_defaults :: "FailoverConfig \<Rightarrow> FailoverConfig" where
  "failover_defaults f =
     f\<lparr>fo_HealthCheckInterval :=
         if fo_HealthCheckInterval f = 0 then 10 * second_ns else fo_HealthCheckInterval f,
       fo_QuorumRequired := if fo_QuorumRequired f = 0 then 1 else fo_QuorumRequired f,
       fo_DNSPlugin := if fo_DNSPlugin f = [] then ''none'' else fo_DNSPlugin f\<rparr>"

definition config_defaults :: "Config \<Rightarrow> Config" where
  "config_defaults c =
     c\<lparr>Sync := sync_defaults (Sync c),
       Metrics_Addr := if Metrics_Addr c = [] then '':9101'' else Metrics_Addr c,
       Log_Level := if Log_Level c = [] then ''info'' else Log_Level c,
       Log_Format := if Log_Format c = [] then ''json'' else Log_Format c,
       ControlDB := if ControlDB c = [] then ''sqlite://data/geoctl.db'' else ControlDB c,
       Failover := map_option failover_defaults (Failover c)\<rparr>"

definition validate :: "Config \<Rightarrow> config_error list \<times> Config" where
  "validate c =
     (primary_errors c @
      (if Secondaries c = [] then [NoSecondary] else []) @
      secondary_errors 0 {} (Secondaries c),
      config_defaults c)"

text \<open>The sites \<open>warnInsecureSSL\<close> warns about, by the label it logs.\<close>

fun insecure_secondaries :: "nat \<Rightarrow> SiteConfig list \<Rightarrow> string list" where
  "insecure_secondaries i [] = []"
| "insecure_secondaries i (s # ss) =
     (if pg_SSLMode (site_Postgres s) = ''disable''
      then [''secondaries['' @ itoa (int i) @ '']:'' @ site_Name s] else []) @
     insecure_secondaries (Suc i) ss"

definition warnInsecureSSL :: "Config \<Rightarrow> string list" where
  "warnInsecureSSL c =
     (if pg_SSLMode (site_Postgres (Primary c)) = ''disable'' then [''primary''] else []) @
     insecure_secondaries 0 (Secondaries c)"

datatype load_error =
    ReadError string
  | ParseError string
  | EnvError string
  | Invalid "config_error list"

definition Load ::
    "(string \<Rightarrow> string + string) \<Rightarrow> (string \<Rightarrow> string + Config) \<Rightarrow> environment \<Rightarrow>
     string \<Rightarrow> (load_error + Config) outcome" where
  "Load read_file yaml_decode env path =
     (case read_file path of
        Inl e \<Rightarrow> Done (Inl (ReadError (''read config: '' @ e)))
      | Inr raw \<Rightarrow>
        (case yaml_decode raw of
           Inl e \<Rightarrow> Done (Inl (ParseError (''parse config: '' @ e)))
         | Inr c \<Rightarrow>
           (case resolveEnvInStruct env c of
              Panicked p \<Rightarrow> Panicked p
            | Failed e \<Rightarrow> Done (Inl (EnvError e))
            | Done c1 \<Rightarrow>
                (let (errs, c2) = validate c1
                 in if errs = [] then Done (Inr c2) else Done (Inl (Invalid errs))))))"

section \<open>Environment references: lemmas\<close>

lemma envRefRe_None: "\<not> str_contains s ''${'' \<Longrightarrow> envRefRe s = None"
  by (cases s) (auto simp: envRefRe_def)

lemma replaceEnv_plain: "\<not> str_contains s ''${'' \<Longrightarrow> replaceEnv env s = (s, [])"
proof (induction s)
  case Nil
  then show ?case by simp
next
  case (Cons c s)
  then show ?case using envRefRe_None[of "c # s"] by simp
qed

text \<open>A piece of text that holds no reference and cannot start one with what follows it.\<close>

definition plain :: "string \<Rightarrow> bool" where
  "plain s \<longleftrightarrow> \<not> str_contains s ''${'' \<and> (s \<noteq> [] \<longrightarrow> last s \<noteq> CHR ''$'')"

lemma replaceEnv_append_plain:
  "plain s \<Longrightarrow> replaceEnv env (s @ t) = (s @ fst (replaceEnv env t), snd (replaceEnv env t))"
proof (induction s)
  case Nil
  then show ?case by simp
next
  case (Cons c s)
  have p: "plain s" using Cons.prems by (auto simp: plain_def)
  have "\<not> has_prefix (c # s @ t) ''${''"
    using Cons.prems by (cases s) (auto simp: plain_def)
  then have "envRefRe (c # s @ t) = None"
    by (simp add: envRefRe_def del: has_prefix_Cons)
  with Cons.IH[OF p] show ?case by (simp split: prod.splits)
qed

definition var_name :: "string \<Rightarrow> bool" where
  "var_name n \<longleftrightarrow> n \<noteq> [] \<and> name_start (hd n) \<and> (\<forall>c \<in> set n. name_char c)"

lemma envRefRe_read:
  assumes "var_name n"
  shows "envRefRe (''${'' @ n @ ''}'' @ s) = Some (n, s)"
proof -
  have "\<not> name_char (CHR ''}'')" by code_simp
  with assms show ?thesis
    by (simp add: envRefRe_def var_name_def takeWhile_append2 dropWhile_append2)
qed

lemma replaceEnv_ref:
  "var_name n \<Longrightarrow> replaceEnv env (''${'' @ n @ ''}'' @ s) =
     (case env n of
        Some (c # v) \<Rightarrow> (c # v @ fst (replaceEnv env s), snd (replaceEnv env s))
      | _ \<Rightarrow> (''${'' @ n @ ''}'' @ fst (replaceEnv env s), n # snd (replaceEnv env s)))"
  using envRefRe_read[of n s] by (simp split: prod.splits option.splits list.splits)

section \<open>The walk: lemmas\<close>

lemma map_outcome_Done: "map_outcome f x = Done y \<longleftrightarrow> (\<exists>v. x = Done v \<and> y = f v)"
  by (cases x) auto

lemma walk_Cons_Done: "walk (f # fs) r = Done r' \<longleftrightarrow> (\<exists>r1. f r = Done r1 \<and> walk fs r1 = Done r')"
  by (auto split: outcome.splits)

declare walk.simps(2) [simp del]

lemma field_Done: "field sub get upd r = Done r' \<longleftrightarrow> (\<exists>v. sub (get r) = Done v \<and> r' = upd (\<lambda>_. v) r)"
  by (simp add: field_def map_outcome_Done)

lemma resolve_string_Done: "resolve_string env s = Done v \<longleftrightarrow> expandEnvString env s = Inr v"
  by (simp add: resolve_string_def split: sum.splits)

lemma resolve_string_not_panic: "resolve_string env s \<noteq> Panicked p"
  by (simp add: resolve_string_def split: sum.splits)

lemmas walk_Done = walk_Cons_Done walk.simps(1) field_Done resolve_string_Done

text \<open>The strings of a configuration that the walk assigns, in the order it visits them.\<close>

definition pg_strings :: "PostgresConfig \<Rightarrow> string list" where
  "pg_strings p =
     [pg_Host p, pg_DB p, pg_User p, pg_Password p, pg_ReplicationUser p, pg_ReplicationPassword p,
      pg_SlotName p, pg_SSLMode p, pg_SSLRootCert p, pg_SSLCert p, pg_SSLKey p]"

definition s3_strings :: "S3Config \<Rightarrow> string list" where
  "s3_strings s =
     [s3_Region s, s3_PrimaryBucket s, s3_ReplicaBucket s, s3_AccessKey s, s3_SecretKey s, s3_Endpoint s]"

definition opt_strings :: "('a \<Rightarrow> string list) \<Rightarrow> 'a option \<Rightarrow> string list" where
  "opt_strings f x = (case x of None \<Rightarrow> [] | Some y \<Rightarrow> f y)"

definition os_strings :: "ObjectStoreConfig \<Rightarrow> string list" where
  "os_strings x = os_Backend x # opt_strings s3_strings (os_S3 x) @ os_FSPaths x"

definition reg_strings :: "RegistryConfig \<Rightarrow> string list" where
  "reg_strings x = reg_Mode x # reg_FSPath x # opt_strings s3_strings (reg_S3 x)"

definition site_strings :: "SiteConfig \<Rightarrow> string list" where
  "site_strings s =
     [site_Name s, site_ExternalURL s] @ pg_strings (site_Postgres s) @
     [git_Mode (site_Git s), git_ReposPath (site_Git s)] @ os_strings (site_ObjectStore s) @
     opt_strings reg_strings (site_Registry s) @ [site_SSHHost s]"

definition config_strings :: "Config \<Rightarrow> string list" where
  "config_strings c =
     site_strings (Primary c) @ concat (map site_strings (Secondaries c)) @
     [Metrics_Addr c, Log_Level c, Log_Format c, ControlDB c] @
     opt_strings (\<lambda>w. [wh_Addr w, wh_SecretToken w]) (Webhook c) @
     opt_strings (\<lambda>a. [api_PrimaryToken a, api_SecondaryToken a]) (APIValidator c) @
     opt_strings (\<lambda>f. fo_HealthCheckURLs f @ [fo_DNSPlugin f]) (Failover c) @
     [KnownHostsFile (SSH c), StrictHostKeyChecking (SSH c)]"

definition expands :: "environment \<Rightarrow> string list \<Rightarrow> string list \<Rightarrow> bool" where
  "expands env ss ts \<longleftrightarrow> list_all2 (\<lambda>s t. expandEnvString env s = Inr t) ss ts"

lemma expands_simps [simp]:
  "expands env [] []"
  "expands env (s # ss) (t # ts) \<longleftrightarrow> expandEnvString env s = Inr t \<and> expands env ss ts"
  by (simp_all add: expands_def)

lemma expands_append: "expands env a a' \<Longrightarrow> expands env b b' \<Longrightarrow> expands env (a @ b) (a' @ b')"
  by (simp add: expands_def list_all2_appendI)

lemma resolve_slice_Done:
  "resolve_slice sub xs = Done ys \<longleftrightarrow> list_all2 (\<lambda>x y. sub x = Done y) xs ys"
proof (induction xs arbitrary: ys)
  case Nil
  then show ?case by auto
next
  case (Cons x xs)
  then show ?case
    by (cases "sub x") (auto simp: map_outcome_Done list_all2_Cons1)
qed

lemma slice_strings:
  assumes "\<And>x y. sub x = Done y \<Longrightarrow> expands env (f x) (f y)"
  shows "list_all2 (\<lambda>x y. sub x = Done y) xs ys \<Longrightarrow>
    expands env (concat (map f xs)) (concat (map f ys))"
  by (induction xs ys rule: list_all2_induct) (auto intro: expands_append assms)

lemma ptr_strings:
  assumes "\<And>x y. sub x = Done y \<Longrightarrow> expands env (f x) (f y)"
  shows "resolve_ptr sub x = Done y \<Longrightarrow> expands env (opt_strings f x) (opt_strings f y)"
  by (cases x) (auto simp: resolve_ptr_def opt_strings_def map_outcome_Done assms)

lemma resolve_pg_strings:
  "resolve_pg env p = Done p' \<Longrightarrow> expands env (pg_strings p) (pg_strings p') \<and> pg_Port p' = pg_Port p"
  by (auto simp: resolve_pg_def walk_Done pg_strings_def)

lemma resolve_git_strings:
  "resolve_git env g = Done g' \<Longrightarrow>
     expandEnvString env (git_Mode g) = Inr (git_Mode g') \<and>
     expandEnvString env (git_ReposPath g) = Inr (git_ReposPath g') \<and>
     git_HashedStorage g' = git_HashedStorage g"
  by (auto simp: resolve_git_def walk_Done)

lemma resolve_s3_strings:
  "resolve_s3 env p = Done p' \<Longrightarrow> expands env (s3_strings p) (s3_strings p')"
  by (auto simp: resolve_s3_def walk_Done s3_strings_def)

lemma resolve_os_strings:
  "resolve_os env p = Done p' \<Longrightarrow> expands env (os_strings p) (os_strings p')"
  by (auto simp: resolve_os_def walk_Done os_strings_def resolve_slice_Done expands_def[symmetric]
      intro!: expands_append ptr_strings[where sub = "resolve_s3 env"] resolve_s3_strings)

lemma resolve_reg_strings:
  "resolve_reg env p = Done p' \<Longrightarrow> expands env (reg_strings p) (reg_strings p')"
  by (auto simp: resolve_reg_def walk_Done reg_strings_def
      intro!: ptr_strings[where sub = "resolve_s3 env"] resolve_s3_strings)

lemma resolve_site_strings:
  "resolve_site env p = Done p' \<Longrightarrow> expands env (site_strings p) (site_strings p')"
  by (auto simp: resolve_site_def walk_Done site_strings_def
      dest!: resolve_pg_strings resolve_git_strings resolve_os_strings
      intro!: expands_append ptr_strings[where sub = "resolve_reg env"] resolve_reg_strings)

end
