(* ===== verification/Config_Props.thy ===== *)
theory Config_Props
  imports Config
begin

text \<open>
  Properties of configuration loading (\<open>internal/config/config.go\<close>): environment values are
  inserted verbatim, the walk resolves exactly the strings of the configuration, validation
  accepts exactly the well-formed configurations and fills the defaults, and the walk panics on
  a configuration with DNS plugin options.
\<close>

section \<open>Totality of the walk\<close>

definition resolvable :: "environment \<Rightarrow> string \<Rightarrow> bool" where
  "resolvable env s \<longleftrightarrow> (case expandEnvString env s of Inl _ \<Rightarrow> False | Inr _ \<Rightarrow> True)"

definition valueOf :: "environment \<Rightarrow> string \<Rightarrow> string" where
  "valueOf env s = (case expandEnvString env s of Inl _ \<Rightarrow> s | Inr v \<Rightarrow> v)"

lemma resolvable_Done: "resolvable env s \<Longrightarrow> resolve_string env s = Done (valueOf env s)"
  by (simp add: resolvable_def valueOf_def resolve_string_def split: sum.splits)

lemma slice_total:
  "\<forall>x \<in> set xs. \<exists>y. sub x = Done y \<Longrightarrow> \<exists>ys. resolve_slice sub xs = Done ys"
  by (induction xs) (auto simp: map_outcome_Done)

lemma slice_strings_total:
  "\<forall>s \<in> set xs. resolvable env s \<Longrightarrow> \<exists>ys. resolve_slice (resolve_string env) xs = Done ys"
  by (rule slice_total) (auto dest: resolvable_Done)

lemma ptr_total:
  assumes "\<And>y. \<forall>s \<in> set (f y). resolvable env s \<Longrightarrow> \<exists>z. sub y = Done z"
    and "\<forall>s \<in> set (opt_strings f x). resolvable env s"
  shows "\<exists>z. resolve_ptr sub x = Done z"
  using assms by (cases x) (auto simp: resolve_ptr_def map_outcome_Done opt_strings_def)

lemma resolve_pg_total:
  "\<forall>s \<in> set (pg_strings p). resolvable env s \<Longrightarrow> \<exists>p'. resolve_pg env p = Done p'"
  by (simp add: resolve_pg_def walk.simps field_def resolvable_Done pg_strings_def)

lemma resolve_s3_total:
  "\<forall>s \<in> set (s3_strings p). resolvable env s \<Longrightarrow> \<exists>p'. resolve_s3 env p = Done p'"
  by (simp add: resolve_s3_def walk.simps field_def resolvable_Done s3_strings_def)

lemma resolve_os_total:
  assumes "\<forall>s \<in> set (os_strings p). resolvable env s"
  shows "\<exists>p'. resolve_os env p = Done p'"
proof -
  obtain a where "resolve_ptr (resolve_s3 env) (os_S3 p) = Done a"
    using ptr_total[of s3_strings env "resolve_s3 env" "os_S3 p", OF resolve_s3_total] assms by (auto simp: os_strings_def)
  moreover obtain b where "resolve_slice (resolve_string env) (os_FSPaths p) = Done b"
    using slice_strings_total[of "os_FSPaths p" env] assms by (auto simp: os_strings_def)
  ultimately show ?thesis
    using assms by (simp add: resolve_os_def walk.simps field_def resolvable_Done os_strings_def)
qed

lemma resolve_reg_total:
  assumes "\<forall>s \<in> set (reg_strings p). resolvable env s"
  shows "\<exists>p'. resolve_reg env p = Done p'"
proof -
  obtain a where "resolve_ptr (resolve_s3 env) (reg_S3 p) = Done a"
    using ptr_total[of s3_strings env "resolve_s3 env" "reg_S3 p", OF resolve_s3_total] assms by (auto simp: reg_strings_def)
  then show ?thesis
    using assms by (simp add: resolve_reg_def walk.simps field_def resolvable_Done reg_strings_def)
qed

lemma resolve_site_total:
  assumes "\<forall>s \<in> set (site_strings p). resolvable env s"
  shows "\<exists>p'. resolve_site env p = Done p'"
proof -
  obtain a where "resolve_pg env (site_Postgres p) = Done a"
    using resolve_pg_total[of "site_Postgres p" env] assms by (auto simp: site_strings_def)
  moreover obtain b where "resolve_os env (site_ObjectStore p) = Done b"
    using resolve_os_total[of "site_ObjectStore p" env] assms by (auto simp: site_strings_def)
  moreover obtain d where "resolve_ptr (resolve_reg env) (site_Registry p) = Done d"
    using ptr_total[of reg_strings env "resolve_reg env" "site_Registry p", OF resolve_reg_total] assms by (auto simp: site_strings_def)
  moreover obtain g where "resolve_git env (site_Git p) = Done g"
    using assms by (simp add: resolve_git_def walk.simps field_def resolvable_Done site_strings_def)
  ultimately show ?thesis
    using assms by (simp add: resolve_site_def walk.simps field_def resolvable_Done site_strings_def)
qed

lemma resolve_webhook_total:
  "\<forall>s \<in> set (opt_strings (\<lambda>w. [wh_Addr w, wh_SecretToken w]) x). resolvable env s \<Longrightarrow>
   \<exists>y. resolve_ptr (resolve_webhook env) x = Done y"
  by (erule ptr_total[rotated]) (simp add: resolve_webhook_def walk.simps field_def resolvable_Done)

lemma resolve_api_total:
  "\<forall>s \<in> set (opt_strings (\<lambda>a. [api_PrimaryToken a, api_SecondaryToken a]) x). resolvable env s \<Longrightarrow>
   \<exists>y. resolve_ptr (resolve_api env) x = Done y"
  by (erule ptr_total[rotated]) (simp add: resolve_api_def walk.simps field_def resolvable_Done)

text \<open>The failover section: everything hangs on its map of DNS options being empty.\<close>

definition dns_options :: "Config \<Rightarrow> (string \<times> string) list" where
  "dns_options c = (case Failover c of None \<Rightarrow> [] | Some f \<Rightarrow> fo_DNSConfig f)"

lemma resolve_failover_eq:
  assumes "\<forall>s \<in> set (fo_HealthCheckURLs f @ [fo_DNSPlugin f]). resolvable env s"
  shows "\<exists>f'. resolve_failover env f =
     (case resolve_map env (fo_DNSConfig f) of
        Done m \<Rightarrow> Done (f'\<lparr>fo_DNSConfig := m\<rparr>) | Failed e \<Rightarrow> Failed e | Panicked p \<Rightarrow> Panicked p)"
proof -
  obtain us where "resolve_slice (resolve_string env) (fo_HealthCheckURLs f) = Done us"
    using slice_strings_total[of "fo_HealthCheckURLs f" env] assms by auto
  then show ?thesis
    using assms
    by (auto simp: resolve_failover_def walk.simps field_def resolvable_Done split: outcome.splits)
qed

lemma resolve_map_cases:
  "resolve_map env m =
     (case m of [] \<Rightarrow> Done [] | (k, v) # _ \<Rightarrow>
        if resolvable env v then Panicked ''reflect: reflect.Value.SetString using unaddressable value''
        else Failed (projl (expandEnvString env v)))"
  by (auto simp: resolve_map_def resolve_string_def resolvable_def split: list.splits sum.splits)

lemma resolve_failover_ptr:
  assumes "\<forall>s \<in> set (opt_strings (\<lambda>f. fo_HealthCheckURLs f @ [fo_DNSPlugin f]) x). resolvable env s"
  shows "\<exists>y. resolve_ptr (resolve_failover env) x =
     (case (case x of None \<Rightarrow> [] | Some f \<Rightarrow> fo_DNSConfig f) of
        [] \<Rightarrow> Done y
      | (k, v) # _ \<Rightarrow>
          if resolvable env v then Panicked ''reflect: reflect.Value.SetString using unaddressable value''
          else Failed (projl (expandEnvString env v)))"
proof (cases x)
  case None
  then show ?thesis by (simp add: resolve_ptr_def)
next
  case (Some f)
  with assms have "\<forall>s \<in> set (fo_HealthCheckURLs f @ [fo_DNSPlugin f]). resolvable env s"
    by (simp add: opt_strings_def)
  from resolve_failover_eq[OF this] Some show ?thesis
    by (auto simp: resolve_ptr_def resolve_map_cases split: list.splits)
qed

lemma resolve_struct_outcome:
  assumes ok: "\<forall>s \<in> set (config_strings c). resolvable env s"
  shows "\<exists>c'. resolveEnvInStruct env c =
     (case dns_options c of
        [] \<Rightarrow> Done c'
      | (k, v) # _ \<Rightarrow>
          if resolvable env v then Panicked ''reflect: reflect.Value.SetString using unaddressable value''
          else Failed (projl (expandEnvString env v)))"
proof -
  obtain p where p: "resolve_site env (Primary c) = Done p"
    using resolve_site_total[of "Primary c" env] ok by (auto simp: config_strings_def)
  have "\<forall>s \<in> set (Secondaries c). \<exists>y. resolve_site env s = Done y"
    using ok by (auto simp: config_strings_def intro!: resolve_site_total)
  then obtain ss where ss: "resolve_slice (resolve_site env) (Secondaries c) = Done ss"
    using slice_total by blast
  obtain wh where wh: "resolve_ptr (resolve_webhook env) (Webhook c) = Done wh"
    using resolve_webhook_total[of "Webhook c" env] ok by (auto simp: config_strings_def)
  obtain ap where ap: "resolve_ptr (resolve_api env) (APIValidator c) = Done ap"
    using resolve_api_total[of "APIValidator c" env] ok by (auto simp: config_strings_def)
  obtain h where h: "resolve_ssh env (SSH c) = Done h"
    using ok by (simp add: resolve_ssh_def walk.simps field_def resolvable_Done config_strings_def)
  have "\<forall>s \<in> set (opt_strings (\<lambda>f. fo_HealthCheckURLs f @ [fo_DNSPlugin f]) (Failover c)). resolvable env s"
    using ok by (auto simp: config_strings_def)
  from resolve_failover_ptr[OF this] obtain y where
    "resolve_ptr (resolve_failover env) (Failover c) =
     (case dns_options c of
        [] \<Rightarrow> Done y
      | (k, v) # _ \<Rightarrow>
          if resolvable env v then Panicked ''reflect: reflect.Value.SetString using unaddressable value''
          else Failed (projl (expandEnvString env v)))"
    by (auto simp: dns_options_def)
  then show ?thesis
    using ok p ss wh ap h
    by (cases "dns_options c")
      (simp_all add: resolveEnvInStruct_def walk.simps field_def resolvable_Done config_strings_def
        split: prod.splits)
qed

section \<open>What the walk assigns\<close>

lemma resolve_struct_strings:
  assumes "resolveEnvInStruct env c = Done c'"
  shows "expands env (config_strings c) (config_strings c') \<and> Sync c' = Sync c \<and>
    length (Secondaries c') = length (Secondaries c)"
proof -
  have ssh: "resolve_ssh env h = Done h' \<Longrightarrow>
      expandEnvString env (KnownHostsFile h) = Inr (KnownHostsFile h') \<and>
      expandEnvString env (StrictHostKeyChecking h) = Inr (StrictHostKeyChecking h')" for h h'
    by (auto simp: resolve_ssh_def walk_Done)
  have wh: "resolve_webhook env x = Done y \<Longrightarrow>
      expands env [wh_Addr x, wh_SecretToken x] [wh_Addr y, wh_SecretToken y]" for x y
    by (auto simp: resolve_webhook_def walk_Done)
  have ap: "resolve_api env x = Done y \<Longrightarrow>
      expands env [api_PrimaryToken x, api_SecondaryToken x] [api_PrimaryToken y, api_SecondaryToken y]"
    for x y
    by (auto simp: resolve_api_def walk_Done)
  have fo: "resolve_failover env x = Done y \<Longrightarrow>
      expands env (fo_HealthCheckURLs x @ [fo_DNSPlugin x]) (fo_HealthCheckURLs y @ [fo_DNSPlugin y])"
    for x y
    by (auto simp: resolve_failover_def walk_Done resolve_slice_Done expands_def[symmetric]
        intro!: expands_append)
  show ?thesis
    using assms
    by (auto simp: resolveEnvInStruct_def walk_Done resolve_slice_Done config_strings_def
        dest!: ssh dest: resolve_site_strings list_all2_lengthD
        intro!: expands_append resolve_site_strings slice_strings[where sub = "resolve_site env"]
          ptr_strings[where sub = "resolve_webhook env"] wh
          ptr_strings[where sub = "resolve_api env"] ap
          ptr_strings[where sub = "resolve_failover env"] fo)
qed

section \<open>Expansion\<close>

lemma ExpandEnv_eq: "ExpandEnv env s = expandEnvString env s"
  by (simp add: ExpandEnv_def expandEnvString_def replaceEnv_plain)

text \<open>A string seen as literal text and references, and what expansion should make of it.\<close>

datatype piece = Lit string | Ref string

fun render :: "piece \<Rightarrow> string" where
  "render (Lit s) = s"
| "render (Ref n) = ''${'' @ n @ ''}''"

definition is_set :: "environment \<Rightarrow> string \<Rightarrow> bool" where
  "is_set env n \<longleftrightarrow> (case env n of None \<Rightarrow> False | Some v \<Rightarrow> v \<noteq> [])"

fun insertion :: "environment \<Rightarrow> piece \<Rightarrow> string" where
  "insertion env (Lit s) = s"
| "insertion env (Ref n) = (if is_set env n then the (env n) else ''${'' @ n @ ''}'')"

fun unset_refs :: "environment \<Rightarrow> piece list \<Rightarrow> string list" where
  "unset_refs env [] = []"
| "unset_refs env (Lit s # ps) = unset_refs env ps"
| "unset_refs env (Ref n # ps) = (if is_set env n then unset_refs env ps else n # unset_refs env ps)"

fun piece_ok :: "piece \<Rightarrow> bool" where
  "piece_ok (Lit s) \<longleftrightarrow> plain s"
| "piece_ok (Ref n) \<longleftrightarrow> var_name n"

lemma replaceEnv_pieces:
  "\<forall>p \<in> set ps. piece_ok p \<Longrightarrow>
   replaceEnv env (concat (map render ps)) = (concat (map (insertion env) ps), unset_refs env ps)"
proof (induction ps)
  case Nil
  then show ?case by simp
next
  case (Cons p ps)
  show ?case
  proof (cases p)
    case (Lit s)
    with Cons show ?thesis by (simp add: replaceEnv_append_plain)
  next
    case (Ref n)
    with Cons show ?thesis
      using replaceEnv_ref[of n env "concat (map render ps)"]
      by (auto simp: is_set_def split: option.splits list.splits)
  qed
qed

section \<open>Validation\<close>

definition valid_config :: "Config \<Rightarrow> bool" where
  "valid_config c \<longleftrightarrow>
     (let p = Primary c; g = site_Git p in
      site_Name p \<noteq> [] \<and> site_ExternalURL p \<noteq> [] \<and>
      pg_Host (site_Postgres p) \<noteq> [] \<and> pg_Port (site_Postgres p) \<noteq> 0 \<and>
      pg_ReplicationUser (site_Postgres p) \<noteq> [] \<and> pg_ReplicationPassword (site_Postgres p) \<noteq> [] \<and>
      (git_Mode g = ''rsync'' \<and> git_ReposPath g \<noteq> [] \<or> git_Mode g = ''fetch'') \<and>
      Secondaries c \<noteq> [] \<and> distinct (map site_Name (Secondaries c)) \<and>
      (\<forall>s \<in> set (Secondaries c). site_Name s \<noteq> [] \<and> pg_Host (site_Postgres s) \<noteq> [] \<and>
         pg_ReplicationPassword (site_Postgres s) \<noteq> []))"

lemma secondary_errors_iff:
  "secondary_errors i seen ss = [] \<longleftrightarrow>
     distinct (map site_Name ss) \<and> set (map site_Name ss) \<inter> seen = {} \<and>
     (\<forall>s \<in> set ss. site_Name s \<noteq> [] \<and> pg_Host (site_Postgres s) \<noteq> [] \<and>
        pg_ReplicationPassword (site_Postgres s) \<noteq> [])"
  by (induction ss arbitrary: i seen) auto

text \<open>The values \<open>validate\<close> leaves set, whatever the file said.\<close>

definition defaults_filled :: "Config \<Rightarrow> bool" where
  "defaults_filled c \<longleftrightarrow>
     sync_SweepInterval (Sync c) \<noteq> 0 \<and> sync_LagWarningThreshold (Sync c) \<noteq> 0 \<and>
     sync_LagCriticalThreshold (Sync c) \<noteq> 0 \<and> sync_ConsistencySamplePct (Sync c) \<noteq> 0 \<and>
     Metrics_Addr c \<noteq> [] \<and> Log_Level c \<noteq> [] \<and> Log_Format c \<noteq> [] \<and> ControlDB c \<noteq> [] \<and>
     (\<forall>f. Failover c = Some f \<longrightarrow>
        fo_HealthCheckInterval f \<noteq> 0 \<and> fo_QuorumRequired f \<noteq> 0 \<and> fo_DNSPlugin f \<noteq> [])"

lemma default_pct_ne: "f64_round (1 / 100) \<noteq> 0"
  by code_simp

lemma sync_defaults_filled:
  "sync_SweepInterval (sync_defaults s) \<noteq> 0" "sync_LagWarningThreshold (sync_defaults s) \<noteq> 0"
  "sync_LagCriticalThreshold (sync_defaults s) \<noteq> 0" "sync_ConsistencySamplePct (sync_defaults s) \<noteq> 0"
  using default_pct_ne by (simp_all add: sync_defaults_def second_ns_def)

lemma failover_defaults_filled:
  "fo_HealthCheckInterval (failover_defaults f) \<noteq> 0" "fo_QuorumRequired (failover_defaults f) \<noteq> 0"
  "fo_DNSPlugin (failover_defaults f) \<noteq> []"
  by (simp_all add: failover_defaults_def second_ns_def)

lemma config_defaults_filled: "defaults_filled (config_defaults c)"
  by (cases "Failover c")
    (simp_all add: defaults_filled_def config_defaults_def sync_defaults_filled failover_defaults_filled)

lemma config_defaults_id: "defaults_filled c \<Longrightarrow> config_defaults c = c"
  by (cases "Failover c")
    (simp_all add: defaults_filled_def config_defaults_def sync_defaults_def failover_defaults_def)

lemma config_defaults_sites [simp]:
  "Primary (config_defaults c) = Primary c" "Secondaries (config_defaults c) = Secondaries c"
  by (simp_all add: config_defaults_def)

lemma valid_config_defaults [simp]: "valid_config (config_defaults c) = valid_config c"
  by (simp add: valid_config_def)

lemma validate_errors_iff: "fst (validate c) = [] \<longleftrightarrow> valid_config c"
  by (auto simp: validate_def primary_errors_def valid_config_def Let_def secondary_errors_iff)

lemma validate_again: "validate (snd (validate c)) = validate c"
  by (simp add: validate_def primary_errors_def config_defaults_id config_defaults_filled)

section \<open>Sample configuration for the witnesses\<close>

definition sample_pg :: PostgresConfig where
  "sample_pg =
     \<lparr>pg_Host = ''10.0.0.10'', pg_Port = 5432, pg_DB = ''gitlabhq_production'', pg_User = ''gitlab'',
      pg_Password = ''${PG_CTRL_PASSWORD}'', pg_ReplicationUser = ''gitlab_repl'',
      pg_ReplicationPassword = ''${PG_REPL_PASSWORD}'', pg_SlotName = ''gitlab_geo_sync'',
      pg_SSLMode = ''require'', pg_SSLRootCert = [], pg_SSLCert = [], pg_SSLKey = []\<rparr>"

definition sample_site :: "string \<Rightarrow> SiteConfig" where
  "sample_site n =
     \<lparr>site_Name = n, site_ExternalURL = ''https://'' @ n, site_Postgres = sample_pg,
      site_Git = \<lparr>git_Mode = ''fetch'', git_ReposPath = ''/var/repos'', git_HashedStorage = True\<rparr>,
      site_ObjectStore = \<lparr>os_Backend = ''fs'', os_S3 = None, os_FSPaths = [''/var/opt/gitlab/uploads'']\<rparr>,
      site_Registry = None, site_SSHHost = n @ '':22''\<rparr>"

definition sample_config :: Config where
  "sample_config =
     \<lparr>Primary = sample_site ''eu'', Secondaries = [sample_site ''us''],
      Sync = \<lparr>sync_SweepInterval = 0, sync_LagWarningThreshold = 0, sync_LagCriticalThreshold = 0,
              sync_FailoverEnabled = True, sync_ReadOnlySecondary = False, sync_ConsistencySamplePct = 0\<rparr>,
      Metrics_Addr = [], Log_Level = [], Log_Format = [], ControlDB = [], Webhook = None,
      APIValidator = None, Failover = None,
      SSH = \<lparr>KnownHostsFile = ''/etc/geoctl/known_hosts'', StrictHostKeyChecking = []\<rparr>\<rparr>"

definition sample_env :: environment where
  "sample_env =
     (\<lambda>_. None)(''PG_CTRL_PASSWORD'' := Some ''ctrl'', ''PG_REPL_PASSWORD'' := Some ''a: ${B}'')"

section \<open>Where the walk can panic\<close>

definition never_panics :: "('a \<Rightarrow> 'a outcome) \<Rightarrow> bool" where
  "never_panics f \<longleftrightarrow> (\<forall>x p. f x \<noteq> Panicked p)"

lemma map_outcome_Panicked [simp]: "map_outcome f x = Panicked p \<longleftrightarrow> x = Panicked p"
  by (cases x) auto

lemma never_panics_parts:
  "never_panics (resolve_string env)"
  "never_panics f \<Longrightarrow> never_panics (resolve_ptr f)"
  "never_panics f \<Longrightarrow> never_panics (field f get upd)"
  by (auto simp: never_panics_def resolve_string_not_panic resolve_ptr_def field_def split: option.splits)

lemma never_panics_slice: "never_panics f \<Longrightarrow> never_panics (resolve_slice f)"
  unfolding never_panics_def
proof (intro allI)
  fix xs p
  assume "\<forall>x p. f x \<noteq> Panicked p"
  then show "resolve_slice f xs \<noteq> Panicked p" by (induction xs) (auto split: outcome.splits)
qed

lemma never_panics_walk: "list_all never_panics fs \<Longrightarrow> never_panics (walk fs)"
  unfolding never_panics_def
proof (intro allI)
  fix x p
  assume "list_all (\<lambda>f. \<forall>x p. f x \<noteq> Panicked p) fs"
  then show "walk fs x \<noteq> Panicked p"
    by (induction fs arbitrary: x) (auto simp: walk.simps split: outcome.splits)
qed

lemma sections_never_panic:
  "never_panics (resolve_site env)" "never_panics (resolve_webhook env)" "never_panics (resolve_api env)"
  "never_panics (resolve_ssh env)"
proof -
  have pg: "never_panics (resolve_pg env)" "never_panics (resolve_git env)" "never_panics (resolve_s3 env)"
    unfolding resolve_pg_def resolve_git_def resolve_s3_def
    by (rule never_panics_walk, simp add: never_panics_parts)+
  have os: "never_panics (resolve_os env)" "never_panics (resolve_reg env)"
    unfolding resolve_os_def resolve_reg_def
    by (rule never_panics_walk, simp add: never_panics_parts never_panics_slice pg)+
  show "never_panics (resolve_site env)" "never_panics (resolve_webhook env)" "never_panics (resolve_api env)"
    "never_panics (resolve_ssh env)"
    unfolding resolve_site_def resolve_webhook_def resolve_api_def resolve_ssh_def
    by (rule never_panics_walk, simp add: never_panics_parts pg os)+
qed

lemma walk_append:
  "walk (fs @ gs) r = (case walk fs r of Done r' \<Rightarrow> walk gs r' | Failed e \<Rightarrow> Failed e | Panicked p \<Rightarrow> Panicked p)"
  by (induction fs arbitrary: r) (auto simp: walk.simps split: outcome.splits)

lemma failover_panics: "resolve_failover env f = Panicked p \<Longrightarrow> fo_DNSConfig f \<noteq> []"
  using never_panics_slice[OF never_panics_parts(1), of env]
  by (auto simp: resolve_failover_def walk.simps walk_Done field_def map_outcome_Done never_panics_def
      resolve_string_not_panic resolve_map_def split: outcome.splits)

lemma struct_panics:
  assumes "resolveEnvInStruct env c = Panicked p"
  shows "dns_options c \<noteq> []"
proof
  assume d: "dns_options c = []"
  let ?pre = "[field (resolve_site env) Primary Primary_update,
       field (resolve_slice (resolve_site env)) Secondaries Secondaries_update,
       strf env Metrics_Addr Metrics_Addr_update,
       strf env Log_Level Log_Level_update, strf env Log_Format Log_Format_update,
       strf env ControlDB ControlDB_update,
       field (resolve_ptr (resolve_webhook env)) Webhook Webhook_update,
       field (resolve_ptr (resolve_api env)) APIValidator APIValidator_update]"
  let ?f = "field (resolve_ptr (resolve_failover env)) Failover Failover_update"
  let ?s = "field (resolve_ssh env) SSH SSH_update"
  have pre: "never_panics (walk ?pre)"
    by (rule never_panics_walk) (simp add: never_panics_parts never_panics_slice sections_never_panic)
  have same: "Failover r = Failover c" if "walk ?pre c = Done r" for r
    using that by (auto simp: walk_Done)
  have f: "?f r \<noteq> Panicked q" if "Failover r = Failover c" for r q
    using d that failover_panics[of env] by (auto simp: field_def resolve_ptr_def dns_options_def split: option.splits)
  have s: "never_panics ?s" by (simp add: never_panics_parts sections_never_panic)
  have "resolveEnvInStruct env c = walk (?pre @ [?f, ?s]) c" unfolding resolveEnvInStruct_def by simp
  then have P: "walk (?pre @ [?f, ?s]) c = Panicked p" using assms by simp
  show False
  proof (cases "walk ?pre c")
    case (Done r)
    then show False
      using P f[OF same[OF Done]] s unfolding walk_append Done
      by (auto simp: never_panics_def walk.simps simp del: append.simps split: outcome.splits)
  next
    case (Failed e)
    then show False using P unfolding walk_append Failed by simp
  next
    case (Panicked q)
    then show False using pre unfolding never_panics_def by blast
  qed
qed

lemma Load_panics:
  assumes "Load read_file yaml env path = Panicked p"
  shows "\<exists>raw c. read_file path = Inr raw \<and> yaml raw = Inr c \<and> dns_options c \<noteq> []"
  using assms struct_panics by (auto simp: Load_def split: sum.splits outcome.splits prod.splits if_splits)

section \<open>Properties\<close>

text \<open>Environment values are inserted verbatim. A string made of literal text and references
  expands to the same text with every reference replaced by the variable's value, which is not
  looked at again (a value may itself hold a reference or YAML syntax); if any variable is unset
  or empty the expansion fails and names exactly those, in order.\<close>

lemma expansion_is_verbatim:
  assumes "\<forall>p \<in> set ps. piece_ok p"
  shows "expandEnvString env (concat (map render ps)) =
    (if unset_refs env ps = [] then Inr (concat (map (insertion env) ps))
     else Inl (missing_msg (unset_refs env ps)))"
  using replaceEnv_pieces[OF assms, of env]
  by (simp add: ExpandEnv_eq[symmetric] ExpandEnv_def)

lemma expansion_is_verbatim_witness:
  "expandEnvString sample_env ''pw=${PG_REPL_PASSWORD};'' = Inr ''pw=a: ${B};''"
proof -
  have "\<forall>p \<in> set [Lit ''pw='', Ref ''PG_REPL_PASSWORD'', Lit '';'']. piece_ok p" by code_simp
  from expansion_is_verbatim[OF this, of sample_env] show ?thesis
    by (simp add: is_set_def sample_env_def)
qed


text \<open>Which configurations the walk gets through: if every string resolves, it succeeds exactly
  when the failover section sets no DNS options; with any DNS option it panics on the first map
  entry whose value resolves, since a map element cannot be assigned through reflection.\<close>

lemma walk_succeeds_iff_no_dns_options:
  assumes "\<forall>s \<in> set (config_strings c) \<union> snd ` set (dns_options c). resolvable env s"
  shows "if dns_options c = [] then \<exists>c'. resolveEnvInStruct env c = Done c'
         else \<exists>p. resolveEnvInStruct env c = Panicked p"
proof (cases "dns_options c")
  case Nil
  then show ?thesis using resolve_struct_outcome[of c env] assms by auto
next
  case (Cons kv m)
  then show ?thesis
    using resolve_struct_outcome[of c env] assms by (cases kv) auto
qed

lemma walk_succeeds_iff_no_dns_options_witness:
  "\<exists>p. resolveEnvInStruct sample_env
     (sample_config\<lparr>Failover := Some \<lparr>fo_HealthCheckURLs = [], fo_HealthCheckInterval = 0,
        fo_QuorumRequired = 0, fo_DNSPlugin = ''route53'', fo_DNSConfig = [(''zone_id'', ''Z123'')],
        fo_AutoFailover = False\<rparr>\<rparr>) = Panicked p"
  (is "\<exists>p. resolveEnvInStruct _ ?c = Panicked p")
proof -
  have "\<forall>s \<in> set (config_strings ?c) \<union> snd ` set (dns_options ?c). resolvable sample_env s"
    by code_simp
  moreover have "dns_options ?c \<noteq> []"
    by (simp add: dns_options_def)
  ultimately show ?thesis
    using walk_succeeds_iff_no_dns_options[of ?c sample_env] by simp
qed





text \<open>
  The package comment says literal secrets are rejected. They are not: a string without a
  reference resolves to itself, whatever field it is in.
\<close>

lemma literal_secret_accepted: "\<not> str_contains s ''${'' \<Longrightarrow> resolve_string env s = Done s"
  by (simp add: resolve_string_def expandEnvString_def)

end
