(* ===== verification/Readonly.thy ===== *)
theory Readonly
  imports Sshexec
begin

text \<open>
  \<open>internal/readonly/readonly.go\<close>: entering and leaving read-only mode on a site, three remote
  commands each, stopped at the first failure; a dry run prints and sends nothing.
\<close>

section \<open>Commands\<close>

abbreviation squote :: string where
  "squote \<equiv> [CHR 0x27]"

definition enable_cmds :: "string list" where
  "enable_cmds =
     [''sudo gitlab-ctl deploy-registry-readonly start'',
      ''sudo gitlab-ctl sidekiq pause'',
      ''sudo gitlab-rails runner '' @ squote @
        ''ApplicationSetting.current.update!(repository_storages: [])'' @ squote @
        '' 2>/dev/null || true'']"

definition disable_cmds :: "string list" where
  "disable_cmds =
     [''sudo gitlab-ctl deploy-registry-readonly stop'',
      ''sudo gitlab-ctl sidekiq resume'',
      ''sudo gitlab-rails runner '' @ squote @
        ''ApplicationSetting.current.update!(repository_storages: nil)'' @ squote @
        '' 2>/dev/null || true'']"

definition runSSH :: "string \<Rightarrow> bool \<Rightarrow> ssh_config \<Rightarrow> string \<Rightarrow> step" where
  "runSSH sshHost dryRun sshCfg cmd w =
     (case CheckHost sshHost of
        Some e \<Rightarrow> (Some e, w)
      | None \<Rightarrow>
          if dryRun then (None, emit (Printed (''[dry-run] ssh '' @ cmd)) w)
          else (case CombinedOutput sshCfg sshHost cmd w of
                  ((out, Some e), w') \<Rightarrow> (Some (''ssh '' @ sshHost @ '': '' @ e @ '': '' @ out), w')
                | ((out, None), w') \<Rightarrow> (None, w')))"

definition EnableWithConfig :: "string \<Rightarrow> bool \<Rightarrow> ssh_config \<Rightarrow> step" where
  "EnableWithConfig sshHost dryRun sshCfg =
     run_steps (map (runSSH sshHost dryRun sshCfg) enable_cmds)"

definition DisableWithConfig :: "string \<Rightarrow> bool \<Rightarrow> ssh_config \<Rightarrow> step" where
  "DisableWithConfig sshHost dryRun sshCfg =
     run_steps (map (runSSH sshHost dryRun sshCfg) disable_cmds)"

definition Enable :: "string \<Rightarrow> bool \<Rightarrow> step" where
  "Enable sshHost dryRun = EnableWithConfig sshHost dryRun ssh_Default"

definition Disable :: "string \<Rightarrow> bool \<Rightarrow> step" where
  "Disable sshHost dryRun = DisableWithConfig sshHost dryRun ssh_Default"

section \<open>Lemmas\<close>

lemma runSSH_unconfigured: "runSSH [] dry cfg cmd w = (Some ''ssh_host not configured'', w)"
  by (simp add: runSSH_def CheckHost_def)

lemma runSSH_dry: "h \<noteq> [] \<Longrightarrow> runSSH h True cfg cmd w = (None, emit (Printed (''[dry-run] ssh '' @ cmd)) w)"
  by (simp add: runSSH_def CheckHost_def)

lemma runSSH_real: "h \<noteq> [] \<Longrightarrow> snd (runSSH h False cfg cmd w) = emit (ssh_event cfg h cmd) w"
  by (simp add: runSSH_def CheckHost_def CombinedOutput_eq split: prod.splits option.splits)

lemma runSSH_extends [extends_intros]: "extends w (snd (runSSH h dry cfg cmd w))"
  by (cases "h = []"; cases dry) (simp_all add: runSSH_unconfigured runSSH_dry runSSH_real)

lemma readonly_extends [extends_intros]:
  "extends w (snd (EnableWithConfig h dry cfg w))"
  "extends w (snd (DisableWithConfig h dry cfg w))"
  by (auto simp: EnableWithConfig_def DisableWithConfig_def intro!: run_steps_extends runSSH_extends)

text \<open>Running a list of remote commands: all of them on success, a non-empty prefix otherwise.\<close>

lemmas ssh_cmds_trace =
  run_steps_trace[where g = "runSSH h False cfg" and f = "ssh_event cfg h" for h cfg, OF runSSH_real]

lemma runSSH_dry_silent: "silent (runSSH h True cfg cmd)"
  by (cases "h = []") (auto simp: silent_def runSSH_unconfigured runSSH_dry)

lemma readonly_dry_silent:
  "silent (EnableWithConfig h True cfg)" "silent (DisableWithConfig h True cfg)"
  by (auto simp: EnableWithConfig_def DisableWithConfig_def intro!: run_steps_silent runSSH_dry_silent)

lemma runSSH_observes: "observes w (snd (runSSH h dry cfg cmd w))"
  by (cases "h = []"; cases dry) (simp_all add: runSSH_unconfigured runSSH_dry runSSH_real observes_emits)

lemma readonly_observes:
  "observes w (snd (EnableWithConfig h dry cfg w))" "observes w (snd (DisableWithConfig h dry cfg w))"
  by (auto simp: EnableWithConfig_def DisableWithConfig_def intro!: run_steps_observes runSSH_observes)

end
