(* ===== verification/Dbkey.thy ===== *)
theory Dbkey
  imports Readonly
begin

text \<open>
  \<open>internal/dbkey/dbkey.go\<close>: parity of the Rails key between two sites. The two regular
  expressions are matchers on byte strings: the first is anchored at the start of the output,
  the second is searched for leftmost.
\<close>

section \<open>The regular expressions\<close>

definition key_char :: "char \<Rightarrow> bool" where
  "key_char c \<longleftrightarrow> is_alnum c \<or> c = CHR ''_'' \<or> c = CHR ''-''"

definition skip_space :: "string \<Rightarrow> string" where
  "skip_space s = dropWhile re_space s"

definition opt_quote :: "string \<Rightarrow> string" where
  "opt_quote s = (case s of [] \<Rightarrow> [] | c # t \<Rightarrow> if c = CHR 0x27 \<or> c = CHR 0x22 then t else s)"

text \<open>An optional quote and a non-empty run of key characters: the submatch both expressions end in.\<close>

definition key_at :: "string \<Rightarrow> string option" where
  "key_at s = (let k = takeWhile key_char (opt_quote s) in if k = [] then None else Some k)"

definition dbKeyRe :: "string \<Rightarrow> string option" where
  "dbKeyRe s =
     (let lit = ''gitlab_rails['' @ squote @ ''db_key_base'' @ squote @ '']'';
          s1 = skip_space s
      in if has_prefix s1 lit
         then (case skip_space (drop (length lit) s1) of
                 [] \<Rightarrow> None
               | c # s2 \<Rightarrow> if c = CHR ''='' then key_at (skip_space s2) else None)
         else None)"

definition yamlRe_at :: "string \<Rightarrow> string option" where
  "yamlRe_at s =
     (if has_prefix s ''db_key_base:'' then key_at (skip_space (drop 12 s)) else None)"

fun yamlRe :: "string \<Rightarrow> string option" where
  "yamlRe [] = yamlRe_at []"
| "yamlRe (c # s) = (case yamlRe_at (c # s) of Some k \<Rightarrow> Some k | None \<Rightarrow> yamlRe s)"

section \<open>Fetching and comparing\<close>

definition fetch_cmd :: "bool \<Rightarrow> string" where
  "fetch_cmd withSudo =
     (let cmd = ''grep '' @ squote @ ''db_key_base'' @ squote @
                '' /var/opt/gitlab/gitlab-rails/etc/secrets.yml 2>/dev/null || grep '' @
                [CHR 0x22] @ ''gitlab_rails'' @ [CHR 0x5C] @ ''['' @ squote @ ''db_key_base'' @
                squote @ [CHR 0x5C] @ '']'' @ [CHR 0x22] @
                '' /etc/gitlab/gitlab.rb 2>/dev/null || true''
      in if withSudo
         then ''sudo grep '' @ squote @ ''db_key_base'' @ squote @
              '' /var/opt/gitlab/gitlab-rails/etc/secrets.yml 2>/dev/null || '' @ cmd
         else cmd)"

definition tryFetchKey :: "ssh_run \<Rightarrow> string \<Rightarrow> bool \<Rightarrow> world \<Rightarrow> (string + string) \<times> world" where
  "tryFetchKey run sshHost withSudo w =
     (case run sshHost (fetch_cmd withSudo) w of
        ((out, Some e), w') \<Rightarrow> (Inl e, w')
      | ((out, None), w') \<Rightarrow> (Inr out, w'))"

definition extractKey :: "string \<Rightarrow> string \<Rightarrow> string + string" where
  "extractKey sshHost out =
     (case (case dbKeyRe out of Some k \<Rightarrow> Some k | None \<Rightarrow> yamlRe out) of
        Some k \<Rightarrow> Inr (trim_space k)
      | None \<Rightarrow> Inl (''db_key_base not found in secrets.yml or gitlab.rb on '' @ sshHost))"

definition fetchKey :: "ssh_run \<Rightarrow> string \<Rightarrow> world \<Rightarrow> (string + string) \<times> world" where
  "fetchKey run sshHost w =
     (case CheckHost sshHost of
        Some e \<Rightarrow> (Inl e, w)
      | None \<Rightarrow>
        (case tryFetchKey run sshHost True w of
           (Inr key, w1) \<Rightarrow> (extractKey sshHost key, w1)
         | (Inl e, w1) \<Rightarrow>
             (case ctxErr w1 of
                Some ce \<Rightarrow> (Inl ce, w1)
              | None \<Rightarrow>
                (case tryFetchKey run sshHost False w1 of
                   (Inr key, w2) \<Rightarrow> (extractKey sshHost key, w2)
                 | (Inl e', w2) \<Rightarrow> (Inl (''ssh '' @ sshHost @ '': '' @ e'), w2)))))"

definition mismatch_msg :: string where
  "mismatch_msg =
     ''db_key_base mismatch: primary and secondary keys differ (update the secondary'' @ squote @
     ''s /etc/gitlab/gitlab.rb and run `gitlab-ctl reconfigure`)''"

definition CheckWithRunner :: "string \<Rightarrow> string \<Rightarrow> ssh_run \<Rightarrow> step" where
  "CheckWithRunner primarySSH secondarySSH run w =
     (case fetchKey run primarySSH w of
        (Inl e, w1) \<Rightarrow> (Some (''primary db_key_base: '' @ e), w1)
      | (Inr pKey, w1) \<Rightarrow>
        (case fetchKey run secondarySSH w1 of
           (Inl e, w2) \<Rightarrow> (Some (''secondary db_key_base: '' @ e), w2)
         | (Inr sKey, w2) \<Rightarrow> (if pKey \<noteq> sKey then Some mismatch_msg else None, w2)))"

definition CheckWithConfig :: "string \<Rightarrow> string \<Rightarrow> ssh_config \<Rightarrow> step" where
  "CheckWithConfig primarySSH secondarySSH sshCfg =
     CheckWithRunner primarySSH secondarySSH (CombinedOutput sshCfg)"

definition dbkey_Check :: "string \<Rightarrow> string \<Rightarrow> step" where
  "dbkey_Check primarySSH secondarySSH = CheckWithRunner primarySSH secondarySSH (CombinedOutput ssh_Default)"

section \<open>Extraction\<close>

lemma space_runes_not_key:
  "\<forall>p \<in> set (space_runes @ map rev space_runes). p \<noteq> [] \<and> \<not> key_char (hd p)"
  by code_simp

lemma strip_key_chars:
  assumes "set ps \<subseteq> set (space_runes @ map rev space_runes)" and "\<forall>c \<in> set k. key_char c"
  shows "strip_any ps k = k"
proof (rule strip_any_none)
  have "\<not> has_prefix k p" if "p \<in> set ps" for p
  proof -
    have p: "p \<noteq> []" "\<not> key_char (hd p)"
      using that assms(1) space_runes_not_key by blast+
    then show ?thesis
      using assms(2) by (cases p) auto
  qed
  then show "find (\<lambda>p. p \<noteq> [] \<and> has_prefix k p) ps = None"
    by (auto simp: find_None_iff)
qed

lemma trim_key: "\<forall>c \<in> set k. key_char c \<Longrightarrow> trim_space k = k"
  by (simp add: trim_space_def strip_key_chars)

lemma key_at_chars: "key_at s = Some k \<Longrightarrow> k \<noteq> [] \<and> (\<forall>c \<in> set k. key_char c)"
  by (auto simp: key_at_def Let_def dest: set_takeWhileD split: if_splits)

lemma dbKeyRe_chars: "dbKeyRe s = Some k \<Longrightarrow> k \<noteq> [] \<and> (\<forall>c \<in> set k. key_char c)"
  by (auto simp: dbKeyRe_def Let_def dest: key_at_chars split: if_splits list.splits)

lemma yamlRe_chars: "yamlRe s = Some k \<Longrightarrow> k \<noteq> [] \<and> (\<forall>c \<in> set k. key_char c)"
  by (induction s) (auto simp: yamlRe_at_def dest: key_at_chars split: if_splits option.splits)

lemma extractKey_chars:
  "extractKey h out = Inr k \<Longrightarrow> k \<noteq> [] \<and> (\<forall>c \<in> set k. key_char c)"
  by (auto simp: extractKey_def trim_key dest!: dbKeyRe_chars yamlRe_chars split: option.splits)

text \<open>What follows a key in a line: nothing, or a character outside the key alphabet.\<close>

definition key_ends :: "string \<Rightarrow> bool" where
  "key_ends rest \<longleftrightarrow> rest = [] \<or> \<not> key_char (hd rest)"

lemma key_at_read:
  assumes "k \<noteq> []" "\<forall>c \<in> set k. key_char c" "q \<in> {[], [CHR 0x27], [CHR 0x22]}" "key_ends rest"
  shows "key_at (q @ k @ rest) = Some k"
proof -
  obtain c k' where k: "k = c # k'" using assms(1) by (cases k) auto
  have "key_char c" using assms(2) k by simp
  then have c: "c \<noteq> CHR 0x27" "c \<noteq> CHR 0x22" by (auto simp: key_char_def char_class_defs)
  have "opt_quote (q @ k @ rest) = k @ rest"
    using assms(3) c k by (auto simp: opt_quote_def)
  moreover have "takeWhile key_char (k @ rest) = k"
    using assms(2,4) by (cases rest) (auto simp: key_ends_def takeWhile_append2)
  ultimately show ?thesis
    using assms(1) by (simp add: key_at_def)
qed

lemma skip_space_read:
  "\<forall>c \<in> set ws. re_space c \<Longrightarrow> s = [] \<or> \<not> re_space (hd s) \<Longrightarrow> skip_space (ws @ s) = s"
  by (cases s) (auto simp: skip_space_def dropWhile_append2)

lemma skip_space_quoted:
  assumes "k \<noteq> []" "\<forall>c \<in> set k. key_char c" "q \<in> {[], [CHR 0x27], [CHR 0x22]}"
    "\<forall>c \<in> set ws. re_space c"
  shows "skip_space (ws @ q @ k @ rest) = q @ k @ rest"
proof (rule skip_space_read[OF assms(4)])
  obtain c k' where k: "k = c # k'" using assms(1) by (cases k) auto
  have "key_char c" using assms(2) k by simp
  then have "\<not> re_space c" by (auto simp: key_char_def char_class_defs)
  then show "q @ k @ rest = [] \<or> \<not> re_space (hd (q @ k @ rest))"
    using assms(3) k by (auto simp: re_space_def)
qed

lemma yamlRe_skip:
  assumes "lit = ''db_key_base:''" and "yamlRe_at (lit @ s) = Some k"
  shows "\<not> str_contains (pre @ butlast lit) lit \<Longrightarrow> yamlRe (pre @ lit @ s) = Some k"
proof (induction pre)
  case Nil
  have "lit @ s = hd lit # tl lit @ s" using assms(1) by simp
  then show ?case using assms(2) by (metis append_Nil option.simps(5) yamlRe.simps(2))
next
  case (Cons c pre)
  have "\<not> has_prefix ((c # pre) @ lit @ s) lit"
  proof
    assume p: "has_prefix ((c # pre) @ lit @ s) lit"
    have "lit @ s = butlast lit @ last lit # s" using assms(1) by simp
    then have "(c # pre) @ lit @ s = (c # pre @ butlast lit) @ last lit # s" by simp
    with p have "has_prefix (c # pre @ butlast lit) lit"
      using has_prefix_shorter[of "c # pre @ butlast lit" "last lit # s" lit] assms(1) by simp
    with Cons.prems show False by (simp del: has_prefix_Cons)
  qed
  then have "yamlRe_at (c # pre @ lit @ s) = None"
    using assms(1) by (simp add: yamlRe_at_def del: has_prefix_Cons)
  moreover have "\<not> str_contains (pre @ butlast lit) lit"
    using Cons.prems by simp
  ultimately show ?case using Cons.IH by simp
qed

section \<open>What a check sends and says\<close>

context ssh_runner
begin

lemma tryFetchKey_world: "snd (tryFetchKey run h b w) = emit (sent h (fetch_cmd b)) w"
  using run_emits[of h "fetch_cmd b" w]
  by (auto simp: tryFetchKey_def split: prod.splits option.splits)

lemma tryFetchKey_cases:
  obtains r where "tryFetchKey run h b w = (r, emit (sent h (fetch_cmd b)) w)"
  using tryFetchKey_world by (metis prod.collapse)

lemma fetchKey_events:
  "extends w (snd (fetchKey run h w)) \<and>
   set (added w (snd (fetchKey run h w))) \<subseteq> {sent h (fetch_cmd True), sent h (fetch_cmd False)} \<and>
   length (added w (snd (fetchKey run h w))) \<le> 2"
proof -
  obtain r where r: "tryFetchKey run h True w = (r, emit (sent h (fetch_cmd True)) w)"
    by (rule tryFetchKey_cases)
  let ?w1 = "emit (sent h (fetch_cmd True)) w"
  obtain r' where r': "tryFetchKey run h False ?w1 = (r', emit (sent h (fetch_cmd False)) ?w1)"
    by (rule tryFetchKey_cases)
  show ?thesis
    using r r'
    by (auto simp: fetchKey_def added_emitI extends_emitI split: option.splits sum.splits)
qed

lemma fetchKey_key:
  "fetchKey run h w = (Inr k, w') \<Longrightarrow> h \<noteq> [] \<and> k \<noteq> [] \<and> (\<forall>c \<in> set k. key_char c)"
  by (auto simp: fetchKey_def CheckHost_def dest: extractKey_chars
      split: if_splits option.splits sum.splits prod.splits)

end

lemmas fetch_real = real_ssh.fetchKey_events real_ssh.fetchKey_key

lemma CheckWithRunner_events:
  assumes "CheckWithRunner p s (CombinedOutput cfg) w = (r, w')"
  shows "extends w w' \<and>
    set (added w w') \<subseteq> {ssh_event cfg h (fetch_cmd b) |h b. h \<in> {p, s}} \<and>
    length (added w w') \<le> 4"
proof -
  obtain rp w1 where p: "fetchKey (CombinedOutput cfg) p w = (rp, w1)" by fastforce
  obtain rs w2 where s: "fetchKey (CombinedOutput cfg) s w1 = (rs, w2)" by fastforce
  have 1: "extends w w1" "set (added w w1) \<subseteq> {ssh_event cfg p (fetch_cmd True), ssh_event cfg p (fetch_cmd False)}"
    "length (added w w1) \<le> 2"
    using real_ssh.fetchKey_events[where c = cfg and h = p and w = w] p by auto
  have 2: "extends w1 w2" "set (added w1 w2) \<subseteq> {ssh_event cfg s (fetch_cmd True), ssh_event cfg s (fetch_cmd False)}"
    "length (added w1 w2) \<le> 2"
    using real_ssh.fetchKey_events[where c = cfg and h = s and w = w1] s by auto
  let ?E = "{ssh_event cfg h (fetch_cmd b) |h b. h \<in> {p, s}}"
  have "ssh_event cfg h (fetch_cmd b) \<in> ?E" if "h \<in> {p, s}" for h b
    using that by blast
  then have E: "set (added w w1) \<subseteq> ?E" "set (added w1 w2) \<subseteq> ?E"
    using 1(2) 2(2) by (meson empty_subsetI insert_subset insertI1 insertI2 subset_trans)+
  have "w' = w1 \<or> w' = w2"
    using assms p s by (auto simp: CheckWithRunner_def split: sum.splits if_splits)
  then show ?thesis
  proof
    assume "w' = w1"
    then show ?thesis using 1 E by simp
  next
    assume "w' = w2"
    then show ?thesis
      using 1 2 E added_trans[OF 1(1) 2(1)] extends_trans[OF 1(1) 2(1)] by simp
  qed
qed

text \<open>
  Two worlds that answer alike but for the key material: the same errors, the same cancellation,
  and a key to be found in the same places.
\<close>

definition key_blind :: "world \<Rightarrow> world \<Rightarrow> bool" where
  "key_blind w1 w2 \<longleftrightarrow>
     trace w1 = trace w2 \<and> ctx_err w1 = ctx_err w2 \<and>
     (\<forall>tr p a n. snd (cmd_reply w1 tr p a n) = snd (cmd_reply w2 tr p a n) \<and>
        (\<forall>h. isl (extractKey h (fst (cmd_reply w1 tr p a n))) \<longleftrightarrow>
             isl (extractKey h (fst (cmd_reply w2 tr p a n)))))"

lemma key_blind_emit: "key_blind w1 w2 \<Longrightarrow> key_blind (emit e w1) (emit e w2)"
  by (simp add: key_blind_def)

lemma key_blind_ctx: "key_blind w1 w2 \<Longrightarrow> ctxErr w1 = ctxErr w2"
  by (simp add: key_blind_def ctxErr_def)

lemma extractKey_Inl: "extractKey h out = Inl e \<Longrightarrow> e = ''db_key_base not found in secrets.yml or gitlab.rb on '' @ h"
  by (auto simp: extractKey_def split: option.splits)

definition same_verdict :: "string + string \<Rightarrow> string + string \<Rightarrow> bool" where
  "same_verdict r1 r2 \<longleftrightarrow> (case (r1, r2) of (Inl e1, Inl e2) \<Rightarrow> e1 = e2 | (Inr _, Inr _) \<Rightarrow> True | _ \<Rightarrow> False)"

lemma tryFetchKey_blind:
  assumes "key_blind w1 w2"
  shows "(\<exists>e. fst (tryFetchKey (CombinedOutput cfg) h b w1) = Inl e \<and>
              fst (tryFetchKey (CombinedOutput cfg) h b w2) = Inl e) \<or>
         (\<exists>o1 o2. fst (tryFetchKey (CombinedOutput cfg) h b w1) = Inr o1 \<and>
              fst (tryFetchKey (CombinedOutput cfg) h b w2) = Inr o2 \<and>
              same_verdict (extractKey h o1) (extractKey h o2))"
proof -
  let ?a = "ExtraArgs cfg @ [h, fetch_cmd b]"
  obtain o1 e1 where 1: "cmd_reply w1 (trace w1) ''ssh'' ?a [] = (o1, e1)" by fastforce
  obtain o2 e2 where 2: "cmd_reply w2 (trace w2) ''ssh'' ?a [] = (o2, e2)" by fastforce
  have tr: "trace w2 = trace w1" using assms by (simp add: key_blind_def)
  have B: "snd (cmd_reply w1 (trace w1) ''ssh'' ?a []) = snd (cmd_reply w2 (trace w1) ''ssh'' ?a [])"
    "isl (extractKey h (fst (cmd_reply w1 (trace w1) ''ssh'' ?a []))) \<longleftrightarrow>
     isl (extractKey h (fst (cmd_reply w2 (trace w1) ''ssh'' ?a [])))"
    using assms unfolding key_blind_def by blast+
  from B 1 2 tr have e: "e1 = e2" and i: "isl (extractKey h o1) \<longleftrightarrow> isl (extractKey h o2)"
    by simp_all
  have v: "same_verdict (extractKey h o1) (extractKey h o2)"
    using i by (auto simp: same_verdict_def dest: extractKey_Inl split: sum.splits)
  show ?thesis
    using 1 2 e v
    by (cases e2) (simp_all add: tryFetchKey_def CombinedOutput_eq)
qed

lemma fetchKey_blind:
  assumes "key_blind w1 w2"
    and 1: "fetchKey (CombinedOutput cfg) h w1 = (r1, v1)"
    and 2: "fetchKey (CombinedOutput cfg) h w2 = (r2, v2)"
  shows "key_blind v1 v2 \<and> same_verdict r1 r2"
proof (cases "h = []")
  case True
  then show ?thesis using assms by (auto simp: fetchKey_def CheckHost_def same_verdict_def)
next
  case False
  let ?t = "tryFetchKey (CombinedOutput cfg) h"
  let ?e = "\<lambda>b. ssh_event cfg h (fetch_cmd b)"
  obtain a1 where a1: "?t True w1 = (a1, emit (?e True) w1)" by (rule real_ssh.tryFetchKey_cases)
  obtain a2 where a2: "?t True w2 = (a2, emit (?e True) w2)" by (rule real_ssh.tryFetchKey_cases)
  let ?x1 = "emit (?e True) w1" and ?x2 = "emit (?e True) w2"
  obtain b1 where b1: "?t False ?x1 = (b1, emit (?e False) ?x1)" by (rule real_ssh.tryFetchKey_cases)
  obtain b2 where b2: "?t False ?x2 = (b2, emit (?e False) ?x2)" by (rule real_ssh.tryFetchKey_cases)
  have x: "key_blind ?x1 ?x2" and y: "key_blind (emit (?e False) ?x1) (emit (?e False) ?x2)"
    and c: "ctxErr ?x1 = ctxErr ?x2"
    using assms(1) by (auto intro: key_blind_emit key_blind_ctx)
  from tryFetchKey_blind[OF assms(1), of cfg h True] a1 a2
  consider (err) e where "a1 = Inl e" "a2 = Inl e"
    | (ok) o1 o2 where "a1 = Inr o1" "a2 = Inr o2" "same_verdict (extractKey h o1) (extractKey h o2)"
    by auto
  then show ?thesis
  proof cases
    case err
    from tryFetchKey_blind[OF x, of cfg h False] b1 b2 False err c x y 1 2 a1 a2
    show ?thesis
      by (auto simp: fetchKey_def CheckHost_def same_verdict_def split: option.splits)
  next
    case ok
    then show ?thesis
      using 1 2 a1 a2 False x by (auto simp: fetchKey_def CheckHost_def)
  qed
qed

lemma CheckWithRunner_observes: "CheckWithRunner p s (CombinedOutput cfg) w = (r, w') \<Longrightarrow> observes w w'"
  using CheckWithRunner_events[of p s cfg w r w'] by (auto simp: observes_def list_all_iff)

section \<open>Properties\<close>



text \<open>C38. A parity check only reads: it sends at most four commands, each the key grep to the primary
  or the secondary, and it succeeds only if both sites are configured and the same non-empty key
  was extracted from both.\<close>

theorem parity_check_sound:
  assumes "CheckWithConfig p s cfg w = (r, w')"
  shows "set (added w w') \<subseteq> {ssh_event cfg h (fetch_cmd b) |h b. h \<in> {p, s}} \<and>
    length (added w w') \<le> 4 \<and>
    (r = None \<longrightarrow> p \<noteq> [] \<and> s \<noteq> [] \<and>
       (\<exists>k w1. k \<noteq> [] \<and> (\<forall>c \<in> set k. key_char c) \<and>
          fetchKey (CombinedOutput cfg) p w = (Inr k, w1) \<and>
          fetchKey (CombinedOutput cfg) s w1 = (Inr k, w')))"
proof -
  have c: "CheckWithRunner p s (CombinedOutput cfg) w = (r, w')"
    using assms by (simp add: CheckWithConfig_def)
  show ?thesis
    using CheckWithRunner_events[OF c] c
    by (auto simp: CheckWithRunner_def dest: fetch_real(2) split: sum.splits prod.splits if_splits)
qed

theorem parity_check_sound_witness:
  "fst (CheckWithConfig ''p'' ''s'' ssh_Default (calm_world ''db_key_base: ab12'')) = None \<and>
   length (added (calm_world ''db_key_base: ab12'')
      (snd (CheckWithConfig ''p'' ''s'' ssh_Default (calm_world ''db_key_base: ab12'')))) \<le> 4"
proof -
  have "fst (CheckWithConfig ''p'' ''s'' ssh_Default (calm_world ''db_key_base: ab12'')) = None"
    by code_simp
  moreover obtain r w' where
    "CheckWithConfig ''p'' ''s'' ssh_Default (calm_world ''db_key_base: ab12'') = (r, w')" by fastforce
  ultimately show ?thesis using parity_check_sound by fastforce
qed

text \<open>A parity check reveals nothing about a key but equality: in two worlds that differ only in
  the key material the sites return, the verdicts are the same, or one says match and the other
  mismatch. The key value never reaches an error text.\<close>

lemma parity_check_hides_key:
  assumes "key_blind w1 w2"
    and "CheckWithConfig p s cfg w1 = (r1, v1)" and "CheckWithConfig p s cfg w2 = (r2, v2)"
  shows "r1 = r2 \<or> {r1, r2} = {None, Some mismatch_msg}"
proof -
  let ?f = "fetchKey (CombinedOutput cfg)"
  obtain a1 x1 where a1: "?f p w1 = (a1, x1)" by fastforce
  obtain a2 x2 where a2: "?f p w2 = (a2, x2)" by fastforce
  obtain b1 y1 where b1: "?f s x1 = (b1, y1)" by fastforce
  obtain b2 y2 where b2: "?f s x2 = (b2, y2)" by fastforce
  have x: "key_blind x1 x2" "same_verdict a1 a2" using fetchKey_blind[OF assms(1) a1 a2] by auto
  have y: "same_verdict b1 b2" using fetchKey_blind[OF x(1) b1 b2] by auto
  show ?thesis
    using assms(2,3) a1 a2 b1 b2 x(2) y
    by (auto simp: CheckWithConfig_def CheckWithRunner_def same_verdict_def
        split: sum.splits if_splits)
qed

lemma parity_check_hides_key_witness:
  "key_blind (calm_world ''db_key_base: ab12'') (calm_world ''db_key_base: zz'') \<and>
   fst (CheckWithConfig ''p'' ''s'' ssh_Default (calm_world ''db_key_base: ab12'')) \<noteq> Some mismatch_msg"
proof -
  let ?w1 = "calm_world ''db_key_base: ab12''" and ?w2 = "calm_world ''db_key_base: zz''"
  have "isl (extractKey h ''db_key_base: ab12'') = isl (extractKey h ''db_key_base: zz'')" for h
  proof -
    have "dbKeyRe ''db_key_base: ab12'' = None \<and> yamlRe ''db_key_base: ab12'' = Some ''ab12''"
      "dbKeyRe ''db_key_base: zz'' = None \<and> yamlRe ''db_key_base: zz'' = Some ''zz''"
      by code_simp+
    then show ?thesis by (simp add: extractKey_def)
  qed
  then have b: "key_blind ?w1 ?w2"
    by (simp add: key_blind_def calm_world_def)
  obtain r1 v1 where 1: "CheckWithConfig ''p'' ''s'' ssh_Default ?w1 = (r1, v1)" by fastforce
  obtain r2 v2 where 2: "CheckWithConfig ''p'' ''s'' ssh_Default ?w2 = (r2, v2)" by fastforce
  have "fst (CheckWithConfig ''p'' ''s'' ssh_Default ?w1) = None" by code_simp
  then show ?thesis
    using parity_check_hides_key[OF b 1 2] 1 b by simp
qed

text \<open>
  The other direction fails: a key is read up to the first character outside the key alphabet, so
  two different keys that agree up to there pass for equal.
\<close>

lemma parity_check_prefix_only:
  "extractKey h (''db_key_base: aa+1'') = extractKey h (''db_key_base: aa+2'')"
proof -
  have "dbKeyRe ''db_key_base: aa+1'' = None \<and> yamlRe ''db_key_base: aa+1'' = Some ''aa''"
    "dbKeyRe ''db_key_base: aa+2'' = None \<and> yamlRe ''db_key_base: aa+2'' = Some ''aa''"
    by code_simp+
  then show ?thesis by (simp add: extractKey_def)
qed

end
