(* ===== verification/FailoverCtl.thy ===== *)
theory FailoverCtl
  imports Config_Props Dbkey
begin

text \<open>
  \<open>internal/failover/failover.go\<close>: the health-check loop that declares the primary down, the
  promotion of a secondary and the role swap. Log lines at level warn and error are events,
  informational ones are left out; the HTTP client's timeout is part of its answer. The atomic
  counter is an int: one tick per check interval does not reach its 64-bit bound.
\<close>

section \<open>The controller\<close>

record controller =
  fc_cfg :: Config
  fc_sshCfg :: ssh_config
  fc_primaryURL :: string
  fc_healthURLs :: "string list"
  fc_quorum :: int
  fc_checkInterval :: int
  fc_autoFailover :: bool
  fc_dryRun :: bool
  primaryDown :: bool
  consecutiveFails :: int

definition New :: "Config \<Rightarrow> bool \<Rightarrow> controller" where
  "New cfg dryRun =
     (let fc = \<lparr>fc_cfg = cfg, fc_sshCfg = SSHExecConfig cfg,
                fc_primaryURL = site_ExternalURL (Primary cfg),
                fc_healthURLs = [site_ExternalURL (Primary cfg)], fc_quorum = 0,
                fc_checkInterval = 10 * second_ns, fc_autoFailover = False, fc_dryRun = dryRun,
                primaryDown = False, consecutiveFails = 0\<rparr>
      in case Failover cfg of
           Some f \<Rightarrow> fc\<lparr>fc_healthURLs := fc_healthURLs fc @ fo_HealthCheckURLs f,
                        fc_quorum := fo_QuorumRequired f,
                        fc_checkInterval := fo_HealthCheckInterval f,
                        fc_autoFailover := fo_AutoFailover f\<rparr>
         | None \<Rightarrow> fc\<lparr>fc_quorum := 1\<rparr>)"

definition pollURL :: "string \<Rightarrow> world \<Rightarrow> bool \<times> world" where
  "pollURL url w =
     (case http_get url [] w of
        (Inl e, w') \<Rightarrow> (False, w')
      | (Inr resp, w') \<Rightarrow> (StatusCode resp = 200, w'))"

definition fo_findSecondary :: "controller \<Rightarrow> string \<Rightarrow> SiteConfig option" where
  "fo_findSecondary c name = find (\<lambda>s. site_Name s = name) (Secondaries (fc_cfg c))"

definition verifyPrimaryDown :: "controller \<Rightarrow> step" where
  "verifyPrimaryDown c w =
     (if \<not> primaryDown c
      then Some ''primary is not declared down; refusing to promote (use --force to override)'' else None, w)"

definition sshSecondary :: "controller \<Rightarrow> string \<Rightarrow> string \<Rightarrow> step" where
  "sshSecondary c sshHost command w =
     (case CheckHost sshHost of
        Some e \<Rightarrow> (Some e, w)
      | None \<Rightarrow>
        (case CombinedOutput (fc_sshCfg c) sshHost command w of
           ((out, Some e), w') \<Rightarrow> (Some (''ssh '' @ sshHost @ '': '' @ e @ '': '' @ out), w')
         | ((out, None), w') \<Rightarrow> (None, w')))"

section \<open>Named steps\<close>

text \<open>
  A step may also panic (an index out of range); the runner prints the name and skips the step in
  a dry run.
\<close>

type_synonym fallible = "world \<Rightarrow> unit outcome \<times> world"

definition lift_step :: "step \<Rightarrow> fallible" where
  "lift_step s w = (case s w of (None, w') \<Rightarrow> (Done (), w') | (Some e, w') \<Rightarrow> (Failed e, w'))"

datatype fo_result =
    Completed
  | SecondaryNotFound string
  | FailoverDisabled
  | StepFailed string string
  | Crashed string

fun run_named :: "bool \<Rightarrow> (string \<times> fallible) list \<Rightarrow> world \<Rightarrow> fo_result \<times> world" where
  "run_named dry [] w = (Completed, w)"
| "run_named dry ((name, fn) # steps) w =
     (if dry then run_named dry steps (emit (Printed (''[dry-run] step: '' @ name)) w)
      else (case fn w of
              (Done _, w') \<Rightarrow> run_named dry steps w'
            | (Failed e, w') \<Rightarrow> (StepFailed name e, w')
            | (Panicked p, w') \<Rightarrow> (Crashed p, w')))"

definition stop_cmd :: string where "stop_cmd = ''sudo gitlab-ctl stop''"
definition start_cmd :: string where "start_cmd = ''sudo gitlab-ctl start''"

definition pg_promote_cmd :: string where
  "pg_promote_cmd =
     ''sudo -u gitlab-psql /opt/gitlab/embedded/bin/pg_ctl promote '' @
     ''-D /var/opt/gitlab/postgresql/data''"

definition promotion_steps :: "controller \<Rightarrow> SiteConfig \<Rightarrow> (string \<times> fallible) list" where
  "promotion_steps c s =
     [(''verify primary down'', lift_step (verifyPrimaryDown c)),
      (''stop gitlab services on secondary'', lift_step (sshSecondary c (site_SSHHost s) stop_cmd)),
      (''promote postgres'', lift_step (sshSecondary c (site_SSHHost s) pg_promote_cmd)),
      (''disable read-only mode'',
         lift_step (DisableWithConfig (site_SSHHost s) (fc_dryRun c) (fc_sshCfg c))),
      (''start gitlab services on secondary'', lift_step (sshSecondary c (site_SSHHost s) start_cmd)),
      (''verify db_key_base parity'',
         lift_step (CheckWithConfig (site_SSHHost (Primary (fc_cfg c))) (site_SSHHost s) (fc_sshCfg c)))]"

definition post_failover :: "controller \<Rightarrow> SiteConfig \<Rightarrow> event list" where
  "post_failover c s =
     map Printed
       [[CHR 0x0A] @ ''=== POST-FAILOVER RUNBOOK ==='',
        ''1. Update DNS to point to the new primary: '' @ site_ExternalURL s,
        ''2. Re-point CI runners to the new primary coordinator URL'',
        ''3. Update any integrations that reference the old primary URL'',
        ''4. When the old primary recovers, run: geoctl adopt-as-secondary --secondary '' @
          site_Name (Primary (fc_cfg c)),
        ''5. Verify webhook secrets and access tokens work (behavioral check)'']"

definition Promote :: "controller \<Rightarrow> string \<Rightarrow> world \<Rightarrow> fo_result \<times> world" where
  "Promote c secondaryName w =
     (case fo_findSecondary c secondaryName of
        None \<Rightarrow> (SecondaryNotFound secondaryName, w)
      | Some s \<Rightarrow>
          if \<not> fc_dryRun c \<and> \<not> sync_FailoverEnabled (Sync (fc_cfg c)) then (FailoverDisabled, w)
          else (case run_named (fc_dryRun c) (promotion_steps c s) w of
                  (Completed, w') \<Rightarrow> (Completed, fold emit (post_failover c s) w')
                | (StepFailed n e, w') \<Rightarrow>
                    (StepFailed n e, emit (Logged ''error'' ''failover step failed'') w')
                | (r, w') \<Rightarrow> (r, w')))"

definition basebackup_cmd :: "SiteConfig \<Rightarrow> string" where
  "basebackup_cmd np =
     ''sudo -u gitlab-psql /opt/gitlab/embedded/bin/pg_basebackup '' @
     ''-h '' @ pg_Host (site_Postgres np) @ '' -U '' @ pg_ReplicationUser (site_Postgres np) @
     '' -D /var/opt/gitlab/postgresql/data -X stream -c fast -R -P''"

definition basebackup_step :: "controller \<Rightarrow> string \<Rightarrow> fallible" where
  "basebackup_step c oldPrimarySSH w =
     (case Secondaries (fc_cfg c) of
        [] \<Rightarrow> (Panicked ''index out of range'', w)
      | newPrimary # _ \<Rightarrow> lift_step (sshSecondary c oldPrimarySSH (basebackup_cmd newPrimary)) w)"

definition adopt_steps :: "controller \<Rightarrow> string \<Rightarrow> (string \<times> fallible) list" where
  "adopt_steps c oldPrimarySSH =
     [(''stop gitlab on old primary'', lift_step (sshSecondary c oldPrimarySSH stop_cmd)),
      (''pg_basebackup from new primary'', basebackup_step c oldPrimarySSH),
      (''enable read-only mode on old primary'',
         lift_step (EnableWithConfig oldPrimarySSH (fc_dryRun c) (fc_sshCfg c))),
      (''start gitlab on old primary as secondary'', lift_step (sshSecondary c oldPrimarySSH start_cmd))]"

definition AdoptAsSecondary :: "controller \<Rightarrow> string \<Rightarrow> world \<Rightarrow> fo_result \<times> world" where
  "AdoptAsSecondary c oldPrimarySSH w =
     (if \<not> fc_dryRun c \<and> \<not> sync_FailoverEnabled (Sync (fc_cfg c)) then (FailoverDisabled, w)
      else run_named (fc_dryRun c) (adopt_steps c oldPrimarySSH) w)"

section \<open>The health-check loop\<close>

text \<open>One round of polls: the number of failing URLs.\<close>

fun poll_all :: "string list \<Rightarrow> world \<Rightarrow> int \<times> world" where
  "poll_all [] w = (0, w)"
| "poll_all (url # urls) w =
     (case pollURL url w of (ok, w1) \<Rightarrow>
      case poll_all urls w1 of (n, w2) \<Rightarrow> (if ok then n else n + 1, w2))"

text \<open>The automatic promotion of \<open>check\<close>: the first secondary; its error is only logged.\<close>

definition auto_promote :: "controller \<Rightarrow> world \<Rightarrow> (controller \<times> world) outcome" where
  "auto_promote c w =
     (case Secondaries (fc_cfg c) of
        [] \<Rightarrow> Panicked ''index out of range''
      | s # _ \<Rightarrow>
         (case Promote c (site_Name s) (emit (Logged ''error'' ''primary declared down; auto-failover triggered'') w) of
            (Completed, w') \<Rightarrow> Done (c, w')
          | (Crashed p, w') \<Rightarrow> Panicked p
          | (_, w') \<Rightarrow> Done (c, emit (Logged ''error'' ''auto-failover failed'') w')))"

definition check :: "controller \<Rightarrow> world \<Rightarrow> (controller \<times> world) outcome" where
  "check c w =
     (case poll_all (fc_healthURLs c) w of (fails, w1) \<Rightarrow>
      if fails \<ge> fc_quorum c then
        (let c1 = c\<lparr>consecutiveFails := consecutiveFails c + 1\<rparr>;
             w2 = emit (Logged ''warn'' ''primary health check failed'') w1
         in if consecutiveFails c1 \<ge> 3 then
              (let c2 = c1\<lparr>primaryDown := True\<rparr>
               in if fc_autoFailover c then auto_promote c2 w2
                  else Done (c2, emit (Logged ''error'' ''primary declared down; auto-failover disabled'') w2))
            else Done (c1, w2))
      else Done (c\<lparr>consecutiveFails := 0, primaryDown := False\<rparr>, w1))"

section \<open>Lemmas on the step runner\<close>

lemma sshSecondary_eq: "sshSecondary c h cmd = runSSH h False (fc_sshCfg c) cmd"
  by (rule ext) (simp add: sshSecondary_def runSSH_def)

lemma verifyPrimaryDown_world [simp]: "snd (verifyPrimaryDown c w) = w"
  by (simp add: verifyPrimaryDown_def)

text \<open>A real run of steps that cannot panic is a run of the plain steps.\<close>

lemma run_named_real:
  "snd (run_named False (map (\<lambda>(n, s). (n, lift_step s)) ss) w) = snd (run_steps (map snd ss) w) \<and>
   (fst (run_named False (map (\<lambda>(n, s). (n, lift_step s)) ss) w) = Completed \<longleftrightarrow>
      fst (run_steps (map snd ss) w) = None) \<and>
   (\<forall>p. fst (run_named False (map (\<lambda>(n, s). (n, lift_step s)) ss) w) \<noteq> Crashed p) \<and>
   (fst (run_named False (map (\<lambda>(n, s). (n, lift_step s)) ss) w) \<in>
      {Completed} \<union> {StepFailed n e |n e. n \<in> fst ` set ss})"
proof (induction ss arbitrary: w)
  case Nil
  then show ?case by simp
next
  case (Cons a ss)
  obtain n s where a: "a = (n, s)" by fastforce
  obtain r w1 where s: "s w = (r, w1)" by fastforce
  show ?case
    using Cons[of w1] a s by (cases r) (auto simp: lift_step_def)
qed

text \<open>A dry run prints the names and does nothing else.\<close>

lemma run_named_dry:
  "run_named True ss w =
     (Completed, fold emit (map (\<lambda>a. Printed (''[dry-run] step: '' @ fst a)) ss) w)"
  by (induction ss arbitrary: w) auto

lemma fold_emit:
  "extends w (fold emit es w)" "trace (fold emit es w) = trace w @ es"
  by (induction es arbitrary: w) (auto intro: extends_trans[OF extends_emit])

lemma added_fold_emit: "extends w w1 \<Longrightarrow> added w (fold emit es w1) = added w w1 @ es"
  using fold_emit[where w = w1 and es = es] by (auto simp: added_def extends_def)

lemma execs_Printed [simp]: "execs (map (\<lambda>a. Printed (f a)) xs) = []"
  by (induction xs) auto

lemma post_failover_execs [simp]: "execs (post_failover c s) = []"
  by (simp add: post_failover_def)

lemma run_steps_nested: "run_steps (xs @ run_steps ys # zs) w = run_steps (xs @ ys @ zs) w"
  by (simp add: run_steps_append split: prod.splits option.splits)

section \<open>The promotion as one list of steps\<close>

definition promotion_cmds :: "string list" where
  "promotion_cmds = [stop_cmd, pg_promote_cmd] @ disable_cmds @ [start_cmd]"

definition parity_step :: "controller \<Rightarrow> SiteConfig \<Rightarrow> step" where
  "parity_step c s = CheckWithConfig (site_SSHHost (Primary (fc_cfg c))) (site_SSHHost s) (fc_sshCfg c)"

lemma promotion_flat:
  assumes "\<not> fc_dryRun c"
  shows "run_steps (map snd
      [(''verify primary down'', verifyPrimaryDown c),
       (''stop gitlab services on secondary'', sshSecondary c h stop_cmd),
       (''promote postgres'', sshSecondary c h pg_promote_cmd),
       (''disable read-only mode'', DisableWithConfig h (fc_dryRun c) (fc_sshCfg c)),
       (''start gitlab services on secondary'', sshSecondary c h start_cmd),
       (''verify db_key_base parity'', parity_step c s)]) w =
    run_steps (verifyPrimaryDown c # map (runSSH h False (fc_sshCfg c)) promotion_cmds @ [parity_step c s]) w"
  using assms run_steps_nested[of "[verifyPrimaryDown c, runSSH h False (fc_sshCfg c) stop_cmd,
      runSSH h False (fc_sshCfg c) pg_promote_cmd]" "map (runSSH h False (fc_sshCfg c)) disable_cmds"
      "[runSSH h False (fc_sshCfg c) start_cmd, parity_step c s]" w]
  by (simp add: sshSecondary_eq DisableWithConfig_def promotion_cmds_def)

lemma promotion_real:
  assumes "\<not> fc_dryRun c" and "run_named (fc_dryRun c) (promotion_steps c s) w = (r, w')"
  shows "snd (run_steps (verifyPrimaryDown c #
        map (runSSH (site_SSHHost s) False (fc_sshCfg c)) promotion_cmds @ [parity_step c s]) w) = w'"
    and "r = Completed \<longleftrightarrow> fst (run_steps (verifyPrimaryDown c #
        map (runSSH (site_SSHHost s) False (fc_sshCfg c)) promotion_cmds @ [parity_step c s]) w) = None"
    and "r \<noteq> Crashed p"
  using assms run_named_real[where w = w and ss =
      "[(''verify primary down'', verifyPrimaryDown c),
       (''stop gitlab services on secondary'', sshSecondary c (site_SSHHost s) stop_cmd),
       (''promote postgres'', sshSecondary c (site_SSHHost s) pg_promote_cmd),
       (''disable read-only mode'', DisableWithConfig (site_SSHHost s) (fc_dryRun c) (fc_sshCfg c)),
       (''start gitlab services on secondary'', sshSecondary c (site_SSHHost s) start_cmd),
       (''verify db_key_base parity'', parity_step c s)]"]
    promotion_flat[OF assms(1), of "site_SSHHost s" s w]
  by (simp_all add: promotion_steps_def parity_step_def)

section \<open>What a promotion runs\<close>

definition ssh_call :: "ssh_config \<Rightarrow> string \<Rightarrow> string \<Rightarrow> string \<times> string list" where
  "ssh_call cfg h cmd = (''ssh'', ExtraArgs cfg @ [h, cmd])"

lemma execs_ssh: "execs (map (ssh_event cfg h) cmds) = map (ssh_call cfg h) cmds"
  by (induction cmds) (simp_all add: ssh_call_def)

lemma set_execs: "(p, a) \<in> set (execs es) \<Longrightarrow> \<exists>n. Exec p a n \<in> set es"
  by (induction es) (auto simp: execs_def map_filter_def split: event.splits)

text \<open>The commands of one site, in order, stopped at the first failure.\<close>

lemma site_cmds_run:
  assumes "run_steps (map (runSSH h False cfg) cmds) w = (r, w')" and "cmds \<noteq> []"
  shows "\<exists>k \<le> length cmds. extends w w' \<and> added w w' = map (ssh_event cfg h) (take k cmds) \<and>
    (r = None \<longrightarrow> k = length cmds) \<and> (k > 0 \<longrightarrow> h \<noteq> [])"
proof (cases "h = []")
  case True
  then have "r \<noteq> None \<and> w' = w"
    using assms by (cases cmds) (auto simp: runSSH_unconfigured)
  then show ?thesis by (intro exI[of _ 0]) auto
next
  case False
  have x: "extends w w'"
  proof -
    have "extends w (snd (run_steps (map (runSSH h False cfg) cmds) w))"
      by (rule run_steps_extends) (auto simp: runSSH_extends)
    then show ?thesis using assms(1) by simp
  qed
  show ?thesis
  proof (cases r)
    case None
    then have "trace w' = trace w @ map (ssh_event cfg h) cmds"
      using assms(1) ssh_cmds_trace(1)[OF False] by blast
    then show ?thesis using x False None by (intro exI[of _ "length cmds"]) (simp add: added_def)
  next
    case (Some e)
    then obtain k where "k < length cmds" "trace w' = trace w @ map (ssh_event cfg h) (take (Suc k) cmds)"
      using assms(1) ssh_cmds_trace(2)[OF False] by blast
    then show ?thesis using x False Some by (intro exI[of _ "Suc k"]) (simp add: added_def)
  qed
qed

lemma parity_execs:
  assumes "parity_step c s w = (r, w')"
  shows "extends w w' \<and> set (execs (added w w')) \<subseteq>
    {ssh_call (fc_sshCfg c) h (fetch_cmd b) |h b. h \<in> {site_SSHHost (Primary (fc_cfg c)), site_SSHHost s}}"
proof -
  let ?H = "{site_SSHHost (Primary (fc_cfg c)), site_SSHHost s}"
  have x: "extends w w'" and es: "set (added w w') \<subseteq> {ssh_event (fc_sshCfg c) h (fetch_cmd b) |h b. h \<in> ?H}"
    using assms CheckWithRunner_events unfolding parity_step_def CheckWithConfig_def by blast+
  have "(q, a) \<in> {ssh_call (fc_sshCfg c) h (fetch_cmd b) |h b. h \<in> ?H}"
    if qa: "(q, a) \<in> set (execs (added w w'))" for q a
  proof -
    obtain n where "Exec q a n \<in> set (added w w')" using set_execs[OF qa] by blast
    then obtain h b where "h \<in> ?H" "Exec q a n = ssh_event (fc_sshCfg c) h (fetch_cmd b)"
      using es by blast
    then have "(q, a) = ssh_call (fc_sshCfg c) h (fetch_cmd b)" by (simp add: ssh_call_def)
    then show ?thesis using \<open>h \<in> ?H\<close> by blast
  qed
  then have "set (execs (added w w')) \<subseteq> {ssh_call (fc_sshCfg c) h (fetch_cmd b) |h b. h \<in> ?H}"
    by (intro subrelI)
  then show ?thesis using x by (intro conjI)
qed

lemma promotion_cmds_ne: "promotion_cmds \<noteq> []"
  by (simp add: promotion_cmds_def)

lemma promotion_execs:
  assumes "run_steps (verifyPrimaryDown c # map (runSSH h False (fc_sshCfg c)) promotion_cmds @
      [parity_step c s]) w = (r, w')" and "h = site_SSHHost s"
  shows "extends w w' \<and> (\<not> primaryDown c \<longrightarrow> w' = w \<and> r \<noteq> None) \<and>
    (\<exists>k \<le> length promotion_cmds. \<exists>ks.
      execs (added w w') = map (ssh_call (fc_sshCfg c) h) (take k promotion_cmds) @ ks \<and>
      (ks \<noteq> [] \<or> r = None \<longrightarrow> k = length promotion_cmds) \<and> (k > 0 \<longrightarrow> h \<noteq> []) \<and>
      set ks \<subseteq> {ssh_call (fc_sshCfg c) h' (fetch_cmd b) |h' b.
        h' \<in> {site_SSHHost (Primary (fc_cfg c)), site_SSHHost s}})"
proof (cases "primaryDown c")
  case False
  then have "w' = w \<and> r \<noteq> None"
    using assms(1) by (auto simp: verifyPrimaryDown_def)
  then show ?thesis by (auto intro!: exI[of _ 0])
next
  case True
  obtain r1 w1 where 1: "run_steps (map (runSSH h False (fc_sshCfg c)) promotion_cmds) w = (r1, w1)"
    by fastforce
  obtain k where k: "k \<le> length promotion_cmds" "extends w w1"
    "added w w1 = map (ssh_event (fc_sshCfg c) h) (take k promotion_cmds)"
    "r1 = None \<longrightarrow> k = length promotion_cmds" "k > 0 \<longrightarrow> h \<noteq> []"
    using site_cmds_run[OF 1 promotion_cmds_ne] by blast
  have run: "(case r1 of Some e \<Rightarrow> (Some e, w1) | None \<Rightarrow> run_steps [parity_step c s] w1) = (r, w')"
    using assms(1) True 1 by (simp add: verifyPrimaryDown_def run_steps_append)
  show ?thesis
  proof (cases r1)
    case (Some e)
    then have "r = Some e" "w' = w1" using run by auto
    then show ?thesis using True k by (auto simp: execs_ssh intro!: exI[of _ k])
  next
    case None
    then have w': "w' = snd (parity_step c s w1)" using run
      by (auto split: prod.splits option.splits)
    obtain r2 where p: "parity_step c s w1 = (r2, w')" using w' by (metis prod.collapse)
    have "added w w' = added w w1 @ added w1 w'" "extends w w'"
      using k(2) parity_execs[OF p] by (auto simp: added_trans[of w w1 w'] intro: extends_trans)
    then show ?thesis
      using True None k parity_execs[OF p]
      by (intro conjI exI[of _ k] exI[of _ "execs (added w1 w')"]) (auto simp: execs_ssh)
  qed
qed

text \<open>What \<open>Promote\<close> adds around the steps runs no command.\<close>

lemma Promote_steps:
  assumes "Promote c name w = (r, w')" and "fo_findSecondary c name = Some s"
    and "fc_dryRun c \<or> sync_FailoverEnabled (Sync (fc_cfg c))"
    and "run_named (fc_dryRun c) (promotion_steps c s) w = (r1, w1)"
  shows "extends w1 w' \<and> execs (added w1 w') = [] \<and> r = r1"
proof -
  have "(case (r1, w1) of (Completed, w') \<Rightarrow> (Completed, fold emit (post_failover c s) w')
      | (StepFailed n e, w') \<Rightarrow> (StepFailed n e, emit (Logged ''error'' ''failover step failed'') w')
      | (r, w') \<Rightarrow> (r, w')) = (r, w')"
    using assms by (cases "fc_dryRun c") (simp_all add: Promote_def)
  then show ?thesis
    by (cases r1) (auto simp: added_fold_emit fold_emit)
qed

lemma Promote_refused:
  assumes "fo_findSecondary c name = None \<or> \<not> fc_dryRun c \<and> \<not> sync_FailoverEnabled (Sync (fc_cfg c))"
  shows "snd (Promote c name w) = w" and "fst (Promote c name w) \<noteq> Completed"
  using assms by (auto simp: Promote_def split: option.splits)

lemma Promote_dry:
  assumes "fc_dryRun c" and "fo_findSecondary c name = Some s" and "Promote c name w = (r, w')"
  shows "r = Completed \<and> extends w w' \<and> execs (added w w') = []"
proof -
  obtain r1 w1 where run: "run_named (fc_dryRun c) (promotion_steps c s) w = (r1, w1)" by fastforce
  have 1: "extends w1 w' \<and> execs (added w1 w') = [] \<and> r = r1"
    using Promote_steps[OF assms(3,2) _ run] assms(1) by simp
  have 2: "r1 = Completed" "w1 = fold emit (map (\<lambda>a. Printed (''[dry-run] step: '' @ fst a)) (promotion_steps c s)) w"
    using run assms(1) by (simp_all add: run_named_dry)
  have "extends w w1" "execs (added w w1) = []"
    unfolding 2(2) by (simp_all add: fold_emit added_fold_emit)
  then show ?thesis
    using 1 2(1) by (auto simp: added_trans[of w w1 w'] intro: extends_trans)
qed

lemma Promote_real:
  assumes "\<not> fc_dryRun c" and "fo_findSecondary c name = Some s"
    and "sync_FailoverEnabled (Sync (fc_cfg c))" and "Promote c name w = (r, w')"
  obtains k ks where "k \<le> length promotion_cmds" "extends w w'"
    "execs (added w w') = map (ssh_call (fc_sshCfg c) (site_SSHHost s)) (take k promotion_cmds) @ ks"
    "ks \<noteq> [] \<or> r = Completed \<longrightarrow> k = length promotion_cmds" "k > 0 \<longrightarrow> site_SSHHost s \<noteq> []"
    "set ks \<subseteq> {ssh_call (fc_sshCfg c) h (fetch_cmd b) |h b.
        h \<in> {site_SSHHost (Primary (fc_cfg c)), site_SSHHost s}}"
    "\<not> primaryDown c \<longrightarrow> execs (added w w') = [] \<and> r \<noteq> Completed"
proof -
  obtain r1 w1 where run: "run_named (fc_dryRun c) (promotion_steps c s) w = (r1, w1)" by fastforce
  obtain rr where rr: "run_steps (verifyPrimaryDown c # map (runSSH (site_SSHHost s) False (fc_sshCfg c))
      promotion_cmds @ [parity_step c s]) w = (rr, w1)"
    using promotion_real(1)[OF assms(1) run] by (metis prod.collapse)
  have r1: "r1 = Completed \<longleftrightarrow> rr = None"
    using promotion_real(2)[OF assms(1) run] rr by simp
  have 1: "extends w1 w' \<and> execs (added w1 w') = [] \<and> r = r1"
    using Promote_steps[OF assms(4,2) _ run] assms(3) by simp
  note P = promotion_execs[OF rr refl]
  then have w: "extends w w1" by blast
  have e: "execs (added w w') = execs (added w w1)" "extends w w'"
    using 1 w by (auto simp: added_trans[of w w1 w'] intro: extends_trans)
  have nd: "\<not> primaryDown c \<longrightarrow> execs (added w w') = [] \<and> r \<noteq> Completed"
    using P 1 r1 e by auto
  obtain k ks where k: "k \<le> length promotion_cmds"
    "execs (added w w1) = map (ssh_call (fc_sshCfg c) (site_SSHHost s)) (take k promotion_cmds) @ ks"
    "ks \<noteq> [] \<or> rr = None \<longrightarrow> k = length promotion_cmds" "k > 0 \<longrightarrow> site_SSHHost s \<noteq> []"
    "set ks \<subseteq> {ssh_call (fc_sshCfg c) h' (fetch_cmd b) |h' b.
        h' \<in> {site_SSHHost (Primary (fc_cfg c)), site_SSHHost s}}"
    using P by blast
  have k3: "ks \<noteq> [] \<or> r = Completed \<longrightarrow> k = length promotion_cmds"
    using k(3) r1 1 by simp
  show thesis
    by (rule that[OF k(1) e(2) _ k3 k(4) k(5) nd]) (simp only: e k(2))
qed

section \<open>The monitor as a transition system\<close>

text \<open>
  \<open>Run\<close> calls \<open>check\<close> at every tick of the interval. A state of the system is the controller, the
  world and the verdicts of the rounds so far, latest first (True for a failed round); it starts
  from \<open>New\<close> and any world. Between two rounds the other parts of the process may act.
\<close>

definition round_failed :: "controller \<Rightarrow> world \<Rightarrow> bool" where
  "round_failed c w \<longleftrightarrow> fst (poll_all (fc_healthURLs c) w) \<ge> fc_quorum c"

inductive monitor :: "Config \<Rightarrow> bool \<Rightarrow> controller \<Rightarrow> world \<Rightarrow> bool list \<Rightarrow> bool"
  for cfg dry where
  monitor_start: "monitor cfg dry (New cfg dry) w []"
| monitor_tick: "monitor cfg dry c w h \<Longrightarrow> check c w = Done (c', w') \<Longrightarrow>
    monitor cfg dry c' w' (round_failed c w # h)"
| monitor_waits: "monitor cfg dry c w h \<Longrightarrow> extends w w' \<Longrightarrow> monitor cfg dry c w' h"

inductive_cases monitor_cases: "monitor cfg dry c w h"

text \<open>The number of failed rounds since the last good one.\<close>

definition streak :: "bool list \<Rightarrow> int" where
  "streak h = int (length (takeWhile id h))"

lemma streak_simps [simp]:
  "streak [] = 0" "streak (True # h) = streak h + 1" "streak (False # h) = 0"
  by (simp_all add: streak_def)

lemma pollURL_world [simp]: "snd (pollURL url w) = emit (HttpGet url []) w"
  by (simp add: pollURL_def http_get_def split: sum.splits)

lemma poll_all_events:
  "extends w (snd (poll_all urls w)) \<and> added w (snd (poll_all urls w)) = map (\<lambda>u. HttpGet u []) urls \<and>
   0 \<le> fst (poll_all urls w) \<and> fst (poll_all urls w) \<le> int (length urls)"
proof (induction urls arbitrary: w)
  case Nil
  then show ?case by simp
next
  case (Cons u urls)
  let ?w1 = "emit (HttpGet u []) w"
  obtain ok where 1: "pollURL u w = (ok, ?w1)" using pollURL_world by (metis prod.collapse)
  obtain n w2 where 2: "poll_all urls ?w1 = (n, w2)" by fastforce
  have "extends ?w1 w2" "added ?w1 w2 = map (\<lambda>u. HttpGet u []) urls" "0 \<le> n" "n \<le> int (length urls)"
    using Cons[of ?w1] 2 by auto
  then show ?case
    using 1 2 by (auto simp: added_trans[of w ?w1 w2] intro: extends_trans[OF extends_emit])
qed

lemma execs_polls [simp]: "execs (map (\<lambda>u. HttpGet u []) urls) = []"
  by (induction urls) auto

text \<open>What a round does to the controller, whatever the promotion it may start returns.\<close>

lemma auto_promote_ctl: "auto_promote c w = Done (c', w') \<Longrightarrow> c' = c"
  by (auto simp: auto_promote_def split: list.splits prod.splits fo_result.splits)

lemma check_ctl:
  assumes "check c w = Done (c', w')"
  shows "c' = (if round_failed c w
               then c\<lparr>consecutiveFails := consecutiveFails c + 1,
                      primaryDown := primaryDown c \<or> consecutiveFails c + 1 \<ge> 3\<rparr>
               else c\<lparr>consecutiveFails := 0, primaryDown := False\<rparr>)"
proof -
  obtain n w1 where p: "poll_all (fc_healthURLs c) w = (n, w1)" by fastforce
  show ?thesis
    using assms p
    by (auto simp: check_def round_failed_def Let_def dest!: auto_promote_ctl split: if_splits)
qed

lemma monitor_config:
  "monitor cfg dry c w h \<Longrightarrow> fc_cfg c = cfg \<and> fc_dryRun c = dry \<and> fc_sshCfg c = SSHExecConfig cfg \<and>
     fc_autoFailover c = fc_autoFailover (New cfg dry) \<and> fc_quorum c = fc_quorum (New cfg dry) \<and>
     fc_healthURLs c = fc_healthURLs (New cfg dry)"
proof (induction rule: monitor.induct)
  case (monitor_start w)
  then show ?case by (simp add: New_def Let_def split: option.splits)
next
  case (monitor_tick c w h c' w')
  then show ?case using check_ctl[OF monitor_tick(2)] by simp
qed simp

lemma monitor_counter: "monitor cfg dry c w h \<Longrightarrow> consecutiveFails c = streak h \<and> (primaryDown c \<longleftrightarrow> 3 \<le> streak h)"
proof (induction rule: monitor.induct)
  case (monitor_start w)
  then show ?case by (simp add: New_def Let_def split: option.splits)
next
  case (monitor_tick c w h c' w')
  then show ?case using check_ctl[OF monitor_tick(2)] by auto
qed simp

lemma Promote_summary:
  assumes "Promote c name w = (r, w')"
  shows "extends w w' \<and> (execs (added w w') \<noteq> [] \<longrightarrow> \<not> fc_dryRun c \<and> primaryDown c \<and>
    sync_FailoverEnabled (Sync (fc_cfg c)) \<and>
    (\<exists>s. fo_findSecondary c name = Some s \<and> set (execs (added w w')) \<subseteq>
       {ssh_call (fc_sshCfg c) (site_SSHHost s) cmd |cmd. True} \<union>
       {ssh_call (fc_sshCfg c) (site_SSHHost (Primary (fc_cfg c))) (fetch_cmd b) |b. True}))"
proof (cases "fo_findSecondary c name = None \<or> \<not> fc_dryRun c \<and> \<not> sync_FailoverEnabled (Sync (fc_cfg c))")
  case True
  then show ?thesis using Promote_refused(1)[OF True, of w] assms by simp
next
  case False
  then obtain s where s: "fo_findSecondary c name = Some s"
    by (cases "fo_findSecondary c name") auto
  show ?thesis
  proof (cases "fc_dryRun c")
    case True
    then show ?thesis using Promote_dry[OF True s assms] by simp
  next
    case real: False
    then have en: "sync_FailoverEnabled (Sync (fc_cfg c))" using False by blast
    obtain k ks where P: "k \<le> length promotion_cmds" "extends w w'"
      "execs (added w w') = map (ssh_call (fc_sshCfg c) (site_SSHHost s)) (take k promotion_cmds) @ ks"
      "ks \<noteq> [] \<or> r = Completed \<longrightarrow> k = length promotion_cmds" "k > 0 \<longrightarrow> site_SSHHost s \<noteq> []"
      "set ks \<subseteq> {ssh_call (fc_sshCfg c) h (fetch_cmd b) |h b.
        h \<in> {site_SSHHost (Primary (fc_cfg c)), site_SSHHost s}}"
      "\<not> primaryDown c \<longrightarrow> execs (added w w') = [] \<and> r \<noteq> Completed"
      by (rule Promote_real[OF real s en assms])
    have "set (execs (added w w')) \<subseteq>
       {ssh_call (fc_sshCfg c) (site_SSHHost s) cmd |cmd. True} \<union>
       {ssh_call (fc_sshCfg c) (site_SSHHost (Primary (fc_cfg c))) (fetch_cmd b) |b. True}"
      using P(6) unfolding P(3) by fastforce
    then show ?thesis using P(2,7) real en s by blast
  qed
qed

lemma auto_promote_execs:
  assumes "auto_promote c w = Done (c', w')"
  shows "extends w w' \<and> (execs (added w w') \<noteq> [] \<longrightarrow> \<not> fc_dryRun c \<and> sync_FailoverEnabled (Sync (fc_cfg c)))"
proof -
  let ?w1 = "emit (Logged ''error'' ''primary declared down; auto-failover triggered'') w"
  obtain s ss where s: "Secondaries (fc_cfg c) = s # ss"
    using assms by (cases "Secondaries (fc_cfg c)") (auto simp: auto_promote_def)
  obtain r w2 where P: "Promote c (site_Name s) ?w1 = (r, w2)" by fastforce
  note S = Promote_summary[OF P]
  then have 2: "extends w w2" "added w w2 = added w ?w1 @ added ?w1 w2"
    by (auto simp: added_trans[of w ?w1 w2] intro: extends_trans[OF extends_emit])
  have "w' = w2 \<or> (\<exists>e. w' = emit (Logged ''error'' e) w2)"
    using assms s P by (auto simp: auto_promote_def split: fo_result.splits)
  then show ?thesis
    using S 2 by (auto simp: added_emitI intro: extends_emitI)
qed

lemma check_execs:
  assumes "check c w = Done (c', w')"
  shows "extends w w' \<and> (execs (added w w') \<noteq> [] \<longrightarrow> round_failed c w \<and> fc_autoFailover c \<and>
    consecutiveFails c + 1 \<ge> 3 \<and> \<not> fc_dryRun c \<and> sync_FailoverEnabled (Sync (fc_cfg c)))"
proof -
  obtain n w1 where p: "poll_all (fc_healthURLs c) w = (n, w1)" by fastforce
  have 1: "extends w w1" "execs (added w w1) = []"
    using poll_all_events[of w "fc_healthURLs c"] p by auto
  let ?w2 = "emit (Logged ''warn'' ''primary health check failed'') w1"
  let ?c1 = "c\<lparr>consecutiveFails := consecutiveFails c + 1, primaryDown := True\<rparr>"
  have 2: "extends w ?w2" "execs (added w ?w2) = []"
    using 1 by (auto simp: added_emitI intro: extends_emitI)
  consider (down) "round_failed c w" "consecutiveFails c + 1 \<ge> 3" "fc_autoFailover c"
      "auto_promote ?c1 ?w2 = Done (c', w')"
    | (other) "w' = w1 \<or> w' = ?w2 \<or> (\<exists>e. w' = emit (Logged ''error'' e) ?w2)"
    using assms p by (auto simp: check_def round_failed_def Let_def split: if_splits)
  then show ?thesis
  proof cases
    case down
    have "extends ?w2 w'" "execs (added ?w2 w') \<noteq> [] \<longrightarrow> \<not> fc_dryRun c \<and> sync_FailoverEnabled (Sync (fc_cfg c))"
      using auto_promote_execs[OF down(4)] by auto
    then show ?thesis
      using down 2 by (auto simp: added_trans[of w ?w2 w'] intro: extends_trans)
  next
    case other
    then show ?thesis using 1 2 by (auto simp: added_emitI intro: extends_emitI)
  qed
qed

section \<open>What the controller leaves alone\<close>

text \<open>Whatever it does to the sites, it does over ssh.\<close>

lemma run_named_observes:
  "(\<And>n f v. (n, f) \<in> set steps \<Longrightarrow> observes v (snd (f v))) \<Longrightarrow> run_named dry steps w = (r, w') \<Longrightarrow> observes w w'"
proof (induction steps arbitrary: w)
  case (Cons st steps)
  obtain n f where st: "st = (n, f)" by fastforce
  have IH: "run_named dry steps v = (r, w') \<Longrightarrow> observes v w'" for v
    by (rule Cons.IH) (use Cons.prems(1) in \<open>auto intro: list.set_intros(2)\<close>)
  obtain o1 w1 where f: "f w = (o1, w1)" by fastforce
  have 1: "observes w w1" using Cons.prems(1)[of n f w] st f by simp
  have 2: "observes w (emit (Printed (''[dry-run] step: '' @ n)) w)" by (simp add: observes_emits)
  show ?case
    using Cons.prems(2) f 1 observes_trans[OF 1 IH] observes_trans[OF 2 IH]
    unfolding st by (cases o1) (auto split: if_splits)
qed simp

lemma lift_step_observes: "observes w (snd (s w)) \<Longrightarrow> observes w (snd (lift_step s w))"
  by (auto simp: lift_step_def split: prod.splits option.splits)

lemma ssh_step_observes: "observes w (snd (lift_step (sshSecondary c h cmd) w))"
  by (rule lift_step_observes) (simp add: sshSecondary_eq runSSH_observes)

lemma lifted_steps_observe:
  "observes w (snd (lift_step (verifyPrimaryDown c) w))"
  "observes w (snd (lift_step (EnableWithConfig h dry cfg) w))"
  "observes w (snd (lift_step (DisableWithConfig h dry cfg) w))"
  "observes w (snd (lift_step (CheckWithConfig p q cfg) w))"
proof -
  show "observes w (snd (lift_step (CheckWithConfig p q cfg) w))"
  proof (rule lift_step_observes)
    obtain r w1 where "CheckWithConfig p q cfg w = (r, w1)" by fastforce
    then show "observes w (snd (CheckWithConfig p q cfg w))"
      using CheckWithRunner_observes[of p q cfg w r w1] by (simp add: CheckWithConfig_def)
  qed
qed (rule lift_step_observes, simp add: readonly_observes)+

lemma promotion_steps_observe: "(n, f) \<in> set (promotion_steps c s) \<Longrightarrow> observes w (snd (f w))"
  using ssh_step_observes lifted_steps_observe by (auto simp: promotion_steps_def)

lemma adopt_steps_observe: "(n, f) \<in> set (adopt_steps c h) \<Longrightarrow> observes w (snd (f w))"
  using ssh_step_observes lifted_steps_observe by (auto simp: adopt_steps_def basebackup_step_def split: list.splits)

lemma AdoptAsSecondary_observes:
  assumes "AdoptAsSecondary c h w = (r, w')"
  shows "observes w w'"
proof -
  have "run_named d (adopt_steps c h) w = (r, w') \<Longrightarrow> observes w w'" for d
    by (erule run_named_observes[rotated]) (rule adopt_steps_observe)
  then show ?thesis using assms by (auto simp: AdoptAsSecondary_def split: if_splits)
qed

lemma Promote_observes:
  assumes "Promote c n w = (r, w')"
  shows "observes w w'"
proof (cases "fo_findSecondary c n")
  case None
  then show ?thesis using assms by (simp add: Promote_def)
next
  case (Some s)
  obtain r1 w1 where R: "run_named (fc_dryRun c) (promotion_steps c s) w = (r1, w1)" by fastforce
  have 1: "observes w w1" using R by (rule run_named_observes[rotated]) (rule promotion_steps_observe)
  have "observing e" if "e \<in> set (post_failover c s)" for e
    using that by (auto simp only: post_failover_def set_map observing.simps)
  then have "observes w1 (fold emit (post_failover c s) w1)"
    using observes_fold[of "post_failover c s" "\<lambda>e. e" w1] by simp
  then show ?thesis
    using assms Some R 1 observes_trans[OF 1] by (auto simp: Promote_def split: if_splits fo_result.splits intro: observes_emit)
qed

lemma check_observes:
  assumes "check c w = Done (c', w')"
  shows "observes w w'"
proof -
  have p: "observes v (snd (poll_all us v))" for us v
    using poll_all_events[of v us] by (simp add: observes_def list_all_iff)
  obtain n w1 where n: "poll_all (fc_healthURLs c) w = (n, w1)" by fastforce
  have 1: "observes w w1" using p[of w "fc_healthURLs c"] n by simp
  let ?w2 = "emit (Logged ''warn'' ''primary health check failed'') w1"
  let ?c1 = "c\<lparr>consecutiveFails := consecutiveFails c + 1, primaryDown := True\<rparr>"
  have 2: "observes w ?w2" using 1 by (simp add: observes_emit)
  consider (down) "auto_promote ?c1 ?w2 = Done (c', w')" | (other) "w' = w1 \<or> w' = ?w2 \<or> (\<exists>e. w' = emit (Logged ''error'' e) ?w2)"
    using assms n by (auto simp: check_def Let_def split: if_splits)
  then show ?thesis
  proof cases
    case down
    let ?w3 = "emit (Logged ''error'' ''primary declared down; auto-failover triggered'') ?w2"
    obtain s ss where s: "Secondaries (fc_cfg ?c1) = s # ss"
      using down by (cases "Secondaries (fc_cfg ?c1)") (auto simp: auto_promote_def)
    obtain r w4 where P: "Promote ?c1 (site_Name s) ?w3 = (r, w4)" by fastforce
    have 4: "observes w w4" by (rule observes_trans[OF observes_emit[OF 2] Promote_observes[OF P]]) simp
    have "w' = w4 \<or> (\<exists>e. w' = emit (Logged ''error'' e) w4)"
      using down s P by (auto simp: auto_promote_def split: fo_result.splits)
    then show ?thesis using 4 by (auto intro: observes_emit)
  next
    case other
    then show ?thesis using 1 2 by (auto intro: observes_emit)
  qed
qed

section \<open>Worlds for the witnesses\<close>

definition dead_world :: world where
  "dead_world = calm_world ''db_key_base: ab12''\<lparr>http_reply := (\<lambda>_ _ _. Inl ''connection refused'')\<rparr>"

definition down_controller :: "bool \<Rightarrow> controller" where
  "down_controller dry = New sample_config dry\<lparr>primaryDown := True\<rparr>"

text \<open>A failed round against a primary that refuses connections.\<close>

lemma dead_round:
  assumes "http_reply w = http_reply dead_world" and "fc_healthURLs c = [u]" "fc_quorum c = 1"
    and "\<not> fc_autoFailover c"
  shows "round_failed c w" and "\<exists>c' w'. check c w = Done (c', w') \<and> http_reply w' = http_reply dead_world"
proof -
  have 1: "poll_all (fc_healthURLs c) w = (1, emit (HttpGet u []) w)"
    using assms(1,2) by (simp add: pollURL_def http_get_def dead_world_def)
  then show "round_failed c w" using assms(3) by (simp add: round_failed_def)
  show "\<exists>c' w'. check c w = Done (c', w') \<and> http_reply w' = http_reply dead_world"
    using 1 assms by (simp add: check_def Let_def)
qed

lemma monitor_dead:
  assumes "\<not> fc_autoFailover (New cfg dry)" "fc_healthURLs (New cfg dry) = [u]" "fc_quorum (New cfg dry) = 1"
  shows "\<exists>c w. monitor cfg dry c w (replicate n True) \<and> http_reply w = http_reply dead_world"
proof (induction n)
  case 0
  show ?case
    using monitor_start[of cfg dry dead_world]
    by (intro exI[of _ "New cfg dry"] exI[of _ dead_world]) simp
next
  case (Suc n)
  then obtain c w where m: "monitor cfg dry c w (replicate n True)" "http_reply w = http_reply dead_world"
    by blast
  note c = monitor_config[OF m(1)]
  have f: "round_failed c w" using dead_round(1)[OF m(2), of c u] c assms by simp
  obtain c' w' where t: "check c w = Done (c', w')" "http_reply w' = http_reply dead_world"
    using dead_round(2)[OF m(2), of c u] c assms by auto
  have "monitor cfg dry c' w' (replicate (Suc n) True)"
    using monitor_tick[OF m(1) t(1)] f by simp
  then show ?case using t(2) by blast
qed

section \<open>Properties\<close>

text \<open>C1. Nothing is promoted by accident: if a promotion runs any remote command at all, it is not a
  dry run, failover is enabled in the configuration, the controller holds the primary for down,
  and the name is that of a configured secondary; every command goes to that secondary, except
  the key greps sent to the primary.\<close>

theorem promote_guarded:
  assumes "Promote c name w = (r, w')" and "execs (added w w') \<noteq> []"
  shows "\<not> fc_dryRun c \<and> primaryDown c \<and> sync_FailoverEnabled (Sync (fc_cfg c)) \<and>
    (\<exists>s \<in> set (Secondaries (fc_cfg c)). site_Name s = name \<and>
       set (execs (added w w')) \<subseteq>
         {ssh_call (fc_sshCfg c) (site_SSHHost s) cmd |cmd. True} \<union>
         {ssh_call (fc_sshCfg c) (site_SSHHost (Primary (fc_cfg c))) (fetch_cmd b) |b. True})"
proof -
  have g: "\<not> fc_dryRun c" "primaryDown c" "sync_FailoverEnabled (Sync (fc_cfg c))"
    using Promote_summary[OF assms(1)] assms(2) by simp_all
  obtain s where s: "fo_findSecondary c name = Some s" "set (execs (added w w')) \<subseteq>
       {ssh_call (fc_sshCfg c) (site_SSHHost s) cmd |cmd. True} \<union>
       {ssh_call (fc_sshCfg c) (site_SSHHost (Primary (fc_cfg c))) (fetch_cmd b) |b. True}"
    using Promote_summary[OF assms(1)] assms(2) by blast
  then have "s \<in> set (Secondaries (fc_cfg c)) \<and> site_Name s = name"
    by (auto simp: fo_findSecondary_def find_Some_iff)
  then show ?thesis using g s(2) by blast
qed

theorem promote_guarded_witness:
  "execs (added dead_world (snd (Promote (down_controller False) ''us'' dead_world))) \<noteq> [] \<and>
   primaryDown (down_controller False)"
proof -
  obtain r w' where P: "Promote (down_controller False) ''us'' dead_world = (r, w')" by fastforce
  have "execs (added dead_world (snd (Promote (down_controller False) ''us'' dead_world))) \<noteq> []"
    by code_simp
  then show ?thesis using promote_guarded[OF P] P by simp
qed



text \<open>The detector is exact: in every reachable state of the monitor the primary is held for down
  exactly if the last three rounds, or more, all failed; one good round clears it.\<close>

lemma detector_exact:
  assumes "monitor cfg dry c w h"
  shows "primaryDown c \<longleftrightarrow> 3 \<le> length (takeWhile id h)"
  using monitor_counter[OF assms] by (auto simp: streak_def)

lemma detector_exact_witness:
  "\<exists>c w. monitor sample_config False c w [True, True, True] \<and> primaryDown c"
proof -
  obtain c w where "monitor sample_config False c w (replicate 3 True)"
    using monitor_dead[of sample_config False "''https://eu''" 3]
    by (auto simp: New_def Let_def sample_config_def sample_site_def)
  then have m: "monitor sample_config False c w [True, True, True]" by (simp add: numeral_3_eq_3)
  then show ?thesis using detector_exact[OF m] by auto
qed

text \<open>C5. No unattended failover unless asked for: a monitor round runs a remote command only if the
  configuration sets auto_failover and failover_enabled, it is not a dry run, and this round is
  at least the third failed one in a row.\<close>

theorem no_unattended_failover:
  assumes "monitor cfg dry c w h" and "check c w = Done (c', w')" and "execs (added w w') \<noteq> []"
  shows "(\<exists>f. Failover cfg = Some f \<and> fo_AutoFailover f) \<and> sync_FailoverEnabled (Sync cfg) \<and> \<not> dry \<and>
    3 \<le> length (takeWhile id (round_failed c w # h))"
proof -
  note m = monitor_config[OF assms(1)] monitor_counter[OF assms(1)]
  have x: "round_failed c w" "fc_autoFailover c" "consecutiveFails c + 1 \<ge> 3" "\<not> fc_dryRun c"
    "sync_FailoverEnabled (Sync (fc_cfg c))"
    using check_execs[OF assms(2)] assms(3) by simp_all
  have "\<exists>f. Failover cfg = Some f \<and> fo_AutoFailover f"
    using x(2) m by (auto simp: New_def Let_def split: option.splits)
  then show ?thesis using x m by (auto simp: streak_def)
qed

definition auto_config :: Config where
  "auto_config = sample_config\<lparr>Failover := Some \<lparr>fo_HealthCheckURLs = [], fo_HealthCheckInterval = 10,
     fo_QuorumRequired = 1, fo_DNSPlugin = ''none'', fo_DNSConfig = [], fo_AutoFailover = True\<rparr>\<rparr>"

definition two_bad :: "(controller \<times> world) outcome" where
  "two_bad = (case check (New auto_config False) dead_world of Done (c, w) \<Rightarrow> check c w | r \<Rightarrow> r)"

definition three_bad :: "(controller \<times> world) outcome" where
  "three_bad = (case two_bad of Done (c, w) \<Rightarrow> check c w | r \<Rightarrow> r)"

definition ran_commands :: "(controller \<times> world) outcome \<Rightarrow> (controller \<times> world) outcome \<Rightarrow> bool" where
  "ran_commands r r' = (case r of Done (c, w) \<Rightarrow> (case r' of Done (c', w') \<Rightarrow> execs (added w w') \<noteq> [] | _ \<Rightarrow> False)
     | _ \<Rightarrow> False)"

lemma ran_commands_Done:
  "ran_commands r r' \<Longrightarrow>
   \<exists>c w c' w'. r = Done (c, w) \<and> r' = Done (c', w') \<and> execs (added w w') \<noteq> []"
  by (cases r; cases r') (auto simp: ran_commands_def)

theorem no_unattended_failover_witness:
  "\<exists>c w h c' w'. monitor auto_config False c w h \<and> check c w = Done (c', w') \<and>
     execs (added w w') \<noteq> [] \<and> 3 \<le> length (takeWhile id (round_failed c w # h))"
proof -
  have t: "ran_commands two_bad three_bad"
    by code_simp
  then obtain c2 w2 c3 w3 where 2: "two_bad = Done (c2, w2)" and 3: "three_bad = Done (c3, w3)"
    and ne: "execs (added w2 w3) \<noteq> []"
    using ran_commands_Done by blast
  obtain c1 w1 where 1: "check (New auto_config False) dead_world = Done (c1, w1)" "check c1 w1 = Done (c2, w2)"
    using 2 by (auto simp: two_bad_def split: outcome.splits)
  have "check c2 w2 = Done (c3, w3)"
    using 3 unfolding three_bad_def 2 by simp
  note 23 = this ne
  obtain h where m: "monitor auto_config False c2 w2 h"
    using monitor_tick[OF monitor_tick[OF monitor_start 1(1)] 1(2)] by blast
  show ?thesis
    using m 23 no_unattended_failover[OF m 23] by blast
qed

text \<open>
  A fresh controller, as the failover command builds it, has never seen the primary down: a real
  promotion by it never completes and runs no remote command at all.
\<close>

lemma fresh_controller_never_promotes:
  "fst (Promote (New cfg False) name w) \<noteq> Completed \<and>
   execs (added w (snd (Promote (New cfg False) name w))) = []"
proof -
  have d: "\<not> primaryDown (New cfg False)" "\<not> fc_dryRun (New cfg False)" "fc_cfg (New cfg False) = cfg"
    by (simp_all add: New_def Let_def split: option.splits)
  obtain r w' where P: "Promote (New cfg False) name w = (r, w')" by fastforce
  have "execs (added w w') = []" using Promote_summary[OF P] d by blast
  moreover have "r \<noteq> Completed"
  proof (cases "fo_findSecondary (New cfg False) name = None \<or> \<not> sync_FailoverEnabled (Sync cfg)")
    case True
    then show ?thesis using Promote_refused(2)[of "New cfg False" name w] P d by auto
  next
    case False
    then obtain s where s: "fo_findSecondary (New cfg False) name = Some s"
      by (cases "fo_findSecondary (New cfg False) name") auto
    show ?thesis
      by (rule Promote_real[OF d(2) s _ P]) (use False d in auto)
  qed
  ultimately show ?thesis using P by simp
qed

text \<open>
  A dry run rehearses even where a real run would refuse: it completes whenever the secondary
  exists, the primary up or down, and sends nothing.
\<close>

lemma promote_dry_run:
  "fc_dryRun c \<Longrightarrow> fo_findSecondary c name = Some s \<Longrightarrow>
   fst (Promote c name w) = Completed \<and> execs (added w (snd (Promote c name w))) = []"
  using Promote_dry[of c name s w "fst (Promote c name w)" "snd (Promote c name w)"] by simp

text \<open>
  The automatic promotion has no latch: in a state where the primary is already held for down, a
  further failed round starts the promotion of the first secondary again.
\<close>

lemma auto_promotion_repeats:
  assumes "poll_all (fc_healthURLs c) w = (n, w1)" "n \<ge> fc_quorum c" "consecutiveFails c \<ge> 3"
    "fc_autoFailover c"
  shows "check c w = auto_promote (c\<lparr>consecutiveFails := consecutiveFails c + 1, primaryDown := True\<rparr>)
    (emit (Logged ''warn'' ''primary health check failed'') w1)"
  using assms by (simp add: check_def Let_def)

text \<open>
  The key check of the last step greps the primary's key over ssh. With the primary's host down it
  fails, so the promotion reports a failed step although every promotion command succeeded.
\<close>

lemma parity_needs_primary:
  assumes "fst (fetchKey (CombinedOutput (fc_sshCfg c)) (site_SSHHost (Primary (fc_cfg c))) w) = Inl e"
  shows "fst (parity_step c s w) = Some (''primary db_key_base: '' @ e)"
  using assms by (cases "fetchKey (CombinedOutput (fc_sshCfg c)) (site_SSHHost (Primary (fc_cfg c))) w")
    (simp add: parity_step_def CheckWithConfig_def CheckWithRunner_def)

section \<open>The role swap\<close>

definition adopt_cmds :: "SiteConfig \<Rightarrow> string list" where
  "adopt_cmds np = [stop_cmd, basebackup_cmd np] @ enable_cmds @ [start_cmd]"

lemma adopt_flat:
  assumes "\<not> fc_dryRun c" and "Secondaries (fc_cfg c) = np # nps"
    and "run_named (fc_dryRun c) (adopt_steps c h) w = (r, w')"
  shows "snd (run_steps (map (runSSH h False (fc_sshCfg c)) (adopt_cmds np)) w) = w'"
    and "r = Completed \<longleftrightarrow> fst (run_steps (map (runSSH h False (fc_sshCfg c)) (adopt_cmds np)) w) = None"
proof -
  have b: "basebackup_step c h = lift_step (sshSecondary c h (basebackup_cmd np))"
    by (rule ext) (simp add: basebackup_step_def assms(2))
  have f: "run_steps (map snd
      [(''stop gitlab on old primary'', sshSecondary c h stop_cmd),
       (''pg_basebackup from new primary'', sshSecondary c h (basebackup_cmd np)),
       (''enable read-only mode on old primary'', EnableWithConfig h (fc_dryRun c) (fc_sshCfg c)),
       (''start gitlab on old primary as secondary'', sshSecondary c h start_cmd)]) w =
    run_steps (map (runSSH h False (fc_sshCfg c)) (adopt_cmds np)) w"
    using assms(1) run_steps_nested[of "[runSSH h False (fc_sshCfg c) stop_cmd,
        runSSH h False (fc_sshCfg c) (basebackup_cmd np)]" "map (runSSH h False (fc_sshCfg c)) enable_cmds"
        "[runSSH h False (fc_sshCfg c) start_cmd]" w]
    by (simp add: sshSecondary_eq EnableWithConfig_def adopt_cmds_def)
  show "snd (run_steps (map (runSSH h False (fc_sshCfg c)) (adopt_cmds np)) w) = w'"
    "r = Completed \<longleftrightarrow> fst (run_steps (map (runSSH h False (fc_sshCfg c)) (adopt_cmds np)) w) = None"
    using assms(1,3) run_named_real[where w = w and ss =
      "[(''stop gitlab on old primary'', sshSecondary c h stop_cmd),
       (''pg_basebackup from new primary'', sshSecondary c h (basebackup_cmd np)),
       (''enable read-only mode on old primary'', EnableWithConfig h (fc_dryRun c) (fc_sshCfg c)),
       (''start gitlab on old primary as secondary'', sshSecondary c h start_cmd)]"]
    unfolding f by (simp_all add: adopt_steps_def b)
qed



text \<open>Without a secondary in the configuration the real swap stops GitLab and then panics.\<close>

lemma adopt_without_secondaries:
  assumes "Secondaries (fc_cfg c) = []" "\<not> fc_dryRun c" "sync_FailoverEnabled (Sync (fc_cfg c))"
    and "sshSecondary c h stop_cmd w = (None, w1)"
  shows "AdoptAsSecondary c h w = (Crashed ''index out of range'', w1)"
  using assms by (simp add: AdoptAsSecondary_def adopt_steps_def lift_step_def basebackup_step_def)

end

