(* ===== verification/Detector.thy ===== *)
theory Detector
  imports FailoverCtl
begin

text \<open>
  What the health monitor of \<open>internal/failover\<close> promises, apart from how it counts: an abstract
  detector with four states, the proof that the controller's counter and flag implement it, and
  the bound on its reaction.
\<close>

section \<open>The abstract detector\<close>

datatype detector = Healthy | Suspected | Doubted | DeclaredDown

fun detect :: "bool \<Rightarrow> detector \<Rightarrow> detector" where
  "detect False d = Healthy"
| "detect True Healthy = Suspected"
| "detect True Suspected = Doubted"
| "detect True Doubted = DeclaredDown"
| "detect True DeclaredDown = DeclaredDown"

definition detector_of :: "controller \<Rightarrow> detector" where
  "detector_of c =
     (if primaryDown c then DeclaredDown
      else if consecutiveFails c = 0 then Healthy
      else if consecutiveFails c = 1 then Suspected else Doubted)"

text \<open>The counter and the flag fit together.\<close>

definition coherent :: "controller \<Rightarrow> bool" where
  "coherent c \<longleftrightarrow> 0 \<le> consecutiveFails c \<and> (primaryDown c \<longleftrightarrow> 3 \<le> consecutiveFails c)"

lemma coherent_New: "coherent (New cfg dry)" "detector_of (New cfg dry) = Healthy"
  by (simp_all add: coherent_def detector_of_def New_def Let_def split: option.splits)

lemma check_simulates:
  assumes "coherent c" and "check c w = Done (c', w')"
  shows "coherent c' \<and> detector_of c' = detect (round_failed c w) (detector_of c)"
proof -
  note c' = check_ctl[OF assms(2)]
  show ?thesis
  proof (cases "round_failed c w")
    case False
    then show ?thesis using c' by (simp add: coherent_def detector_of_def)
  next
    case True
    consider "consecutiveFails c = 0" | "consecutiveFails c = 1" | "consecutiveFails c = 2" | "3 \<le> consecutiveFails c"
      using assms(1) unfolding coherent_def by linarith
    then show ?thesis
      using True c' assms(1) by cases (auto simp: coherent_def detector_of_def)
  qed
qed

lemma monitor_simulates: "monitor cfg dry c w h \<Longrightarrow> coherent c \<and> detector_of c = foldr detect h Healthy"
proof (induction rule: monitor.induct)
  case (monitor_start w)
  then show ?case by (simp add: coherent_New)
next
  case (monitor_tick c w h c' w')
  then show ?case using check_simulates[OF _ monitor_tick(2)] by simp
qed simp

section \<open>A round returns\<close>

lemma Promote_no_crash: "Promote c name w = (r, w') \<Longrightarrow> r \<noteq> Crashed p"
proof
  assume P: "Promote c name w = (r, w')" and r: "r = Crashed p"
  obtain s where s: "fo_findSecondary c name = Some s"
    using P r by (cases "fo_findSecondary c name") (auto simp: Promote_def)
  have en: "fc_dryRun c \<or> sync_FailoverEnabled (Sync (fc_cfg c))"
    using P r s by (auto simp: Promote_def split: if_splits)
  obtain r1 w1 where run: "run_named (fc_dryRun c) (promotion_steps c s) w = (r1, w1)" by fastforce
  have "r1 = Crashed p" using Promote_steps[OF P s en run] r by simp
  then show False
    using run promotion_real(3)[OF _ run] run_named_dry[of "promotion_steps c s" w] by (cases "fc_dryRun c") auto
qed

lemma auto_promote_returns:
  assumes "Secondaries (fc_cfg c) \<noteq> []"
  shows "\<exists>w'. auto_promote c w = Done (c, w')"
proof -
  obtain s ss where s: "Secondaries (fc_cfg c) = s # ss" using assms by (cases "Secondaries (fc_cfg c)") auto
  obtain r w' where P: "Promote c (site_Name s) (emit (Logged ''error'' ''primary declared down; auto-failover triggered'') w) = (r, w')"
    by fastforce
  consider "r = Completed" | n where "r = SecondaryNotFound n" | "r = FailoverDisabled" | n e where "r = StepFailed n e"
    using Promote_no_crash[OF P] by (cases r) auto
  then show ?thesis
    using s P by cases (simp_all add: auto_promote_def)
qed

lemma check_returns:
  assumes "Secondaries (fc_cfg c) \<noteq> [] \<or> \<not> fc_autoFailover c"
  shows "\<exists>c' w'. check c w = Done (c', w')"
proof -
  obtain n w1 where p: "poll_all (fc_healthURLs c) w = (n, w1)" by fastforce
  let ?c2 = "c\<lparr>consecutiveFails := consecutiveFails c + 1, primaryDown := True\<rparr>"
  show ?thesis
  proof (cases "fc_autoFailover c")
    case True
    then have "Secondaries (fc_cfg ?c2) \<noteq> []" using assms by simp
    from auto_promote_returns[OF this] obtain w' where
      "auto_promote ?c2 (emit (Logged ''warn'' ''primary health check failed'') w1) = Done (?c2, w')" by blast
    then show ?thesis using p True by (simp add: check_def Let_def)
  next
    case False
    then show ?thesis using p by (simp add: check_def Let_def)
  qed
qed

section \<open>A primary that is gone\<close>

definition unreachable :: "world \<Rightarrow> string list \<Rightarrow> bool" where
  "unreachable w urls \<longleftrightarrow> (\<forall>es. \<forall>u \<in> set urls. isl (http_reply w es u []))"

lemma poll_all_unreachable:
  "unreachable w urls \<Longrightarrow> fst (poll_all urls w) = int (length urls)"
proof (induction urls arbitrary: w)
  case Nil
  then show ?case by simp
next
  case (Cons u urls)
  obtain e where e: "http_reply w (trace w) u [] = Inl e"
    using Cons.prems unfolding unreachable_def by (meson isl_def list.set_intros(1))
  have "unreachable (emit (HttpGet u []) w) urls"
    using Cons.prems by (auto simp: unreachable_def)
  then show ?case using Cons.IH e by (simp add: pollURL_def http_get_def split: prod.splits) (metis fst_conv)
qed

lemma unreachable_fails:
  "unreachable w (fc_healthURLs c) \<Longrightarrow> fc_quorum c \<le> int (length (fc_healthURLs c)) \<Longrightarrow> round_failed c w"
  by (simp add: round_failed_def poll_all_unreachable)

text \<open>A quorum above the number of URLs is never met, whatever the sites answer.\<close>

lemma quorum_out_of_reach: "int (length (fc_healthURLs c)) < fc_quorum c \<Longrightarrow> \<not> round_failed c w"
  using poll_all_events[of w "fc_healthURLs c"] by (simp add: round_failed_def)

lemma rounds_unreachable:
  assumes "monitor cfg dry c w h" and "unreachable w (fc_healthURLs (New cfg dry))"
    and "fc_quorum (New cfg dry) \<le> int (length (fc_healthURLs (New cfg dry)))" and "Secondaries cfg \<noteq> []"
  shows "\<exists>c' w'. monitor cfg dry c' w' (replicate n True @ h) \<and> unreachable w' (fc_healthURLs (New cfg dry))"
proof (induction n)
  case 0
  then show ?case using assms(1,2) by auto
next
  case (Suc n)
  then obtain c1 w1 where m: "monitor cfg dry c1 w1 (replicate n True @ h)"
    "unreachable w1 (fc_healthURLs (New cfg dry))" by blast
  note C = monitor_config[OF m(1)]
  have f: "round_failed c1 w1" using unreachable_fails[of w1 c1] m(2) assms(3) C by simp
  obtain c2 w2 where k: "check c1 w1 = Done (c2, w2)" using check_returns[of c1 w1] C assms(4) by auto
  have "unreachable w2 (fc_healthURLs (New cfg dry))"
    using m(2) check_execs[OF k] extends_env(2)[of w1 w2] by (simp add: unreachable_def)
  moreover have "monitor cfg dry c2 w2 (replicate (Suc n) True @ h)" using monitor_tick[OF m(1) k] f by simp
  ultimately show ?case by blast
qed

section \<open>Properties\<close>

text \<open>C6. The monitor implements the abstract detector: in every reachable state its counter and its
  flag stand for the state the detector reaches on the verdicts of the rounds so far, and a round
  that runs a remote command is one on which the detector says that the primary is down.\<close>

theorem monitor_refines_detector:
  assumes "monitor cfg dry c w h"
  shows "detector_of c = foldr detect h Healthy \<and>
    (\<forall>c' w'. check c w = Done (c', w') \<and> execs (added w w') \<noteq> [] \<longrightarrow>
      foldr detect (round_failed c w # h) Healthy = DeclaredDown \<and> detector_of c' = DeclaredDown)"
proof -
  have M: "coherent c" "detector_of c = foldr detect h Healthy" using monitor_simulates[OF assms] by auto
  have "foldr detect (round_failed c w # h) Healthy = DeclaredDown \<and> detector_of c' = DeclaredDown"
    if k: "check c w = Done (c', w')" and e: "execs (added w w') \<noteq> []" for c' w'
  proof -
    have "detector_of c' = DeclaredDown"
      using check_ctl[OF k] check_execs[OF k] e by (auto simp: detector_of_def)
    then show ?thesis using check_simulates[OF M(1) k] M(2) by simp
  qed
  then show ?thesis using M(2) by blast
qed

theorem monitor_refines_detector_witness:
  "\<exists>c w. monitor sample_config False c w [True, True] \<and> detector_of c = Doubted"
proof -
  obtain c w where "monitor sample_config False c w (replicate 2 True)"
    using monitor_dead[of sample_config False "''https://eu''" 2]
    by (auto simp: New_def Let_def sample_config_def sample_site_def)
  then have m: "monitor sample_config False c w [True, True]" by (simp add: numeral_2_eq_2)
  have "detector_of c = Doubted" using monitor_refines_detector[OF m] by simp
  then show ?thesis using m by blast
qed



end
