(* ===== verification/Reconciler.thy ===== *)
theory Reconciler
  imports Sshexec
begin

text \<open>
  \<open>internal/reconciler\<close>: the interface every sync component implements, the runner that sweeps
  over them, and the retry loop. The interface is the locale \<open>reconciler\<close>; one call is a relation
  between the world before, the result and the world after, since a component may run concurrent
  work. \<open>strict_reconciler\<close> adds the promise of the Result type's comment: nothing remains when OK.
\<close>

section \<open>Results\<close>

record result =
  OK :: bool
  Lag :: int
  Detail :: string
  Repaired :: int
  Remaining :: int

abbreviation res_ok :: "string \<Rightarrow> result" where
  "res_ok d \<equiv> \<lparr>OK = True, Lag = 0, Detail = d, Repaired = 0, Remaining = 0\<rparr>"

abbreviation res_bad :: "string \<Rightarrow> int \<Rightarrow> result" where
  "res_bad d n \<equiv> \<lparr>OK = False, Lag = 0, Detail = d, Repaired = 0, Remaining = n\<rparr>"

type_synonym reconcile = "world \<Rightarrow> result \<Rightarrow> world \<Rightarrow> bool"

text \<open>A component without concurrency is a function; its relation is the function's graph.\<close>

definition graph_of :: "(world \<Rightarrow> result \<times> world) \<Rightarrow> reconcile" where
  "graph_of f w r w' \<longleftrightarrow> f w = (r, w')"

section \<open>Retry\<close>

text \<open>
  The loop on the attempts that are left; durations are signed 64-bit words, whose doubling wraps.
  A timer that fires together with the cancellation counts as a cancellation.
\<close>

definition next_delay :: "64 word \<Rightarrow> 64 word \<Rightarrow> 64 word" where
  "next_delay delay maxDelay =
     (let d = delay * 2 in if sint d > sint maxDelay then maxDelay else d)"

definition retry_log :: "string \<Rightarrow> event" where
  "retry_log name = Logged ''warn'' (name @ '': transient failure, retrying'')"

text \<open>The function retried is a closure: \<open>v\<close> stands for the variables it assigns.\<close>

fun retry_loop ::
    "string \<Rightarrow> nat \<Rightarrow> 64 word \<Rightarrow> 64 word \<Rightarrow> ('v \<Rightarrow> world \<Rightarrow> (string option \<times> 'v) \<times> world) \<Rightarrow>
     string option \<Rightarrow> 'v \<Rightarrow> world \<Rightarrow> (string option \<times> 'v) \<times> world" where
  "retry_loop name 0 delay maxDelay fn lastErr v w = ((lastErr, v), w)"
| "retry_loop name (Suc n) delay maxDelay fn lastErr v w =
     (case fn v w of
        ((None, v1), w1) \<Rightarrow> ((None, v1), w1)
      | ((Some err, v1), w1) \<Rightarrow>
          if n = 0 then ((Some err, v1), w1)
          else (let w2 = emit (Waited (sint delay)) (emit (retry_log name) w1)
                in case ctxErr w2 of
                     Some ce \<Rightarrow> ((Some ce, v1), w2)
                   | None \<Rightarrow> retry_loop name n (next_delay delay maxDelay) maxDelay fn (Some err) v1 w2))"

definition Retry ::
    "string \<Rightarrow> int \<Rightarrow> 64 word \<Rightarrow> 64 word \<Rightarrow> ('v \<Rightarrow> world \<Rightarrow> (string option \<times> 'v) \<times> world) \<Rightarrow>
     'v \<Rightarrow> world \<Rightarrow> (string option \<times> 'v) \<times> world" where
  "Retry name maxAttempts initialDelay maxDelay fn v w =
     retry_loop name (nat maxAttempts) initialDelay maxDelay fn None v w"

section \<open>The runner\<close>

record reconciler_obj =
  rec_name :: string
  rec_run :: reconcile

record runner =
  ru_interval :: int
  ru_reconcilers :: "reconciler_obj list"

definition NewRunner :: "int \<Rightarrow> reconciler_obj list \<Rightarrow> runner" where
  "NewRunner interval recs = \<lparr>ru_interval = interval, ru_reconcilers = recs\<rparr>"

definition sweep_log :: "string \<Rightarrow> result \<Rightarrow> event" where
  "sweep_log name r =
     (if OK r \<and> Remaining r = 0 then Logged ''debug'' (name @ '': in sync'')
      else if OK r then Logged ''info'' (name @ '': partial sync'')
      else Logged ''warn'' (name @ '': drift detected''))"

inductive sweep :: "reconciler_obj list \<Rightarrow> world \<Rightarrow> world \<Rightarrow> bool" where
  sweep_end: "sweep [] w w"
| sweep_cancelled: "cancelled w \<Longrightarrow> sweep (rc # rcs) w w"
| sweep_step: "\<not> cancelled w \<Longrightarrow> rec_run rc w res w1 \<Longrightarrow>
    sweep rcs (emit (sweep_log (rec_name rc) res) w1) w' \<Longrightarrow> sweep (rc # rcs) w w'"

inductive_cases sweep_NilE [elim!]: "sweep [] w w'"
inductive_cases sweep_ConsE: "sweep (rc # rcs) w w'"

text \<open>
  \<open>Run\<close>: a sweep at once, then one per tick until the loop takes the
  cancellation of the context; when both are ready either may be taken. \<open>NewTicker\<close> panics on
  an interval that is not positive. The relation links the start to the worlds the loop passes
  between sweeps, and to the one it returns with.
\<close>

inductive run_loop :: "runner \<Rightarrow> world \<Rightarrow> world \<Rightarrow> bool" for r where
  run_first: "0 < ru_interval r \<Longrightarrow> sweep (ru_reconcilers r) w w' \<Longrightarrow> run_loop r w w'"
| run_tick: "run_loop r w w1 \<Longrightarrow>
    sweep (ru_reconcilers r) (emit (Waited (ru_interval r)) w1) w' \<Longrightarrow> run_loop r w w'"

definition run_returns :: "runner \<Rightarrow> world \<Rightarrow> world \<Rightarrow> bool" where
  "run_returns r w w' \<longleftrightarrow>
     (\<exists>w1. run_loop r w w1 \<and> (w' = w1 \<or> w' = emit (Waited (ru_interval r)) w1) \<and> cancelled w')"

section \<open>The interface\<close>

locale reconciler =
  fixes reconcile :: reconcile
  assumes grows: "reconcile w r w' \<Longrightarrow> extends w w'"
    and returns: "\<exists>r w'. reconcile w r w'"
begin

lemma reconcile_env: "reconcile w r w' \<Longrightarrow> ctx_err w' = ctx_err w \<and> cmd_reply w' = cmd_reply w"
  using extends_env(1,7)[OF grows] by simp

end

locale strict_reconciler = reconciler +
  assumes none_left: "reconcile w r w' \<Longrightarrow> OK r \<Longrightarrow> Remaining r = 0"
begin

text \<open>The runner never calls a strict component partly synced.\<close>

lemma never_partial: "reconcile w r w' \<Longrightarrow>
    sweep_log n r = Logged ''debug'' (n @ '': in sync'') \<or> sweep_log n r = Logged ''warn'' (n @ '': drift detected'')"
  by (auto simp: sweep_log_def dest: none_left)

end

text \<open>A component whose commands are known: whatever it does, it runs only commands of \<open>may\<close>.\<close>

locale confined_reconciler = reconciler +
  fixes may :: "(string \<times> string list) set"
  assumes confined: "reconcile w r w' \<Longrightarrow> set (execs (added w w')) \<subseteq> may"
begin

lemma then_confined:
  assumes "reconcile w r w1" and "extends w1 w'" and "set (execs (added w1 w')) \<subseteq> M" and "may \<subseteq> M"
  shows "extends w w' \<and> set (execs (added w w')) \<subseteq> M"
  using confined[OF assms(1)] added_trans[OF grows[OF assms(1)] assms(2)] extends_trans[OF grows[OF assms(1)] assms(2)]
    assms(3,4) by auto

end


text \<open>A component that only observes: it writes no file and no database.\<close>

locale reading_reconciler = reconciler +
  assumes reads: "reconcile w r w' \<Longrightarrow> observes w w'"

lemma graph_reconciler: "(\<And>w. extends w (snd (f w))) \<Longrightarrow> reconciler (graph_of f)"
  by unfold_locales (auto simp: graph_of_def, metis snd_conv)

section \<open>Lemmas on sweeps\<close>

lemma sweep_extends:
  "sweep rcs w w' \<Longrightarrow> \<forall>rc \<in> set rcs. reconciler (rec_run rc) \<Longrightarrow> extends w w'"
proof (induction rule: sweep.induct)
  case (sweep_step w rc res w1 rcs w')
  then have "extends w w1" by (auto dest: reconciler.grows)
  then show ?case using sweep_step by (auto intro: extends_trans extends_emitI)
qed auto

lemma sweep_returns:
  "\<forall>rc \<in> set rcs. reconciler (rec_run rc) \<Longrightarrow> \<exists>w'. sweep rcs w w'"
proof (induction rcs arbitrary: w)
  case Nil
  then show ?case by (auto intro: sweep.intros)
next
  case (Cons rc rcs)
  obtain res w1 where "rec_run rc w res w1"
    using reconciler.returns[of "rec_run rc" w] Cons.prems by auto
  moreover obtain w' where "sweep rcs (emit (sweep_log (rec_name rc) res) w1) w'"
    using Cons by fastforce
  ultimately show ?case by (meson sweep.intros(2,3))
qed

lemma sweep_log_execs [simp]: "execs (sweep_log n r # es) = execs es"
  by (simp add: sweep_log_def)

lemma sweep_confined:
  "sweep rcs w w' \<Longrightarrow> \<forall>rc \<in> set rcs. \<exists>m \<subseteq> M. confined_reconciler (rec_run rc) m \<Longrightarrow>
   extends w w' \<and> set (execs (added w w')) \<subseteq> M"
proof (induction rule: sweep.induct)
  case (sweep_step w rc res w1 rcs w')
  let ?l = "sweep_log (rec_name rc) res"
  from sweep_step.prems obtain m where m: "m \<subseteq> M" "confined_reconciler (rec_run rc) m" by auto
  have IH: "extends (emit ?l w1) w'" "set (execs (added (emit ?l w1) w')) \<subseteq> M" using sweep_step by auto
  have "extends w1 w'" "set (execs (added w1 w')) \<subseteq> M"
    using extends_trans[OF extends_emit IH(1)] added_trans[OF extends_emit IH(1)] IH(2) by simp_all
  then show ?case using confined_reconciler.then_confined[OF m(2) sweep_step(2) _ _ m(1)] by blast
qed auto

lemma sweep_reads:
  "sweep rcs w w' \<Longrightarrow> \<forall>rc \<in> set rcs. reading_reconciler (rec_run rc) \<Longrightarrow> observes w w'"
proof (induction rule: sweep.induct)
  case (sweep_step w rc res w1 rcs w')
  let ?l = "sweep_log (rec_name rc) res"
  have "reading_reconciler (rec_run rc)" using sweep_step.prems by simp
  then have 1: "observes w w1" using sweep_step(2) by (rule reading_reconciler.reads)
  have "observing ?l" by (simp add: sweep_log_def)
  then have "observes w1 w'" using observes_after[of ?l] sweep_step by simp
  then show ?case by (rule observes_trans[OF 1])
qed auto

section \<open>Lemmas on retries\<close>

definition waits :: "event list \<Rightarrow> int list" where
  "waits es = List.map_filter (\<lambda>e. case e of Waited n \<Rightarrow> Some n | _ \<Rightarrow> None) es"

lemma waits_simps [simp]:
  "waits [] = []" "waits (xs @ ys) = waits xs @ waits ys" "waits (Waited n # es) = n # waits es"
  "waits (Logged l s # es) = waits es"
  by (simp_all add: waits_def map_filter_def)

fun delays :: "64 word \<Rightarrow> 64 word \<Rightarrow> nat \<Rightarrow> 64 word list" where
  "delays d m 0 = []"
| "delays d m (Suc j) = d # delays (next_delay d m) m j"

lemma sint_double:
  fixes d :: "64 word"
  assumes "0 \<le> sint d" "sint d < 2 ^ 62"
  shows "sint (d * 2) = sint d * 2"
proof -
  have "sint (d * 2) = signed_take_bit 63 (sint d * 2)"
    by (simp add: sint_word_ariths)
  also have "\<dots> = sint d * 2"
    using assms by (intro signed_take_bit_int_eq_self) auto
  finally show ?thesis .
qed

lemma sint_next_delay:
  assumes "0 < sint d" "sint d \<le> sint m" "sint m < 2 ^ 62"
  shows "sint (next_delay d m) = min (sint d * 2) (sint m)"
  using assms sint_double[of d] by (simp add: next_delay_def Let_def)

text \<open>The delays double up to the cap, as long as the cap leaves room for one doubling.\<close>

lemma delays_closed_form:
  assumes "0 < sint d" "sint d \<le> sint m" "sint m < 2 ^ 62"
  shows "map sint (delays d m j) = map (\<lambda>i. min (sint d * 2 ^ i) (sint m)) [0..<j]"
  using assms
proof (induction j arbitrary: d)
  case 0
  then show ?case by simp
next
  case (Suc j)
  let ?d' = "next_delay d m"
  have d': "sint ?d' = min (sint d * 2) (sint m)" using sint_next_delay[OF Suc.prems] .
  have "map sint (delays ?d' m j) = map (\<lambda>i. min (sint ?d' * 2 ^ i) (sint m)) [0..<j]"
  proof (rule Suc.IH)
    show "0 < sint ?d'" "sint ?d' \<le> sint m" "sint m < 2 ^ 62" unfolding d' using Suc.prems by simp_all
  qed
  also have "\<dots> = map (\<lambda>i. min (sint d * 2 ^ i) (sint m)) [1..<Suc j]"
  proof -
    have "min (sint ?d' * 2 ^ i) (sint m) = min (sint d * 2 ^ Suc i) (sint m)" for i
    proof (cases "sint d * 2 \<le> sint m")
      case True
      then show ?thesis using d' by simp
    next
      case False
      then have "sint m \<le> sint d * 2 * 2 ^ i" "sint m \<le> sint m * 2 ^ i"
        using Suc.prems by (auto intro: order_trans[OF _ mult_left_mono[of 1]] simp: mult_le_cancel_left1)
      then show ?thesis using d' False by (simp add: mult.assoc)
    qed
    then have "map (\<lambda>i. min (sint ?d' * 2 ^ i) (sint m)) [0..<j] =
        map (\<lambda>i. min (sint d * 2 ^ Suc i) (sint m)) [0..<j]"
      by (intro map_cong refl)
    also have "\<dots> = map (\<lambda>i. min (sint d * 2 ^ i) (sint m)) (map Suc [0..<j])"
      by (simp only: map_map o_def)
    finally show ?thesis by (simp only: map_Suc_upt One_nat_def)
  qed
  finally show ?case
    using Suc.prems by (simp add: upt_conv_Cons del: upt_Suc)
qed

text \<open>What a run of the loop with \<open>n\<close> tries allowed has done, \<open>j\<close> waits included.\<close>

definition retry_ok ::
    "('v \<Rightarrow> world \<Rightarrow> (string option \<times> 'v) \<times> world) \<Rightarrow> event \<Rightarrow> nat \<Rightarrow> 64 word \<Rightarrow> 64 word \<Rightarrow> world \<Rightarrow>
     string option \<times> 'v \<Rightarrow> world \<Rightarrow> nat \<Rightarrow> nat \<Rightarrow> bool" where
  "retry_ok fn call n d m w r w' k j \<longleftrightarrow>
     waits (added w w') = map sint (delays d m j) \<and> count_list (added w w') call = k \<and>
     k \<le> n \<and> (n > 0 \<longrightarrow> k > 0) \<and> (j = k \<or> Suc j = k) \<and>
     (n > 0 \<longrightarrow> fst r = None \<longrightarrow> (\<exists>v1 w1. fn v1 w1 = (r, w') \<and> extends w w1)) \<and>
     (n > 0 \<longrightarrow> (\<forall>es. ctx_err w es = None) \<longrightarrow> fst r \<noteq> None \<longrightarrow> k = n)"

lemma retry_loop_spec:
  assumes fn: "\<And>v w. snd (fn v w) = emit call w" and call: "\<And>l s. call \<noteq> Logged l s"
    "\<And>i. call \<noteq> Waited i" "waits [call] = []"
  shows "retry_loop name n d m fn lst v w = (r, w') \<Longrightarrow>
    extends w w' \<and> (\<exists>k j. retry_ok fn call n d m w r w' k j)"
proof (induction n arbitrary: d lst v w)
  case 0
  then show ?case by (auto simp: retry_ok_def intro!: exI[of _ 0])
next
  case (Suc n)
  obtain r1 v1 where f: "fn v w = ((r1, v1), emit call w)" using fn by (metis prod.collapse)
  let ?w1 = "emit call w"
  let ?w2 = "emit (Waited (sint d)) (emit (retry_log name) ?w1)"
  have rl: "retry_log name \<noteq> call" "waits [retry_log name, Waited (sint d)] = [sint d]"
    "Waited (sint d) \<noteq> call"
    using call(1) call(2)[of "sint d"] by (auto simp: retry_log_def)
  have w2: "extends w ?w2" "added w ?w2 = [call, retry_log name, Waited (sint d)]"
    by (auto intro: extends_emitI) (simp add: added_def)
  have v2: "waits (added w ?w2) = [sint d]" "count_list (added w ?w2) call = 1"
    unfolding w2(2) using waits_simps(2)[of "[call]" "[retry_log name, Waited (sint d)]"] call rl by simp_all
  consider (stop) "r1 = None \<or> n = 0" | (cancel) e ce where "r1 = Some e" "n > 0" "ctxErr ?w2 = Some ce"
    | (again) e where "r1 = Some e" "n > 0" "ctxErr ?w2 = None" by (cases r1; cases "ctxErr ?w2"; auto)
  then show ?case
  proof cases
    case stop
    then have "r = (r1, v1)" "w' = ?w1" using Suc.prems f by (cases r1; simp)+
    moreover have "retry_ok fn call (Suc n) d m w (r1, v1) ?w1 1 0"
      using stop f call by (auto simp: retry_ok_def)
    ultimately show ?thesis by auto
  next
    case cancel
    then have "w' = ?w2" "r = (Some ce, v1)" using Suc.prems f by (simp_all add: Let_def)
    moreover have "retry_ok fn call (Suc n) d m w (Some ce, v1) ?w2 1 1"
      unfolding retry_ok_def v2 using cancel(3)
      by (simp add: ctxErr_def) (metis option.distinct(1))
    ultimately show ?thesis using w2(1) by auto
  next
    case again
    then have "retry_loop name n (next_delay d m) m fn (Some e) v1 ?w2 = (r, w')"
      using Suc.prems f by (simp add: Let_def)
    from Suc.IH[OF this] obtain k j where x: "extends ?w2 w'" and IH: "retry_ok fn call n (next_delay d m) m ?w2 r w' k j"
      by blast
    have a: "added w w' = added w ?w2 @ added ?w2 w'" "extends w w'"
      using added_trans[OF w2(1) x] extends_trans[OF w2(1) x] by simp_all
    have "retry_ok fn call (Suc n) d m w r w' (Suc k) (Suc j)"
      using IH again(2) extends_trans[OF w2(1)]
      unfolding retry_ok_def a(1) waits_simps(2) count_list_append v2 by auto
    then show ?thesis using a(2) by blast
  qed
qed

lemma retry_loop_execs:
  assumes fn: "\<And>v w. snd (fn v w) = emit call w" and call: "execs [call] = []"
  shows "retry_loop name n d m fn lst v w = (r, w') \<Longrightarrow> extends w w' \<and> execs (added w w') = []"
proof (induction n arbitrary: d lst v w)
  case 0
  then show ?case by simp
next
  case (Suc n)
  obtain r1 v1 where f: "fn v w = ((r1, v1), emit call w)" using fn by (metis prod.collapse)
  let ?w1 = "emit call w"
  let ?w2 = "emit (Waited (sint d)) (emit (retry_log name) ?w1)"
  have e: "extends w ?w1" "execs (added w ?w1) = []" "extends w ?w2" "execs (added w ?w2) = []"
    using call execs_simps(2)[of "[call]" "[retry_log name, Waited (sint d)]"]
    by (auto simp: added_def retry_log_def intro: extends_emitI)
  consider (stop) "w' = ?w1 \<or> w' = ?w2"
    | (again) err where "retry_loop name n (next_delay d m) m fn (Some err) v1 ?w2 = (r, w')"
    using Suc.prems f by (cases r1) (auto simp: Let_def split: if_splits option.splits)
  then show ?case
  proof cases
    case stop
    then show ?thesis using e by auto
  next
    case again
    from Suc.IH[OF this] show ?thesis
      using e(3,4) added_trans[OF e(3), of w'] extends_trans[OF e(3), of w'] by simp
  qed
qed

lemma retry_loop_observes:
  assumes "\<And>v w. observes w (snd (fn v w))"
  shows "retry_loop name n d m fn le v w = (r, w') \<Longrightarrow> observes w w'"
proof (induction n arbitrary: d le v w)
  case (Suc n)
  obtain e v1 w1 where f: "fn v w = ((e, v1), w1)" by (metis prod.collapse)
  have 1: "observes w w1" using assms[of w v] f by simp
  show ?case
  proof (cases "e = None \<or> n = 0")
    case True
    then show ?thesis using Suc.prems f 1 by (cases e) auto
  next
    case False
    let ?w2 = "emit (Waited (sint d)) (emit (retry_log name) w1)"
    have 2: "observes w ?w2" using 1 by (auto simp: retry_log_def intro!: observes_emit)
    show ?thesis
      using Suc.prems f False 2 Suc.IH observes_trans[OF 2] by (auto simp: Let_def split: option.splits)
  qed
qed simp

section \<open>Properties\<close>

text \<open>C28. The retry loop keeps its bounds: an operation that can fail is tried at least once and at most
  maxAttempts times; between two tries it waits, and the waits double from the first delay up to
  the cap (which must leave room for one doubling in 64 bits); it returns success only when the
  last try succeeded, and unless it is cancelled it gives up only after all the tries.\<close>

theorem retry_bounds:
  assumes fn: "\<And>v w. snd (fn v w) = emit call w" and "\<And>i. call \<noteq> Waited i" and "\<And>l s. call \<noteq> Logged l s"
    and d: "0 < sint d" "sint d \<le> sint m" "sint m < 2 ^ 62" and "0 < n"
    and run: "Retry name n d m fn v w = (r, w')"
  shows "1 \<le> count_list (added w w') call \<and> count_list (added w w') call \<le> nat n \<and>
    (\<exists>j. waits (added w w') = map (\<lambda>i. min (sint d * 2 ^ i) (sint m)) [0..<j] \<and>
       count_list (added w w') call \<in> {j, Suc j}) \<and>
    (fst r = None \<longrightarrow> (\<exists>v1 w1. fn v1 w1 = (r, w') \<and> extends w w1)) \<and>
    ((\<forall>es. ctx_err w es = None) \<longrightarrow> fst r \<noteq> None \<longrightarrow> count_list (added w w') call = nat n)"
proof -
  have c: "waits [call] = []"
    using assms(2) by (simp add: waits_def map_filter_def split: event.splits)
  have "retry_loop name (nat n) d m fn None v w = (r, w')"
    using run by (simp add: Retry_def)
  from retry_loop_spec[OF fn assms(3,2) c this] obtain k j where
    "retry_ok fn call (nat n) d m w r w' k j" by blast
  then show ?thesis
    unfolding retry_ok_def delays_closed_form[OF d] using \<open>0 < n\<close> by auto
qed

theorem retry_bounds_witness:
  "waits (added (calm_world []) (snd (Retry ''s3'' 3 2000000000 10000000000
      (\<lambda>v w. ((Some ''e'', v), emit (ListBucket ''b'') w)) () (calm_world [])))) = [2000000000, 4000000000] \<and>
   count_list (added (calm_world []) (snd (Retry ''s3'' 3 2000000000 10000000000
      (\<lambda>v w. ((Some ''e'', v), emit (ListBucket ''b'') w)) () (calm_world [])))) (ListBucket ''b'') = 3"
proof -
  let ?fn = "\<lambda>v w. ((Some ''e'', v), emit (ListBucket ''b'') w)"
  obtain r w' where R: "Retry ''s3'' 3 2000000000 10000000000 ?fn () (calm_world []) = (r, w')" by fastforce
  have b: "0 < sint (2000000000 :: 64 word)" "sint (2000000000 :: 64 word) \<le> sint (10000000000 :: 64 word)"
    "sint (10000000000 :: 64 word) < 2 ^ 62" by simp_all
  have c: "\<forall>es. ctx_err (calm_world []) es = None" by (simp add: calm_world_def)
  have P: "fst r \<noteq> None \<longrightarrow> count_list (added (calm_world []) w') (ListBucket ''b'') = nat 3"
    using retry_bounds[OF _ _ _ b _ R, of "ListBucket ''b''"] c by simp
  have "waits (added (calm_world []) (snd (Retry ''s3'' 3 2000000000 10000000000 ?fn () (calm_world [])))) =
      [2000000000, 4000000000]" "fst (fst (Retry ''s3'' 3 2000000000 10000000000 ?fn () (calm_world []))) \<noteq> None"
    by code_simp+
  then show ?thesis using P R by simp
qed

text \<open>
  Two edges of the loop: with no attempt allowed it reports success without trying, and a cap that
  leaves no room for a doubling lets the delay wrap to a negative one, which waits for nothing.
\<close>

lemma retry_no_attempts: "n \<le> 0 \<Longrightarrow> Retry name n d m fn v w = ((None, v), w)"
  by (simp add: Retry_def)

lemma retry_delay_wraps: "sint (next_delay (2 ^ 62) (2 ^ 63 - 1)) < 0"
  by (simp add: next_delay_def)

text \<open>The calls of a sweep and their results, in order.\<close>

inductive called_in_order :: "reconciler_obj list \<Rightarrow> world \<Rightarrow> (string \<times> result) list \<Rightarrow> world \<Rightarrow> bool" where
  called_none: "called_in_order [] w [] w"
| called_next: "rec_run rc w res w1 \<Longrightarrow>
    called_in_order rcs (emit (sweep_log (rec_name rc) res) w1) lg w' \<Longrightarrow>
    called_in_order (rc # rcs) w ((rec_name rc, res) # lg) w'"

lemma sweep_calls:
  "sweep rcs w w' \<Longrightarrow> \<forall>rc \<in> set rcs. reconciler (rec_run rc) \<Longrightarrow> \<forall>es. ctx_err w es = None \<Longrightarrow>
   \<exists>lg. called_in_order rcs w lg w'"
proof (induction rule: sweep.induct)
  case (sweep_end w)
  then show ?case by (auto intro: called_in_order.intros)
next
  case (sweep_cancelled w rc rcs)
  then show ?case by (simp add: cancelled_def ctxErr_def)
next
  case (sweep_step w rc res w1 rcs w')
  then have "ctx_err w1 = ctx_err w" using reconciler.reconcile_env by (metis list.set_intros(1))
  then show ?case using sweep_step by (auto intro: called_in_order.intros)
qed

text \<open>One component cannot stop another: in a sweep that is never cancelled every reconciler is
  called once, in the order of the list and whatever the ones before returned, and after each
  call one line is logged for it, at level warn exactly if the result was not OK.\<close>

lemma sweep_isolates_failures:
  assumes "sweep rcs w w'" and "\<forall>rc \<in> set rcs. reconciler (rec_run rc)" and "\<forall>es. ctx_err w es = None"
  shows "\<exists>lg. called_in_order rcs w lg w' \<and> map fst lg = map rec_name rcs"
proof -
  obtain lg where "called_in_order rcs w lg w'" using sweep_calls[OF assms] by blast
  moreover from this have "map fst lg = map rec_name rcs"
    by (induction rule: called_in_order.induct) auto
  ultimately show ?thesis by blast
qed

lemma sweep_isolates_failures_witness:
  "\<exists>w' (lg :: (string \<times> result) list). sweep [\<lparr>rec_name = ''a'', rec_run = graph_of (\<lambda>w. (res_bad ''down'' 1, w))\<rparr>,
       \<lparr>rec_name = ''b'', rec_run = graph_of (\<lambda>w. (res_ok ''fine'', w))\<rparr>] (calm_world []) w' \<and>
     map fst lg = [''a'', ''b'']"
proof -
  let ?rcs = "[\<lparr>rec_name = ''a'', rec_run = graph_of (\<lambda>w. (res_bad ''down'' 1, w))\<rparr>,
       \<lparr>rec_name = ''b'', rec_run = graph_of (\<lambda>w. (res_ok ''fine'', w))\<rparr>]"
  have r: "\<forall>rc \<in> set ?rcs. reconciler (rec_run rc)"
    by (auto intro!: graph_reconciler)
  obtain w' where s: "sweep ?rcs (calm_world []) w'" using sweep_returns[OF r] by blast
  have "\<forall>es. ctx_err (calm_world []) es = None" by (simp add: calm_world_def)
  from sweep_isolates_failures[OF s r this] obtain lg :: "(string \<times> result) list"
    where "map fst lg = map rec_name ?rcs" by blast
  then have "map fst lg = [''a'', ''b'']" by (simp only: list.map reconciler_obj.simps)
  with s show ?thesis by (intro exI conjI)
qed

end
