(* ===== verification/Rsync.thy ===== *)
theory Rsync
  imports Config_Props Reconciler
begin

text \<open>
  The two components that mirror directories with rsync: \<open>internal/reconciler/gitrsync\<close> (one tree)
  and \<open>internal/reconciler/fsstorage\<close> (a list of path pairs), and the wrapper
  \<open>internal/localcmd\<close> they run it through. The runner they hold is the real one, so a local
  command is an event; \<open>WithRunner\<close> exists for tests and is left out.
\<close>

section \<open>Running a local command (localcmd)\<close>

definition RunWith ::
    "string \<Rightarrow> string list \<Rightarrow> string list \<Rightarrow> world \<Rightarrow> (string \<times> string option) \<times> world" where
  "RunWith name args env w = exec_cmd name args env w"

text \<open>The arguments of an rsync from the primary: both components build the same list.\<close>

definition rsync_args :: "ssh_config \<Rightarrow> bool \<Rightarrow> string \<Rightarrow> string \<Rightarrow> string \<Rightarrow> string list" where
  "rsync_args cfg dryRun sshHost src dst =
     [''-az'', ''--delete'', ''--checksum'', ''-e'', SSHString cfg, ''--rsync-path'', ''sudo rsync''] @
     (if dryRun then [''--dry-run''] else []) @
     [sshHost @ '':'' @ src @ ''/'', dst @ ''/'']"

section \<open>gitrsync\<close>

record git_rsync =
  gr_sshHost :: string
  gr_srcPath :: string
  gr_dstPath :: string
  gr_sshCfg :: ssh_config
  gr_dryRun :: bool

definition gr_name :: string where "gr_name = ''git_rsync''"

definition gr_New :: "SiteConfig \<Rightarrow> SiteConfig \<Rightarrow> bool \<Rightarrow> ssh_config \<Rightarrow> git_rsync" where
  "gr_New primary secondary dryRun sshCfg =
     \<lparr>gr_sshHost = site_SSHHost primary, gr_srcPath = git_ReposPath (site_Git primary),
      gr_dstPath = git_ReposPath (site_Git secondary), gr_sshCfg = sshCfg, gr_dryRun = dryRun\<rparr>"

definition errResult :: "string option \<Rightarrow> string" where
  "errResult err = (if err \<noteq> None then ''error'' else ''ok'')"

definition gr_args :: "git_rsync \<Rightarrow> string list" where
  "gr_args r = rsync_args (gr_sshCfg r) (gr_dryRun r) (gr_sshHost r) (gr_srcPath r) (gr_dstPath r)"

definition gr_Reconcile :: "git_rsync \<Rightarrow> world \<Rightarrow> result \<times> world" where
  "gr_Reconcile r w =
     (case RunWith ''rsync'' (gr_args r) [] w of
        ((out, err), w1) \<Rightarrow>
          (let el = elapsed w1; w2 = emit (Metric (SyncDuration gr_name (errResult err))) w1
           in case err of
                Some e \<Rightarrow>
                  (res_bad (''rsync failed: '' @ e @ '': '' @ trim_space out) 1,
                   emit (Metric (DriftTotal gr_name ''critical'')) w2)
              | None \<Rightarrow>
                  (res_ok (''rsync ok in '' @ el @ (if gr_dryRun r then '' (dry-run)'' else [])),
                   emit (Metric (LastSync gr_name)) w2)))"

section \<open>fsstorage\<close>

record PathPair =
  Src :: string
  Dst :: string

record fs_storage =
  fs_sshHost :: string
  fs_sshCfg :: ssh_config
  fs_pathPairs :: "PathPair list"
  fs_dryRun :: bool

definition fs_name :: string where "fs_name = ''fs_storage''"

definition registry_pair :: "SiteConfig \<Rightarrow> SiteConfig \<Rightarrow> PathPair list" where
  "registry_pair primary secondary =
     (case site_Registry primary of
        None \<Rightarrow> []
      | Some reg \<Rightarrow>
          if reg_Mode reg = ''fs'' \<and> reg_FSPath reg \<noteq> []
          then [\<lparr>Src = reg_FSPath reg,
                 Dst = (case site_Registry secondary of
                          Some sreg \<Rightarrow> if reg_FSPath sreg \<noteq> [] then reg_FSPath sreg else reg_FSPath reg
                        | None \<Rightarrow> reg_FSPath reg)\<rparr>]
          else [])"

definition fs_New :: "SiteConfig \<Rightarrow> SiteConfig \<Rightarrow> bool \<Rightarrow> ssh_config \<Rightarrow> fs_storage" where
  "fs_New primary secondary dryRun sshCfg =
     \<lparr>fs_sshHost = site_SSHHost primary, fs_sshCfg = sshCfg,
      fs_pathPairs = map (\<lambda>p. \<lparr>Src = p, Dst = p\<rparr>) (os_FSPaths (site_ObjectStore primary)) @
                     registry_pair primary secondary,
      fs_dryRun = dryRun\<rparr>"

definition fs_args :: "fs_storage \<Rightarrow> PathPair \<Rightarrow> string list" where
  "fs_args r pair = rsync_args (fs_sshCfg r) (fs_dryRun r) (fs_sshHost r) (Src pair) (Dst pair)"

text \<open>An error whose output speaks of a missing file or directory is no error.\<close>

definition missing_dir :: "string \<Rightarrow> bool" where
  "missing_dir errStr \<longleftrightarrow>
     str_contains errStr ''No such file or directory'' \<or> str_contains errStr ''change_dir''"

definition rsyncPath :: "fs_storage \<Rightarrow> PathPair \<Rightarrow> step" where
  "rsyncPath r pair w =
     (case RunWith ''rsync'' (fs_args r pair) [] w of
        ((out, None), w1) \<Rightarrow> (None, w1)
      | ((out, Some e), w1) \<Rightarrow>
          (if missing_dir (trim_space out) then None
           else Some (''rsync '' @ Src pair @ '': '' @ e @ '': '' @ trim_space out), w1))"

text \<open>The loop: None when it stopped at a cancellation, else the failed and repaired counts.\<close>

fun fs_loop :: "fs_storage \<Rightarrow> PathPair list \<Rightarrow> int \<Rightarrow> int \<Rightarrow> world \<Rightarrow> (int \<times> int) option \<times> world" where
  "fs_loop r [] failed repaired w = (Some (failed, repaired), w)"
| "fs_loop r (pair # pairs) failed repaired w =
     (if cancelled w then (None, w)
      else (case rsyncPath r pair w of
              (Some e, w1) \<Rightarrow>
                fs_loop r pairs (failed + 1) repaired
                  (emit (Metric (DriftTotal (fs_name @ '':'' @ Src pair) ''critical'')) w1)
            | (None, w1) \<Rightarrow> fs_loop r pairs failed (repaired + 1) w1))"

definition fs_report :: "fs_storage \<Rightarrow> int \<Rightarrow> int \<Rightarrow> world \<Rightarrow> result \<times> world" where
  "fs_report r failed repaired w =
     (let el = elapsed w; n = itoa (int (length (fs_pathPairs r)));
          w1 = emit (Metric (SyncDuration fs_name (if failed > 0 then ''error'' else ''ok''))) w
      in if failed > 0
         then (\<lparr>OK = False, Lag = 0,
                Detail = ''rsynced '' @ itoa repaired @ ''/'' @ n @ '' paths in '' @ el @ '' ('' @
                         itoa failed @ '' failed)'',
                Repaired = repaired, Remaining = failed\<rparr>, w1)
         else (\<lparr>OK = True, Lag = 0, Detail = ''rsynced '' @ n @ '' paths in '' @ el,
                Repaired = repaired, Remaining = 0\<rparr>, emit (Metric (LastSync fs_name)) w1))"

definition fs_Reconcile :: "fs_storage \<Rightarrow> world \<Rightarrow> result \<times> world" where
  "fs_Reconcile r w =
     (if fs_pathPairs r = [] then (res_ok ''no fs paths configured'', w)
      else (case fs_loop r (fs_pathPairs r) 0 0 w of
              (None, w1) \<Rightarrow> (res_bad ''cancelled'' (int (length (fs_pathPairs r))), w1)
            | (Some (failed, repaired), w1) \<Rightarrow> fs_report r failed repaired w1))"

section \<open>Lemmas\<close>

lemma gr_world:
  "\<exists>m. snd (gr_Reconcile r w) =
     emit m (emit (Metric (SyncDuration gr_name (errResult (snd (cmd_reply w (trace w) ''rsync'' (gr_args r) [])))))
       (emit (Exec ''rsync'' (gr_args r) []) w)) \<and>
     m = Metric (if snd (cmd_reply w (trace w) ''rsync'' (gr_args r) []) = None then LastSync gr_name
                 else DriftTotal gr_name ''critical'')"
  by (simp add: gr_Reconcile_def RunWith_def exec_cmd_def Let_def split: prod.splits option.splits)

lemma gr_ok:
  "OK (fst (gr_Reconcile r w)) \<longleftrightarrow> snd (cmd_reply w (trace w) ''rsync'' (gr_args r) []) = None"
  "OK (fst (gr_Reconcile r w)) \<Longrightarrow> Remaining (fst (gr_Reconcile r w)) = 0"
  by (auto simp: gr_Reconcile_def RunWith_def exec_cmd_def Let_def split: prod.splits option.splits)

interpretation git_rsync_rec: strict_reconciler "graph_of (gr_Reconcile r)" for r
proof unfold_locales
  show "graph_of (gr_Reconcile r) w res w' \<Longrightarrow> extends w w'" for w res w'
    using gr_world[of r w] by (auto simp: graph_of_def extends_emitI)
  show "\<exists>res w'. graph_of (gr_Reconcile r) w res w'" for w
    unfolding graph_of_def by (metis prod.collapse)
  show "graph_of (gr_Reconcile r) w res w' \<Longrightarrow> OK res \<Longrightarrow> Remaining res = 0" for w res w'
    using gr_ok(2)[of r w] by (simp add: graph_of_def)
qed

interpretation git_rsync_confined: confined_reconciler "graph_of (gr_Reconcile r)" "{(''rsync'', gr_args r)}" for r
proof unfold_locales
  show "graph_of (gr_Reconcile r) w res w' \<Longrightarrow> set (execs (added w w')) \<subseteq> {(''rsync'', gr_args r)}" for w res w'
    using gr_world[of r w] by (auto simp: graph_of_def added_def)
qed


lemma rsyncPath_world: "snd (rsyncPath r pair w) = emit (Exec ''rsync'' (fs_args r pair) []) w"
  by (simp add: rsyncPath_def RunWith_def exec_cmd_def split: prod.splits option.splits)

lemma rsyncPath_cases:
  obtains e where "rsyncPath r pair w = (e, emit (Exec ''rsync'' (fs_args r pair) []) w)"
  using rsyncPath_world by (metis prod.collapse)

text \<open>The pairs a run of the loop failed on, as its drift counters name them.\<close>

definition fs_drifts :: "event list \<Rightarrow> nat" where
  "fs_drifts es = length (filter (\<lambda>e. \<exists>c. e = Metric (DriftTotal c ''critical'')) es)"

lemma fs_drifts_append [simp]: "fs_drifts (xs @ ys) = fs_drifts xs + fs_drifts ys"
  by (simp add: fs_drifts_def)

lemma fs_loop_spec:
  assumes "fs_loop r pairs f0 p0 w = (res, w')"
  shows "extends w w' \<and>
    (\<exists>done rest. pairs = done @ rest \<and>
       execs (added w w') = map (\<lambda>p. (''rsync'', fs_args r p)) done \<and>
       (res = None \<longrightarrow> rest \<noteq> [] \<and> cancelled w') \<and>
       (\<forall>f p. res = Some (f, p) \<longrightarrow> rest = [] \<and> f = f0 + int (fs_drifts (added w w')) \<and>
          f + p = f0 + p0 + int (length pairs) \<and> p0 \<le> p))"
  using assms
proof (induction pairs arbitrary: f0 p0 w)
  case Nil
  then show ?case by (auto simp: fs_drifts_def)
next
  case (Cons pair pairs)
  show ?case
  proof (cases "cancelled w")
    case True
    then show ?thesis using Cons.prems by (auto intro!: exI[of _ "[]"])
  next
    case False
    let ?w1 = "emit (Exec ''rsync'' (fs_args r pair) []) w"
    let ?w2 = "emit (Metric (DriftTotal (fs_name @ '':'' @ Src pair) ''critical'')) ?w1"
    obtain e where e: "rsyncPath r pair w = (e, ?w1)" by (rule rsyncPath_cases)
    define v where "v = (if e = None then ?w1 else ?w2)"
    have run: "fs_loop r pairs (if e = None then f0 else f0 + 1) (if e = None then p0 + 1 else p0) v = (res, w')"
      using Cons.prems False e by (cases e) (simp_all add: v_def)
    have v: "extends w v" "execs (added w v) = [(''rsync'', fs_args r pair)]"
      "int (fs_drifts (added w v)) = (if e = None then 0 else 1)"
      by (auto simp: v_def added_emitI fs_drifts_def intro: extends_emitI)
    from Cons.IH[OF run] obtain dn rest where IH: "extends v w'" "pairs = dn @ rest"
      "execs (added v w') = map (\<lambda>p. (''rsync'', fs_args r p)) dn"
      "res = None \<longrightarrow> rest \<noteq> [] \<and> cancelled w'"
      "\<forall>f p. res = Some (f, p) \<longrightarrow> rest = [] \<and>
         f = (if e = None then f0 else f0 + 1) + int (fs_drifts (added v w')) \<and>
         f + p = (if e = None then f0 else f0 + 1) + (if e = None then p0 + 1 else p0) + int (length pairs) \<and>
         (if e = None then p0 + 1 else p0) \<le> p" by blast
    have a: "added w w' = added w v @ added v w'" "extends w w'"
      using added_trans[OF v(1) IH(1)] extends_trans[OF v(1) IH(1)] by simp_all
    have "\<forall>f p. res = Some (f, p) \<longrightarrow> rest = [] \<and> f = f0 + int (fs_drifts (added w w')) \<and>
        f + p = f0 + p0 + int (length (pair # pairs)) \<and> p0 \<le> p"
      using IH(5) v(3) a(1) by (auto split: if_splits)
    moreover have "pair # pairs = (pair # dn) @ rest"
      "execs (added w w') = map (\<lambda>p. (''rsync'', fs_args r p)) (pair # dn)"
      using IH(2,3) v(2) a(1) by simp_all
    ultimately show ?thesis using a(2) IH(4) by blast
  qed
qed

lemma fs_report_spec:
  assumes "fs_report r f p w = (res, w')" and "0 \<le> f"
  shows "extends w w' \<and> execs (added w w') = [] \<and> fs_drifts (added w w') = 0 \<and>
    (OK res \<longleftrightarrow> f = 0) \<and> Remaining res = f \<and> Repaired res = p"
  using assms
  by (auto simp: fs_report_def Let_def added_emitI fs_drifts_def split: if_splits intro: extends_emitI)

lemma fs_Reconcile_spec:
  assumes "fs_Reconcile r w = (res, w')"
  obtains (cancelled) k where "k < length (fs_pathPairs r)" "extends w w'" "cancelled w'" "\<not> OK res"
      "execs (added w w') = map (\<lambda>p. (''rsync'', fs_args r p)) (take k (fs_pathPairs r))"
      "Remaining res = int (length (fs_pathPairs r))"
    | (ran) "extends w w'"
      "execs (added w w') = map (\<lambda>p. (''rsync'', fs_args r p)) (fs_pathPairs r)"
      "Remaining res = int (fs_drifts (added w w'))"
      "Repaired res + Remaining res = int (length (fs_pathPairs r))" "0 \<le> Repaired res"
      "OK res \<longleftrightarrow> Remaining res = 0"
proof (cases "fs_pathPairs r = []")
  case True
  then have "res = res_ok ''no fs paths configured''" "w' = w"
    using assms by (simp_all add: fs_Reconcile_def)
  then show thesis using True by (intro ran) (simp_all add: fs_drifts_def)
next
  case False
  obtain ct w1 where l: "fs_loop r (fs_pathPairs r) 0 0 w = (ct, w1)" by fastforce
  from fs_loop_spec[OF l] obtain dn rest where L: "extends w w1" "fs_pathPairs r = dn @ rest"
    "execs (added w w1) = map (\<lambda>p. (''rsync'', fs_args r p)) dn"
    "ct = None \<longrightarrow> rest \<noteq> [] \<and> cancelled w1"
    "\<forall>f p. ct = Some (f, p) \<longrightarrow> rest = [] \<and> f = 0 + int (fs_drifts (added w w1)) \<and>
       f + p = 0 + 0 + int (length (fs_pathPairs r)) \<and> 0 \<le> p" by blast
  show thesis
  proof (cases ct)
    case None
    then have "res = res_bad ''cancelled'' (int (length (fs_pathPairs r)))" "w' = w1"
      using assms l False by (simp_all add: fs_Reconcile_def)
    then show thesis
      using L None by (intro cancelled[of "length dn"]) auto
  next
    case (Some fp)
    obtain f p where fp: "fp = (f, p)" by fastforce
    have rep: "fs_report r f p w1 = (res, w')"
      using assms l False Some fp by (simp add: fs_Reconcile_def)
    have f: "rest = []" "f = int (fs_drifts (added w w1))" "f + p = int (length (fs_pathPairs r))" "0 \<le> p"
      using L(5) Some fp by simp_all
    note R = fs_report_spec[OF rep]
    have x: "extends w1 w'" using R f(2) by simp
    note a = added_trans[OF L(1) x] extends_trans[OF L(1) x]
    have R': "execs (added w1 w') = []" "fs_drifts (added w1 w') = 0" "OK res \<longleftrightarrow> f = 0"
      "Remaining res = f" "Repaired res = p"
      using R f(2) by simp_all
    show thesis
    proof (rule ran[OF a(2)])
      show "execs (added w w') = map (\<lambda>p. (''rsync'', fs_args r p)) (fs_pathPairs r)"
        unfolding a(1) using L(2,3) R'(1) f(1) by simp
      show "Remaining res = int (fs_drifts (added w w'))"
        unfolding a(1) using R'(2,4) f(2) by simp
    qed (use R' f in simp_all)
  qed
qed

interpretation fs_storage_rec: strict_reconciler "graph_of (fs_Reconcile r)" for r
proof unfold_locales
  show "graph_of (fs_Reconcile r) w res w' \<Longrightarrow> extends w w'" for w res w'
    unfolding graph_of_def by (erule fs_Reconcile_spec)
  show "\<exists>res w'. graph_of (fs_Reconcile r) w res w'" for w
    unfolding graph_of_def by (metis prod.collapse)
  show "graph_of (fs_Reconcile r) w res w' \<Longrightarrow> OK res \<Longrightarrow> Remaining res = 0" for w res w'
    unfolding graph_of_def by (erule fs_Reconcile_spec) simp_all
qed

interpretation fs_storage_confined: confined_reconciler "graph_of (fs_Reconcile r)"
    "(\<lambda>p. (''rsync'', fs_args r p)) ` set (fs_pathPairs r)" for r
proof unfold_locales
  fix w res w'
  assume "graph_of (fs_Reconcile r) w res w'"
  then have "fs_Reconcile r w = (res, w')" by (simp add: graph_of_def)
  then show "set (execs (added w w')) \<subseteq> (\<lambda>p. (''rsync'', fs_args r p)) ` set (fs_pathPairs r)"
    by (cases rule: fs_Reconcile_spec) (auto dest: in_set_takeD)
qed

interpretation git_rsync_reads: reading_reconciler "graph_of (gr_Reconcile r)" for r
proof unfold_locales
  show "graph_of (gr_Reconcile r) w res w' \<Longrightarrow> observes w w'" for w res w'
    using gr_world[of r w] by (auto simp: graph_of_def intro!: observes_emit)
qed

lemma fs_loop_observes: "fs_loop r pairs f p w = (res, w') \<Longrightarrow> observes w w'"
proof (induction pairs arbitrary: f p w)
  case (Cons pair pairs)
  let ?w1 = "emit (Exec ''rsync'' (fs_args r pair) []) w"
  let ?m = "Metric (DriftTotal (fs_name @ '':'' @ Src pair) ''critical'')"
  obtain e where e: "rsyncPath r pair w = (e, ?w1)" by (rule rsyncPath_cases)
  have 1: "observes w ?w1" by (simp add: observes_emits)
  consider "w' = w" | f p where "fs_loop r pairs f p ?w1 = (res, w')" | f p where "fs_loop r pairs f p (emit ?m ?w1) = (res, w')"
    using Cons.prems e by (cases e) (auto split: if_splits)
  then show ?case
  proof cases
    case 2
    then show ?thesis by (rule observes_trans[OF 1 Cons.IH])
  next
    case 3
    then show ?thesis by (rule observes_trans[OF observes_emit[OF 1] Cons.IH, rotated]) simp
  qed simp
qed simp

interpretation fs_storage_reads: reading_reconciler "graph_of (fs_Reconcile r)" for r
proof unfold_locales
  fix w res w'
  obtain ct w1 where l: "fs_loop r (fs_pathPairs r) 0 0 w = (ct, w1)" by fastforce
  have 1: "observes w w1" by (rule fs_loop_observes[OF l])
  show "graph_of (fs_Reconcile r) w res w' \<Longrightarrow> observes w w'"
    using l 1 by (auto simp: graph_of_def fs_Reconcile_def fs_report_def Let_def split: if_splits option.splits prod.splits
        intro!: observes_emit)
qed

section \<open>Properties\<close>

text \<open>The git mirror does one thing: a run of it executes exactly one rsync, from the primary's
  repositories to the secondary's, with the dry-run flag exactly in a dry run, and is OK exactly
  if that command succeeded; a failure raises one critical drift, a success updates the time of
  the last sync.\<close>

lemma git_rsync_exact:
  "execs (added w (snd (gr_Reconcile r w))) = [(''rsync'',
      [''-az'', ''--delete'', ''--checksum'', ''-e'', SSHString (gr_sshCfg r), ''--rsync-path'', ''sudo rsync''] @
      (if gr_dryRun r then [''--dry-run''] else []) @
      [gr_sshHost r @ '':'' @ gr_srcPath r @ ''/'', gr_dstPath r @ ''/''])] \<and>
   (OK (fst (gr_Reconcile r w)) \<longleftrightarrow> snd (cmd_reply w (trace w) ''rsync'' (gr_args r) []) = None) \<and>
   drift_count ''git_rsync'' ''critical'' (added w (snd (gr_Reconcile r w))) =
     (if OK (fst (gr_Reconcile r w)) then 0 else 1) \<and>
   (Metric (LastSync ''git_rsync'') \<in> set (added w (snd (gr_Reconcile r w))) \<longleftrightarrow> OK (fst (gr_Reconcile r w)))"
proof -
  let ?e = "snd (cmd_reply w (trace w) ''rsync'' (gr_args r) [])"
  let ?m = "Metric (if ?e = None then LastSync gr_name else DriftTotal gr_name ''critical'')"
  have w: "added w (snd (gr_Reconcile r w)) =
      [Exec ''rsync'' (gr_args r) [], Metric (SyncDuration gr_name (errResult ?e)), ?m]"
    using gr_world[of r w] by (auto simp: added_def)
  show ?thesis
    unfolding w gr_ok(1) by (simp add: gr_args_def rsync_args_def drift_count_def gr_name_def)
qed

text \<open>C36. The file mirror accounts for every path: a sweep over the pairs that is not cancelled runs one
  rsync per pair, in order, whatever the others did; the repaired and the remaining add up to the
  number of pairs, the remaining are the failures, each with one critical drift, and the result
  is OK exactly if none remains. A cancelled sweep is not OK and has run a strict prefix.\<close>

theorem fs_storage_accounts:
  assumes "fs_Reconcile r w = (res, w')"
  shows "(cancelled w' \<and> \<not> OK res \<and> Remaining res = int (length (fs_pathPairs r)) \<and>
      (\<exists>k < length (fs_pathPairs r). execs (added w w') =
         map (\<lambda>p. (''rsync'', fs_args r p)) (take k (fs_pathPairs r)))) \<or>
    (execs (added w w') = map (\<lambda>p. (''rsync'', fs_args r p)) (fs_pathPairs r) \<and>
     Repaired res + Remaining res = int (length (fs_pathPairs r)) \<and>
     Remaining res = int (fs_drifts (added w w')) \<and> (OK res \<longleftrightarrow> Remaining res = 0))"
  using assms
proof (cases rule: fs_Reconcile_spec)
  case (cancelled k)
  then show ?thesis by blast
next
  case ran
  then show ?thesis by blast
qed

definition sample_fs :: fs_storage where
  "sample_fs = fs_New (sample_site ''eu'') (sample_site ''us'') False ssh_Default"

theorem fs_storage_accounts_witness:
  "OK (fst (fs_Reconcile sample_fs (calm_world []))) \<and>
   execs (added (calm_world []) (snd (fs_Reconcile sample_fs (calm_world [])))) =
     map (\<lambda>p. (''rsync'', fs_args sample_fs p)) (fs_pathPairs sample_fs)"
proof -
  obtain res w' where R: "fs_Reconcile sample_fs (calm_world []) = (res, w')" by fastforce
  have ok: "OK (fst (fs_Reconcile sample_fs (calm_world [])))"
    by code_simp
  show ?thesis
    using fs_storage_accounts[OF R] ok unfolding R fst_conv snd_conv by blast
qed

text \<open>The destination is a local path and the source is on the primary: nothing is sent back.\<close>

lemma rsync_direction:
  "last (rsync_args cfg dry h src dst) = dst @ ''/''"
  "last (butlast (rsync_args cfg dry h src dst)) = h @ '':'' @ src @ ''/''"
  by (simp_all add: rsync_args_def butlast_append)

text \<open>
  How rsync reads its remote operand, as its manual says: the host ends at the first colon, the
  rest is the path. The comment in \<open>config.go\<close>, the example configuration and the wizard all give
  \<open>ssh_host\<close> as host and port; then the port becomes the start of the path.
\<close>

definition rsync_operand :: "string \<Rightarrow> string \<times> string" where
  "rsync_operand s = (takeWhile (\<lambda>c. c \<noteq> CHR '':'') s, drop 1 (dropWhile (\<lambda>c. c \<noteq> CHR '':'') s))"

lemma rsync_reads_bare_host:
  assumes "CHR '':'' \<notin> set h"
  shows "rsync_operand (last (butlast (rsync_args cfg dry h src dst))) = (h, src @ ''/'')"
proof -
  have "\<And>c. c \<in> set h \<Longrightarrow> c \<noteq> CHR '':''" using assms by blast
  then show ?thesis
    unfolding rsync_direction(2) rsync_operand_def by (simp add: takeWhile_append2 dropWhile_append2)
qed

lemma rsync_port_becomes_path:
  assumes "CHR '':'' \<notin> set h"
  shows "rsync_operand (last (butlast (rsync_args cfg dry (h @ '':'' @ port) src dst))) =
    (h, port @ '':'' @ src @ ''/'')"
proof -
  have "\<And>c. c \<in> set h \<Longrightarrow> c \<noteq> CHR '':''" using assms by blast
  then show ?thesis
    unfolding rsync_direction(2) rsync_operand_def by (simp add: takeWhile_append2 dropWhile_append2)
qed

text \<open>
  A source that does not exist counts as copied: here every rsync fails for lack of its source, and
  the sweep is OK with every path repaired.
\<close>

definition missing_world :: world where
  "missing_world = calm_world []\<lparr>cmd_reply := (\<lambda>_ _ _ _.
     (''rsync: change_dir failed: No such file or directory (2)'', Some ''exit status 23''))\<rparr>"

lemma missing_sources_count_as_copied:
  "OK (fst (fs_Reconcile sample_fs missing_world)) \<and>
   Repaired (fst (fs_Reconcile sample_fs missing_world)) = int (length (fs_pathPairs sample_fs)) \<and>
   fs_pathPairs sample_fs \<noteq> []"
  by code_simp

end

