(* ===== verification/Projectpath.thy ===== *)
theory Projectpath
  imports Geo_Prelude
begin

text \<open>
  \<open>internal/projectpath/projectpath.go\<close>: the check every project path goes through before it is
  used in a file name or an SSH URL.
\<close>

section \<open>The code\<close>

datatype path_error =
    PathEmpty
  | PathLeadingSlash
  | PathBackslash
  | PathNUL
  | EmptySegment
  | TraversalSegment string
  | InvalidChars string

definition path_char :: "char \<Rightarrow> bool" where
  "path_char c \<longleftrightarrow> is_alnum c \<or> c = CHR ''_'' \<or> c = CHR ''.'' \<or> c = CHR ''-'' \<or> c = CHR ''/''"

definition validPathRe :: "string \<Rightarrow> bool" where
  "validPathRe s = (case s of [] \<Rightarrow> False | c # t \<Rightarrow> is_alnum c \<and> list_all path_char t)"

text \<open>The loop over the segments: the first offending segment decides.\<close>

fun check_segments :: "string list \<Rightarrow> path_error option" where
  "check_segments [] = None"
| "check_segments (seg # segs) =
     (if seg = [] then Some EmptySegment
      else if seg = ''.'' \<or> seg = ''..'' then Some (TraversalSegment seg)
      else check_segments segs)"

definition Validate :: "string \<Rightarrow> path_error option" where
  "Validate path =
     (if path = [] then Some PathEmpty
      else if has_prefix path ''/'' then Some PathLeadingSlash
      else if str_contains path [CHR 0x5C] then Some PathBackslash
      else if str_contains path [CHR 0x00] then Some PathNUL
      else (case check_segments (split_on (CHR ''/'') path) of
              Some e \<Rightarrow> Some e
            | None \<Rightarrow> if \<not> validPathRe path then Some (InvalidChars path) else None))"

section \<open>Lemmas\<close>

definition safe_segment :: "string \<Rightarrow> bool" where
  "safe_segment s \<longleftrightarrow> s \<noteq> [] \<and> s \<noteq> ''.'' \<and> s \<noteq> ''..''"

lemma check_segments_None: "check_segments segs = None \<longleftrightarrow> (\<forall>s \<in> set segs. safe_segment s)"
  by (induction segs) (auto simp: safe_segment_def)

lemma path_char_excludes: "path_char c \<Longrightarrow> c \<noteq> CHR 0x5C \<and> c \<noteq> CHR 0x00 \<and> c \<noteq> CHR '' '' \<and> c \<noteq> CHR '':''"
  by (auto simp: path_char_def char_class_defs)

lemma alnum_path_char: "is_alnum c \<Longrightarrow> path_char c \<and> c \<noteq> CHR ''/''"
  by (auto simp: path_char_def char_class_defs)

lemma Validate_None:
  "Validate p = None \<longleftrightarrow>
     p \<noteq> [] \<and> is_alnum (hd p) \<and> (\<forall>c \<in> set p. path_char c) \<and>
     (\<forall>s \<in> set (split_on (CHR ''/'') p). safe_segment s)"
proof (cases p)
  case Nil
  then show ?thesis by (simp add: Validate_def)
next
  case (Cons c t)
  have "validPathRe p \<Longrightarrow> c \<noteq> CHR ''/'' \<and> CHR 0x5C \<notin> set p \<and> CHR 0x00 \<notin> set p"
    using Cons by (auto simp: validPathRe_def list_all_iff dest: path_char_excludes alnum_path_char)
  moreover have "validPathRe p \<longleftrightarrow> is_alnum (hd p) \<and> (\<forall>c \<in> set p. path_char c)"
    using Cons by (auto simp: validPathRe_def list_all_iff alnum_path_char)
  ultimately show ?thesis
    using Cons by (auto simp: Validate_def check_segments_None[symmetric] split: option.splits)
qed

lemma str_join_append:
  "xs \<noteq> [] \<Longrightarrow> ys \<noteq> [] \<Longrightarrow> str_join sep (xs @ ys) = str_join sep xs @ sep @ str_join sep ys"
proof (induction xs)
  case Nil
  then show ?case by simp
next
  case (Cons x xs)
  show ?case
  proof (cases "xs = []")
    case True
    then show ?thesis using Cons.prems str_join_Cons[of ys sep x] by simp
  next
    case False
    then have "str_join sep (x # xs @ ys) = x @ sep @ str_join sep (xs @ ys)"
      "str_join sep (x # xs) = x @ sep @ str_join sep xs"
      by (simp_all only: str_join_Cons append_is_Nil_conv not_False_eq_True simp_thms)
    then show ?thesis using Cons.IH Cons.prems False by simp
  qed
qed

lemma rendered_path:
  assumes "p = (let r = (if b then ''/'' else []) @ str_join ''/'' A in if r = [] then ''.'' else r)"
    and "p \<noteq> ''/''" "p \<noteq> ''.''"
  shows "A \<noteq> []" and "p = (if b then ''/'' else []) @ str_join ''/'' A"
  using assms by (cases b; cases A; simp add: Let_def split: if_splits)+

text \<open>Joining a base with a path of safe segments changes nothing but the base.\<close>

lemma path_join_safe:
  assumes base: "base \<noteq> []" "path_clean base \<noteq> ''/''" "path_clean base \<noteq> ''.''"
    and q: "\<forall>s \<in> set (split_on (CHR ''/'') q). safe_segment s"
  shows "path_join [base, q] = path_clean base @ ''/'' @ q"
proof -
  let ?r = "has_prefix base ''/''"
  let ?A = "clean_segs ?r [] (split_on (CHR ''/'') base)"
  have "q \<noteq> []"
  proof
    assume "q = []"
    with q show False by (simp add: safe_segment_def)
  qed
  have pc: "path_clean base = (let r = (if ?r then ''/'' else []) @ str_join ''/'' ?A in if r = [] then ''.'' else r)"
    by (simp only: path_clean_def Let_def)
  note A = rendered_path(1)[OF pc base(2,3)]
  have r: "has_prefix (base @ ''/'' @ q) ''/'' = ?r"
    using base(1) by (cases base) auto
  have "split_on (CHR ''/'') (base @ ''/'' @ q) = split_on (CHR ''/'') base @ split_on (CHR ''/'') q"
    using split_on_append_sep[of "CHR ''/''" base q] by simp
  then have c: "clean_segs ?r [] (split_on (CHR ''/'') (base @ ''/'' @ q)) = ?A @ split_on (CHR ''/'') q"
    using q by (auto simp: clean_segs_append safe_segment_def)
  note rendered_path(2)[OF pc base(2,3)]
  moreover have "path_clean (base @ ''/'' @ q) =
      (if ?r then ''/'' else []) @ str_join ''/'' ?A @ ''/'' @ q"
    unfolding path_clean_def Let_def r c
    using A \<open>q \<noteq> []\<close> by (simp add: str_join_append del: has_prefix_Cons)
  ultimately show ?thesis
    using base(1) \<open>q \<noteq> []\<close> by (simp add: path_join_def)
qed

lemma split_on_snoc_text:
  assumes "c \<notin> set t"
  shows "split_on c (p @ t) = butlast (split_on c p) @ [last (split_on c p) @ t]"
  using assms
proof (induction p)
  case Nil
  then show ?case by (simp add: split_on_id)
next
  case (Cons x p)
  then show ?case by (auto split: list.splits)
qed

lemma safe_git_suffix:
  assumes "\<forall>s \<in> set (split_on (CHR ''/'') p). safe_segment s"
  shows "\<forall>s \<in> set (split_on (CHR ''/'') (p @ ''.git'')). safe_segment s"
proof
  fix s
  assume "s \<in> set (split_on (CHR ''/'') (p @ ''.git''))"
  then consider "s \<in> set (butlast (split_on (CHR ''/'') p))" | "s = last (split_on (CHR ''/'') p) @ ''.git''"
    using split_on_snoc_text[of "CHR ''/''" "''.git''" p] by auto
  then show "safe_segment s"
  proof cases
    case 1
    then show ?thesis using assms by (meson in_set_butlastD)
  next
    case 2
    then show ?thesis by (auto simp: safe_segment_def append_eq_Cons_conv)
  qed
qed

section \<open>Properties\<close>

text \<open>C18. The validator accepts exactly the documented grammar: non-empty, an alphanumeric first
  character, only letters, digits, underscore, dot, hyphen and slash, and every segment non-empty
  and not a dot or double dot.\<close>

theorem validate_accepts_iff:
  "Validate p = None \<longleftrightarrow>
     p \<noteq> [] \<and> is_alnum (hd p) \<and> list_all path_char p \<and>
     list_all (\<lambda>s. s \<noteq> [] \<and> s \<noteq> ''.'' \<and> s \<noteq> ''..'') (split_on (CHR ''/'') p)"
  using Validate_None[of p] by (simp only: safe_segment_def list_all_iff)

text \<open>C19. No traversal: joining the repositories directory with an accepted path and the .git suffix,
  as git fetch and rsync do, stays below that directory and spells the path unchanged.\<close>

theorem valid_path_confined:
  assumes "Validate p = None"
    and "base \<noteq> []" "path_clean base \<noteq> ''/''" "path_clean base \<noteq> ''.''"
  shows "path_join [base, p @ ''.git''] = path_clean base @ ''/'' @ p @ ''.git''"
  using assms path_join_safe[of base "p @ ''.git''"] safe_git_suffix[of p] by (simp add: Validate_None)

theorem valid_path_confined_witness:
  "path_join [''/data//repos/'', ''my-group/sub.x/app'' @ ''.git''] =
   ''/data/repos'' @ ''/'' @ ''my-group/sub.x/app'' @ ''.git''"
proof -
  have c: "path_clean ''/data//repos/'' = ''/data/repos''"
    by code_simp
  have "Validate ''my-group/sub.x/app'' = None"
    by code_simp
  from valid_path_confined[OF this, of "''/data//repos/''"] show ?thesis
    unfolding c by simp
qed

text \<open>Every way to leave the directory is refused, with the error of the first check that sees it.\<close>

lemma traversal_refused:
  "p \<noteq> [] \<Longrightarrow> \<not> has_prefix p ''/'' \<Longrightarrow> CHR 0x5C \<notin> set p \<Longrightarrow> CHR 0x00 \<notin> set p \<Longrightarrow>
   split_on (CHR ''/'') p = pre @ ''..'' # post \<Longrightarrow> \<forall>s \<in> set pre. safe_segment s \<Longrightarrow>
   Validate p = Some (TraversalSegment ''..'')"
proof -
  have "check_segments (pre @ ''..'' # post) = Some (TraversalSegment ''..'')"
    if "\<forall>s \<in> set pre. safe_segment s"
    using that by (induction pre) (auto simp: safe_segment_def)
  then show "p \<noteq> [] \<Longrightarrow> \<not> has_prefix p ''/'' \<Longrightarrow> CHR 0x5C \<notin> set p \<Longrightarrow> CHR 0x00 \<notin> set p \<Longrightarrow>
   split_on (CHR ''/'') p = pre @ ''..'' # post \<Longrightarrow> \<forall>s \<in> set pre. safe_segment s \<Longrightarrow> ?thesis"
    by (simp add: Validate_def)
qed

end
