(* ===== verification/Sha1.thy ===== *)
theory Sha1
  imports Geo_Prelude
begin

unbundle bit_operations_syntax

text \<open>
  SHA-1 and \<open>hex.EncodeToString\<close> of Go's standard library, on strings: the digest git fetch names
  the directories of hashed storage by. 32-bit words throughout. No definition of this theory
  models code of the repository.
\<close>

definition rotl :: "nat \<Rightarrow> 32 word \<Rightarrow> 32 word" where
  "rotl n w = (push_bit n w OR drop_bit (32 - n) w)"

definition byte_word :: "char \<Rightarrow> 32 word" where
  "byte_word c = of_int (of_char c)"

fun words_of :: "char list \<Rightarrow> 32 word list" where
  "words_of (a # b # c # d # s) =
     (push_bit 24 (byte_word a) OR push_bit 16 (byte_word b) OR push_bit 8 (byte_word c) OR byte_word d)
     # words_of s"
| "words_of _ = []"

text \<open>The padding: one bit, zeros up to 56 modulo 64 bytes, the length in bits as eight bytes.\<close>

definition length_bytes :: "int \<Rightarrow> char list" where
  "length_bytes n =
     map (\<lambda>k. char_of (n div 256 ^ k mod 256)) [7, 6, 5, 4, 3, 2, 1, 0]"

definition sha_pad :: "char list \<Rightarrow> char list" where
  "sha_pad m =
     m @ [CHR 0x80] @ replicate ((119 - length m mod 64) mod 64) (CHR 0x00) @
     length_bytes (8 * int (length m))"

text \<open>The message schedule, latest word first.\<close>

definition next_word :: "32 word list \<Rightarrow> 32 word" where
  "next_word ws = rotl 1 (ws ! 2 XOR ws ! 7 XOR ws ! 13 XOR ws ! 15)"

fun extend_schedule :: "nat \<Rightarrow> 32 word list \<Rightarrow> 32 word list" where
  "extend_schedule 0 ws = ws"
| "extend_schedule (Suc n) ws = extend_schedule n (next_word ws # ws)"

definition schedule :: "32 word list \<Rightarrow> 32 word list" where
  "schedule block = rev (extend_schedule 64 (rev block))"

datatype sha = Sha "32 word" "32 word" "32 word" "32 word" "32 word"

definition round_f :: "nat \<Rightarrow> 32 word \<Rightarrow> 32 word \<Rightarrow> 32 word \<Rightarrow> 32 word" where
  "round_f q b c d =
     (if q = 0 then (b AND c) OR (NOT b AND d)
      else if q = 2 then (b AND c) OR (b AND d) OR (c AND d)
      else b XOR c XOR d)"

definition round_k :: "nat \<Rightarrow> 32 word" where
  "round_k q = (if q = 0 then 0x5A827999 else if q = 1 then 0x6ED9EBA1
                else if q = 2 then 0x8F1BBCDC else 0xCA62C1D6)"

fun sha_round :: "nat \<Rightarrow> sha \<Rightarrow> 32 word \<Rightarrow> sha" where
  "sha_round q (Sha a b c d e) w =
     Sha (rotl 5 a + round_f q b c d + e + round_k q + w) a (rotl 30 b) c d"

text \<open>The four stages of twenty rounds each.\<close>

fun sha_rounds :: "nat \<Rightarrow> 32 word list \<Rightarrow> sha \<Rightarrow> sha" where
  "sha_rounds q [] s = s"
| "sha_rounds q (w # ws) s = sha_rounds q ws (sha_round q s w)"

fun sha_add :: "sha \<Rightarrow> sha \<Rightarrow> sha" where
  "sha_add (Sha a b c d e) (Sha a' b' c' d' e') = Sha (a + a') (b + b') (c + c') (d + d') (e + e')"

definition sha_stages :: "32 word list \<Rightarrow> sha \<Rightarrow> sha" where
  "sha_stages ws s =
     sha_rounds 3 (drop 60 ws)
       (sha_rounds 2 (take 20 (drop 40 ws))
         (sha_rounds 1 (take 20 (drop 20 ws)) (sha_rounds 0 (take 20 ws) s)))"

fun sha_blocks :: "nat \<Rightarrow> 32 word list \<Rightarrow> sha \<Rightarrow> sha" where
  "sha_blocks 0 ws s = s"
| "sha_blocks (Suc n) ws s =
     sha_blocks n (drop 16 ws) (sha_add (sha_stages (schedule (take 16 ws)) s) s)"

definition sha_init :: sha where
  "sha_init = Sha 0x67452301 0xEFCDAB89 0x98BADCFE 0x10325476 0xC3D2E1F0"

definition hex_char :: "nat \<Rightarrow> char" where
  "hex_char n = ''0123456789abcdef'' ! n"

definition hex_nibble :: "32 word \<Rightarrow> nat \<Rightarrow> char" where
  "hex_nibble w k = hex_char (unat (drop_bit (4 * k) w AND 15))"

definition hex_word :: "32 word \<Rightarrow> string" where
  "hex_word w = map (hex_nibble w) [7, 6, 5, 4, 3, 2, 1, 0]"

fun sha_hex :: "sha \<Rightarrow> string" where
  "sha_hex (Sha a b c d e) = hex_word a @ hex_word b @ hex_word c @ hex_word d @ hex_word e"

definition sha1_hex :: "string \<Rightarrow> string" where
  "sha1_hex m =
     (let p = sha_pad m in sha_hex (sha_blocks (length p div 64) (words_of p) sha_init))"

lemma hex_word_length [simp]: "length (hex_word w) = 8"
  by (simp add: hex_word_def)

lemma sha1_hex_length [simp]: "length (sha1_hex m) = 40"
  unfolding sha1_hex_def Let_def
  by (cases "sha_blocks (length (sha_pad m) div 64) (words_of (sha_pad m)) sha_init") simp

text \<open>A digest holds digits and the letters a to f only, so it is a safe path segment.\<close>

lemma hex_char_alnum: "n < 16 \<Longrightarrow> is_alnum (hex_char n)"
proof -
  have "\<forall>n \<in> set [0..<16]. is_alnum (hex_char n)" by code_simp
  then show "n < 16 \<Longrightarrow> ?thesis" by simp
qed

lemma hex_nibble_alnum: "is_alnum (hex_nibble w k)"
proof -
  have "unat (drop_bit (4 * k) w AND 15) < 16"
  proof -
    have "drop_bit (4 * k) w AND 15 \<le> 15" by (rule word_and_le1)
    then have "unat (drop_bit (4 * k) w AND 15) \<le> 15" by (simp add: word_le_nat_alt)
    then show ?thesis by simp
  qed
  then show ?thesis unfolding hex_nibble_def by (rule hex_char_alnum)
qed

lemma sha1_hex_alnum: "c \<in> set (sha1_hex m) \<Longrightarrow> is_alnum c"
  unfolding sha1_hex_def Let_def
  by (cases "sha_blocks (length (sha_pad m) div 64) (words_of (sha_pad m)) sha_init")
    (auto simp: hex_word_def hex_nibble_alnum)

end
