(* ===== verification/GitFetch.thy ===== *)
theory GitFetch
  imports Config_Props Reconciler Projectpath Sha1 Rsync
begin

text \<open>
  \<open>internal/reconciler/gitfetch\<close>: the sweep that fetches every project through a bounded worker
  pool, and the fetch of one project for the webhook. The pool is a transition system, so every
  schedule of the workers is covered; one fetch, its answer and its log line included, is one
  step of it. A database pool is named by its DSN; the columns of a row are values as the driver
  hands them out, and the driver's text for a column of the wrong type is abbreviated.
\<close>

section \<open>Projects\<close>

record git_fetch =
  gf_primarySSHHost :: string
  gf_reposPath :: string
  gf_secondaryName :: string
  gf_primaryPool :: string
  gf_sshCfg :: ssh_config
  gf_dryRun :: bool
  gf_maxParallel :: int

definition gf_name :: string where "gf_name = ''git_fetch''"

definition gf_New :: "string \<Rightarrow> string \<Rightarrow> string \<Rightarrow> string \<Rightarrow> bool \<Rightarrow> ssh_config \<Rightarrow> git_fetch" where
  "gf_New primarySSHHost reposPath secondaryName primaryPool dryRun sshCfg =
     \<lparr>gf_primarySSHHost = primarySSHHost, gf_reposPath = reposPath, gf_secondaryName = secondaryName,
      gf_primaryPool = primaryPool, gf_sshCfg = sshCfg, gf_dryRun = dryRun, gf_maxParallel = 8\<rparr>"

definition SetMaxParallel :: "int \<Rightarrow> git_fetch \<Rightarrow> git_fetch" where
  "SetMaxParallel n r = r\<lparr>gf_maxParallel := n\<rparr>"

record projectRow =
  ID :: int
  RepoPath :: string

definition sha1Hex :: "int \<Rightarrow> string" where
  "sha1Hex projectID = sha1_hex (itoa projectID)"

definition repoDiskPath :: "bool \<Rightarrow> string \<Rightarrow> int \<Rightarrow> string" where
  "repoDiskPath hashed routePath projectID =
     (if hashed
      then (let h = sha1Hex projectID in ''@hashed/'' @ take 2 h @ ''/'' @ h @ ''.git'')
      else if routePath = [] then []
      else routePath @ ''.git'')"

definition projects_sql :: string where
  "projects_sql =
     ''SELECT p.id, p.repository_storage, p.project_namespace_id, p.hashed_storage, r.path '' @
     ''FROM projects p LEFT JOIN routes r ON r.source_id = p.id AND r.source_type = '' @
     [CHR 0x27] @ ''Project'' @ [CHR 0x27] @
     '' WHERE p.repository_storage IS NOT NULL ORDER BY p.id''"

definition scan_id :: "sql_value \<Rightarrow> int option" where
  "scan_id v = (case v of SqlInt i \<Rightarrow> if - (2 ^ 31) \<le> i \<and> i < 2 ^ 31 then Some i else None | _ \<Rightarrow> None)"

definition scan_null_int :: "sql_value \<Rightarrow> bool" where
  "scan_null_int v = (case v of SqlNull \<Rightarrow> True | SqlInt _ \<Rightarrow> True | _ \<Rightarrow> False)"

definition scan_null_text :: "sql_value \<Rightarrow> string option" where
  "scan_null_text v = (case v of SqlNull \<Rightarrow> Some [] | SqlText s \<Rightarrow> Some s | _ \<Rightarrow> None)"

fun scan_project :: "sql_value list \<Rightarrow> projectRow option" where
  "scan_project [i, SqlText storage, ns, SqlBool hashed, route] =
     (case scan_id i of
        None \<Rightarrow> None
      | Some pid \<Rightarrow>
         (case scan_null_text route of
            None \<Rightarrow> None
          | Some rt \<Rightarrow>
              if scan_null_int ns then Some \<lparr>ID = pid, RepoPath = repoDiskPath hashed rt pid\<rparr> else None))"
| "scan_project _ = None"

fun scan_all :: "sql_value list list \<Rightarrow> projectRow list option" where
  "scan_all [] = Some []"
| "scan_all (row # rows) =
     (case scan_project row of
        None \<Rightarrow> None
      | Some p \<Rightarrow> map_option (\<lambda>ps. p # ps) (scan_all rows))"

definition listProjects :: "git_fetch \<Rightarrow> world \<Rightarrow> (string + projectRow list) \<times> world" where
  "listProjects r w =
     (case query_rows (gf_primaryPool r) projects_sql w of
        (Inl e, w1) \<Rightarrow> (Inl (show_sql_error e), w1)
      | (Inr (rows, rowsErr), w1) \<Rightarrow>
          (case scan_all rows of
             None \<Rightarrow> (Inl ''scan error'', w1)
           | Some ps \<Rightarrow>
               (case rowsErr of Some e \<Rightarrow> (Inl (show_sql_error e), w1) | None \<Rightarrow> (Inr ps, w1))))"

section \<open>One fetch\<close>

definition git_args :: "git_fetch \<Rightarrow> projectRow \<Rightarrow> string list" where
  "git_args r p =
     [''-C'', path_join [gf_reposPath r, RepoPath p], ''fetch'', ''--prune'', ''--no-tags'',
      ''ssh://'' @ gf_primarySSHHost r @ ''/var/opt/gitlab/git-data/repositories/'' @ RepoPath p,
      ''+refs/*:refs/*'', ''+refs/tags/*:refs/tags/*'']"

definition git_env :: "git_fetch \<Rightarrow> string list" where
  "git_env r = [''GIT_SSH_COMMAND='' @ SSHString (gf_sshCfg r)]"

definition fetchOne :: "git_fetch \<Rightarrow> projectRow \<Rightarrow> world \<Rightarrow> bool \<times> world" where
  "fetchOne r p w =
     (if RepoPath p = [] then (False, w)
      else if gf_dryRun r then (True, w)
      else (case RunWith ''git'' (git_args r p) (git_env r) w of
              ((out, Some e), w1) \<Rightarrow> (False, emit (Logged ''warn'' (''git fetch failed: '' @ RepoPath p)) w1)
            | ((out, None), w1) \<Rightarrow> (True, w1)))"

datatype fetch_error = InvalidPath path_error | FetchFailed string

definition FetchProject :: "git_fetch \<Rightarrow> string \<Rightarrow> world \<Rightarrow> fetch_error option \<times> world" where
  "FetchProject r projectPath w =
     (case Validate projectPath of
        Some e \<Rightarrow> (Some (InvalidPath e), w)
      | None \<Rightarrow>
        (case fetchOne r \<lparr>ID = 0, RepoPath = projectPath @ ''.git''\<rparr> w of
           (True, w1) \<Rightarrow> (None, w1)
         | (False, w1) \<Rightarrow> (Some (FetchFailed projectPath), w1)))"

section \<open>The worker pool\<close>

text \<open>
  The dispatching loop and the workers. \<open>checked\<close>: the loop has passed its cancellation check for
  the next project and waits for a free slot; a worker in flight has not started (None) or has
  its answer; \<open>stopped\<close>: the loop broke off at a cancellation.
\<close>

record pool =
  pending :: "projectRow list"
  checked :: bool
  stopped :: bool
  flight :: "(projectRow \<times> bool option) list"
  failed :: int
  repaired :: int

definition pool_init :: "projectRow list \<Rightarrow> pool" where
  "pool_init ps = \<lparr>pending = ps, checked = False, stopped = False, flight = [], failed = 0, repaired = 0\<rparr>"

definition parallel :: "git_fetch \<Rightarrow> projectRow list \<Rightarrow> int" where
  "parallel r ps =
     (let p = (if gf_maxParallel r < 1 then 1 else gf_maxParallel r)
      in if p > int (length ps) then int (length ps) else p)"

inductive pool_step :: "git_fetch \<Rightarrow> int \<Rightarrow> pool \<times> world \<Rightarrow> pool \<times> world \<Rightarrow> bool" for r par where
  pool_check: "pending s \<noteq> [] \<Longrightarrow> \<not> checked s \<Longrightarrow> \<not> cancelled w \<Longrightarrow>
    pool_step r par (s, w) (s\<lparr>checked := True\<rparr>, w)"
| pool_stop: "pending s \<noteq> [] \<Longrightarrow> \<not> checked s \<Longrightarrow> cancelled w \<Longrightarrow>
    pool_step r par (s, w) (s\<lparr>pending := [], stopped := True\<rparr>, w)"
| pool_spawn: "pending s = p # ps \<Longrightarrow> checked s \<Longrightarrow> int (length (flight s)) < par \<Longrightarrow>
    pool_step r par (s, w) (s\<lparr>pending := ps, checked := False, flight := flight s @ [(p, None)]\<rparr>, w)"
| pool_fetch: "flight s = xs @ (p, None) # ys \<Longrightarrow> fetchOne r p w = (ok, w') \<Longrightarrow>
    pool_step r par (s, w) (s\<lparr>flight := xs @ (p, Some ok) # ys\<rparr>, w')"
| pool_finish: "flight s = xs @ (p, Some ok) # ys \<Longrightarrow>
    pool_step r par (s, w)
      (s\<lparr>flight := xs @ ys, failed := (if ok then failed s else failed s + 1),
         repaired := (if ok then repaired s + 1 else repaired s)\<rparr>, w)"

inductive_cases pool_stepE: "pool_step r par (s, w) (s', w')"

definition pool_done :: "pool \<Rightarrow> bool" where
  "pool_done s \<longleftrightarrow> pending s = [] \<and> flight s = []"

abbreviation pool_reach :: "git_fetch \<Rightarrow> int \<Rightarrow> pool \<times> world \<Rightarrow> pool \<times> world \<Rightarrow> bool" where
  "pool_reach r par \<equiv> (pool_step r par)\<^sup>*\<^sup>*"

section \<open>The sweep\<close>

definition gf_report :: "git_fetch \<Rightarrow> projectRow list \<Rightarrow> pool \<Rightarrow> world \<Rightarrow> result \<times> world" where
  "gf_report r ps s w =
     (let el = elapsed w; n = itoa (int (length ps));
          w1 = emit (Metric (SyncDuration gf_name (if failed s > 0 then ''error'' else ''ok''))) w
      in if failed s > 0
         then (\<lparr>OK = False, Lag = 0,
                Detail = ''fetched '' @ itoa (repaired s) @ ''/'' @ n @ '' projects in '' @ el @ '' ('' @
                         itoa (failed s) @ '' failed, parallel='' @ itoa (parallel r ps) @ '')'',
                Repaired = repaired s, Remaining = failed s\<rparr>,
               emit (Metric (DriftTotal gf_name ''warning'')) w1)
         else (\<lparr>OK = True, Lag = 0,
                Detail = ''fetched '' @ n @ '' projects in '' @ el @ '' (parallel='' @
                         itoa (parallel r ps) @ '')'',
                Repaired = repaired s, Remaining = 0\<rparr>,
               emit (Metric (LastSync gf_name)) w1))"

inductive gf_Reconcile :: "git_fetch \<Rightarrow> reconcile" for r where
  gf_list_failed: "listProjects r w = (Inl e, w1) \<Longrightarrow>
    gf_Reconcile r w (res_bad (''list projects: '' @ e) 1) (emit (Metric (DriftTotal gf_name ''critical'')) w1)"
| gf_no_projects: "listProjects r w = (Inr [], w1) \<Longrightarrow>
    gf_Reconcile r w (res_ok ''no projects to sync'') w1"
| gf_swept: "listProjects r w = (Inr ps, w1) \<Longrightarrow> ps \<noteq> [] \<Longrightarrow>
    pool_reach r (parallel r ps) (pool_init ps, w1) (s, w2) \<Longrightarrow> pool_done s \<Longrightarrow>
    gf_report r ps s w2 = (res, w') \<Longrightarrow> gf_Reconcile r w res w'"

inductive_cases gf_ReconcileE: "gf_Reconcile r w res w'"

section \<open>Lemmas\<close>

text \<open>The command a fetch of a project runs, if it runs one.\<close>

definition fetch_execs :: "git_fetch \<Rightarrow> projectRow \<Rightarrow> (string \<times> string list) list" where
  "fetch_execs r p = (if RepoPath p = [] \<or> gf_dryRun r then [] else [(''git'', git_args r p)])"

lemma fetchOne_spec:
  assumes "fetchOne r p w = (ok, w')"
  shows "extends w w' \<and> execs (added w w') = fetch_execs r p \<and> (RepoPath p = [] \<longrightarrow> \<not> ok)"
  using assms
  by (auto simp: fetchOne_def fetch_execs_def RunWith_def exec_cmd_def added_emitI extends_emitI
      split: if_splits prod.splits option.splits)

lemma listProjects_spec:
  assumes "listProjects r w = (res, w')"
  shows "extends w w' \<and> execs (added w w') = [] \<and> w' = emit (Query (gf_primaryPool r) projects_sql []) w"
  using assms
  by (auto simp: listProjects_def query_rows_def split: sum.splits option.splits prod.splits)

lemma listProjects_total: "\<exists>res w'. listProjects r w = (res, w')"
  by (metis prod.collapse)

definition started :: "(projectRow \<times> bool option) list \<Rightarrow> nat" where
  "started fl = length (filter (\<lambda>a. snd a \<noteq> None) fl)"

lemma started_simps [simp]:
  "started [] = 0" "started (xs @ ys) = started xs + started ys"
  "started ((p, None) # xs) = started xs" "started ((p, Some ok) # xs) = Suc (started xs)"
  by (simp_all add: started_def)

text \<open>
  The pool's invariant, from a start with the projects \<open>ps\<close> in the world \<open>w0\<close>: the slots are
  respected, no project is lost or fetched twice, the counters are right.
\<close>

definition pool_inv :: "git_fetch \<Rightarrow> int \<Rightarrow> projectRow list \<Rightarrow> world \<Rightarrow> pool \<Rightarrow> world \<Rightarrow> bool" where
  "pool_inv r par ps w0 s w \<longleftrightarrow>
     extends w0 w \<and> int (length (flight s)) \<le> par \<and> 0 \<le> failed s \<and> 0 \<le> repaired s \<and>
     set (pending s) \<union> fst ` set (flight s) \<subseteq> set ps \<and>
     failed s + repaired s + int (length (flight s)) + int (length (pending s)) \<le> int (length ps) \<and>
     (\<not> stopped s \<longrightarrow>
        failed s + repaired s + int (length (flight s)) + int (length (pending s)) = int (length ps)) \<and>
     (checked s \<longrightarrow> pending s \<noteq> []) \<and>
     (stopped s \<longrightarrow> pending s = [] \<and> (\<exists>w1. extends w0 w1 \<and> cancelled w1)) \<and>
     int (length (execs (added w0 w))) \<le> failed s + repaired s + int (started (flight s)) \<and>
     set (execs (added w0 w)) \<subseteq> {(''git'', git_args r p) |p. p \<in> set ps}"

lemma pool_inv_init: "0 \<le> par \<Longrightarrow> pool_inv r par ps w (pool_init ps) w"
  by (simp add: pool_inv_def pool_init_def)

lemma pool_inv_step:
  assumes "pool_step r par (s, w) (s', w')" and "pool_inv r par ps w0 s w"
  shows "pool_inv r par ps w0 s' w'"
  using assms(1)
proof (cases rule: pool_stepE[consumes 1, case_names pool_check pool_stop pool_spawn pool_fetch pool_finish])
  case pool_check
  then show ?thesis using assms(2) by (simp add: pool_inv_def)
next
  case pool_stop
  then show ?thesis using assms(2) by (auto simp: pool_inv_def)
next
  case (pool_spawn p ps')
  then show ?thesis using assms(2) by (auto simp: pool_inv_def)
next
  case (pool_fetch xs p ys ok)
  have F: "extends w w'" "execs (added w w') = fetch_execs r p"
    using fetchOne_spec[OF pool_fetch(3)] by auto
  have w: "extends w0 w" "p \<in> set ps" using assms(2) pool_fetch by (auto simp: pool_inv_def)
  have "added w0 w' = added w0 w @ added w w'" "extends w0 w'"
    using added_trans[OF w(1) F(1)] extends_trans[OF w(1) F(1)] by simp_all
  then show ?thesis
    using assms(2) pool_fetch(1,2) F(2) w(2) by (auto simp: pool_inv_def fetch_execs_def)
next
  case (pool_finish xs p ok ys)
  then show ?thesis using assms(2) by (cases ok) (auto simp: pool_inv_def)
qed

lemma pool_inv_reach:
  assumes "pool_reach r par (s, w) (s', w')" and "pool_inv r par ps w0 s w"
  shows "pool_inv r par ps w0 s' w'"
  using assms
proof (induction "(s', w')" arbitrary: s' w' rule: rtranclp_induct)
  case base
  then show ?case by simp
next
  case (step y)
  then show ?case by (cases y) (auto intro: pool_inv_step)
qed

text \<open>Every step decreases a measure, and a pool that is not done can step: the pool terminates.\<close>

definition pool_measure :: "pool \<Rightarrow> nat" where
  "pool_measure s = 4 * length (pending s) - (if checked s then 1 else 0) +
     2 * length (flight s) - started (flight s)"

lemma started_le: "started fl \<le> length fl"
  by (simp add: started_def)

lemma pool_step_measure:
  assumes "pool_step r par (s, w) (s', w')" and "checked s \<longrightarrow> pending s \<noteq> []"
  shows "pool_measure s' < pool_measure s" and "checked s' \<longrightarrow> pending s' \<noteq> []"
proof -
  have "pool_measure s' < pool_measure s \<and> (checked s' \<longrightarrow> pending s' \<noteq> [])"
    using assms(1)
  proof (cases rule: pool_stepE[consumes 1, case_names pool_check pool_stop pool_spawn pool_fetch pool_finish])
    case pool_check
    then show ?thesis using started_le[of "flight s"] by (cases "pending s") (auto simp: pool_measure_def)
  next
    case pool_stop
    then show ?thesis using started_le[of "flight s"] by (cases "pending s") (auto simp: pool_measure_def)
  next
    case (pool_spawn p ps')
    then show ?thesis using started_le[of "flight s"] by (auto simp: pool_measure_def)
  next
    case (pool_fetch xs p ys ok)
    then show ?thesis using assms(2) started_le[of xs] started_le[of ys] by (auto simp: pool_measure_def)
  next
    case (pool_finish xs p ok ys)
    then show ?thesis using assms(2) started_le[of xs] started_le[of ys] by (auto simp: pool_measure_def)
  qed
  then show "pool_measure s' < pool_measure s" and "checked s' \<longrightarrow> pending s' \<noteq> []" by simp_all
qed

lemma pool_progress:
  assumes "\<not> pool_done s" and "0 < par" and "checked s \<longrightarrow> pending s \<noteq> []"
  shows "\<exists>s' w'. pool_step r par (s, w) (s', w')"
proof (cases "flight s")
  case Nil
  then have "pending s \<noteq> []" using assms(1) by (simp add: pool_done_def)
  then obtain p ps' where p: "pending s = p # ps'" by (cases "pending s") auto
  show ?thesis
  proof (cases "checked s")
    case True
    then show ?thesis using pool_spawn[OF p, of par r w] Nil assms(2) by auto
  next
    case False
    then show ?thesis using pool_check[of s w] pool_stop[of s w] p by (cases "cancelled w") auto
  qed
next
  case (Cons a fl)
  then obtain p st where a: "flight s = [] @ (p, st) # fl" by (cases a) auto
  show ?thesis
  proof (cases st)
    case None
    obtain ok w' where "fetchOne r p w = (ok, w')" by fastforce
    with pool_fetch[OF a[unfolded None]] show ?thesis by blast
  next
    case (Some ok)
    with pool_finish[OF a[unfolded Some]] show ?thesis by blast
  qed
qed

lemma pool_terminates:
  assumes "0 < par" and "checked s \<longrightarrow> pending s \<noteq> []"
  shows "\<exists>s' w'. pool_reach r par (s, w) (s', w') \<and> pool_done s'"
  using assms(2)
proof (induction "pool_measure s" arbitrary: s w rule: less_induct)
  case less
  show ?case
  proof (cases "pool_done s")
    case True
    then show ?thesis by blast
  next
    case False
    then obtain s1 w1 where 1: "pool_step r par (s, w) (s1, w1)"
      using pool_progress[OF False assms(1) less.prems] by blast
    obtain s' w' where "pool_reach r par (s1, w1) (s', w')" "pool_done s'"
      using less.hyps[OF pool_step_measure[OF 1 less.prems]] by blast
    then show ?thesis using 1 by (meson converse_rtranclp_into_rtranclp)
  qed
qed

lemma parallel_pos: "ps \<noteq> [] \<Longrightarrow> 0 < parallel r ps"
  by (auto simp: parallel_def Let_def)

section \<open>A sweep\<close>

lemma gf_report_spec:
  assumes "gf_report r ps s w = (res, w')" and "0 \<le> failed s"
  shows "extends w w' \<and> execs (added w w') = [] \<and> (OK res \<longleftrightarrow> failed s = 0) \<and>
    Remaining res = failed s \<and> Repaired res = repaired s \<and>
    (Metric (LastSync gf_name) \<in> set (added w w') \<longleftrightarrow> failed s = 0)"
  using assms
  by (auto simp: gf_report_def Let_def added_emitI split: if_splits intro: extends_emitI)

lemma swept_spec:
  assumes "listProjects r w = (Inr ps, w1)" "ps \<noteq> []" "pool_reach r (parallel r ps) (pool_init ps, w1) (s, w2)"
    and "gf_report r ps s w2 = (res, w')"
  shows "extends w w' \<and> pool_inv r (parallel r ps) ps w1 s w2 \<and> execs (added w w') = execs (added w1 w2) \<and>
    (OK res \<longleftrightarrow> failed s = 0) \<and> Remaining res = failed s \<and> Repaired res = repaired s"
proof -
  have inv: "pool_inv r (parallel r ps) ps w1 s w2"
    using pool_inv_reach[OF assms(3)] pool_inv_init parallel_pos[OF assms(2)] by (simp add: less_imp_le)
  have L: "extends w w1" "execs (added w w1) = []" using listProjects_spec[OF assms(1)] by auto
  have P: "extends w1 w2" "0 \<le> failed s" using inv by (auto simp: pool_inv_def)
  note R = gf_report_spec[OF assms(4) P(2)]
  have R1: "extends w2 w'" "execs (added w2 w') = []" using R by blast+
  have "added w w' = (added w w1 @ added w1 w2) @ added w2 w'"
    using added_trans[OF L(1) P(1)] added_trans[OF extends_trans[OF L(1) P(1)] R1(1)] by simp
  then have "execs (added w w') = execs (added w1 w2)" using L(2) R1(2) by simp
  moreover have "extends w w'" by (rule extends_trans[OF extends_trans[OF L(1) P(1)] R1(1)])
  ultimately show ?thesis using inv R by blast
qed

lemma gf_grows: "gf_Reconcile r w res w' \<Longrightarrow> extends w w'"
proof (erule gf_ReconcileE)
  fix e w1
  assume "listProjects r w = (Inl e, w1)" "w' = emit (Metric (DriftTotal gf_name ''critical'')) w1"
  then show "extends w w'" using listProjects_spec by (auto intro: extends_emitI)
next
  fix w1
  assume "listProjects r w = (Inr [], w')"
  then show "extends w w'" using listProjects_spec by blast
next
  fix ps w1 s w2
  assume "listProjects r w = (Inr ps, w1)" "ps \<noteq> []"
    "pool_reach r (parallel r ps) (pool_init ps, w1) (s, w2)" "gf_report r ps s w2 = (res, w')"
  then show "extends w w'" using swept_spec by blast
qed

lemma gf_returns: "\<exists>res w'. gf_Reconcile r w res w'"
proof -
  obtain lr w1 where l: "listProjects r w = (lr, w1)" using listProjects_total by blast
  show ?thesis
  proof (cases lr)
    case (Inl e)
    then show ?thesis using gf_list_failed l by blast
  next
    case (Inr ps)
    show ?thesis
    proof (cases "ps = []")
      case True
      then show ?thesis using gf_no_projects l Inr by blast
    next
      case False
      obtain s w2 where s: "pool_reach r (parallel r ps) (pool_init ps, w1) (s, w2)" "pool_done s"
        using pool_terminates[OF parallel_pos[OF False], of "pool_init ps" r r w1]
        by (auto simp: pool_init_def)
      obtain res w' where "gf_report r ps s w2 = (res, w')" by fastforce
      with gf_swept[OF l[unfolded Inr] False s] show ?thesis by blast
    qed
  qed
qed

lemma gf_none_left: "gf_Reconcile r w res w' \<Longrightarrow> OK res \<Longrightarrow> Remaining res = 0"
  by (erule gf_ReconcileE) (auto dest: swept_spec)

interpretation git_fetch_rec: strict_reconciler "gf_Reconcile r" for r
  by unfold_locales (use gf_grows gf_returns gf_none_left in blast)+

definition fetch_calls :: "git_fetch \<Rightarrow> (string \<times> string list) set" where
  "fetch_calls r = (if gf_dryRun r then {} else range (\<lambda>p. (''git'', git_args r p)))"

lemma fetchOne_calls:
  "fetchOne r p w = (ok, w') \<Longrightarrow> extends w w' \<and> set (execs (added w w')) \<subseteq> fetch_calls r"
  by (drule fetchOne_spec) (auto simp: fetch_execs_def fetch_calls_def)

lemma pool_step_calls:
  assumes "pool_step r par (s, w) (s', w')"
  shows "extends w w' \<and> set (execs (added w w')) \<subseteq> fetch_calls r"
  using assms by (cases rule: pool_stepE) (auto dest: fetchOne_calls)

lemma pool_reach_calls:
  assumes "pool_reach r par (s, w) (s', w')"
  shows "extends w w' \<and> set (execs (added w w')) \<subseteq> fetch_calls r"
  using assms
proof (induction "(s', w')" arbitrary: s' w' rule: rtranclp_induct)
  case base
  then show ?case by simp
next
  case (step y)
  obtain s1 w1 where y: "y = (s1, w1)" by fastforce
  have 1: "extends w w1" "set (execs (added w w1)) \<subseteq> fetch_calls r" using step.hyps(3)[OF y] by auto
  have 2: "extends w1 w'" "set (execs (added w1 w')) \<subseteq> fetch_calls r" using pool_step_calls step.hyps(2) y by auto
  show ?case using 1 2 by (auto simp: added_trans[OF 1(1) 2(1)] intro: extends_trans)
qed

interpretation git_fetch_confined: confined_reconciler "gf_Reconcile r" "fetch_calls r" for r
proof unfold_locales
  fix w res w'
  assume "gf_Reconcile r w res w'"
  then show "set (execs (added w w')) \<subseteq> fetch_calls r"
  proof (rule gf_ReconcileE)
    fix e w1
    assume "listProjects r w = (Inl e, w1)" "w' = emit (Metric (DriftTotal gf_name ''critical'')) w1"
    then show ?thesis using listProjects_spec by (auto simp: added_emitI)
  next
    assume "listProjects r w = (Inr [], w')"
    then show ?thesis using listProjects_spec by auto
  next
    fix ps w1 s w2
    assume A: "listProjects r w = (Inr ps, w1)" "ps \<noteq> []"
      "pool_reach r (parallel r ps) (pool_init ps, w1) (s, w2)" "gf_report r ps s w2 = (res, w')"
    have "execs (added w w') = execs (added w1 w2)" using swept_spec[OF A] by blast
    then show ?thesis using pool_reach_calls[OF A(3)] by simp
  qed
qed

lemma projects_sql_reads: "reading_sql projects_sql"
  by (simp add: reading_sql_def projects_sql_def)

lemma fetchOne_observes: "fetchOne r p w = (ok, w') \<Longrightarrow> observes w w'"
  by (auto simp: fetchOne_def RunWith_def exec_cmd_def split: if_splits prod.splits option.splits intro!: observes_emit)

lemma pool_step_observes: "pool_step r par (s, w) (s', w') \<Longrightarrow> observes w w'"
  by (erule pool_stepE) (auto dest: fetchOne_observes)

lemma pool_reach_observes:
  assumes "pool_reach r par (s, w) (s', w')"
  shows "observes w w'"
  using assms
proof (induction "(s', w')" arbitrary: s' w' rule: rtranclp_induct)
  case (step y)
  then show ?case by (cases y) (auto intro: observes_trans pool_step_observes)
qed simp

interpretation git_fetch_reads: reading_reconciler "gf_Reconcile r" for r
proof unfold_locales
  fix w res w'
  have l: "observes w w1" if "listProjects r w = (x, w1)" for x w1
    using listProjects_spec[OF that] projects_sql_reads by (simp add: observes_emits)
  show "gf_Reconcile r w res w' \<Longrightarrow> observes w w'"
  proof (erule gf_ReconcileE)
    fix e w1
    assume "w' = emit (Metric (DriftTotal gf_name ''critical'')) w1" "listProjects r w = (Inl e, w1)"
    then show "observes w w'" using l by (simp add: observes_emit)
  next
    assume "listProjects r w = (Inr [], w')"
    then show "observes w w'" using l by simp
  next
    fix ps w1 s w2
    assume "listProjects r w = (Inr ps, w1)" "pool_reach r (parallel r ps) (pool_init ps, w1) (s, w2)"
      "gf_report r ps s w2 = (res, w')"
    moreover from this have "observes w w2" using l pool_reach_observes by (blast intro: observes_trans)
    ultimately show "observes w w'"
      by (auto simp: gf_report_def Let_def split: if_splits intro!: observes_emit)
  qed
qed

lemma FetchProject_observes: "FetchProject r p w = (e, w') \<Longrightarrow> observes w w'"
  by (auto simp: FetchProject_def split: option.splits prod.splits bool.splits dest: fetchOne_observes)

section \<open>Properties\<close>


definition sample_gf :: git_fetch where
  "sample_gf = gf_New ''eu:22'' ''/data/repos'' ''us'' ''host=db'' False ssh_Default"

definition two_projects :: world where
  "two_projects = calm_world []\<lparr>rows_reply := (\<lambda>_ _ _. Inr
     ([[SqlInt 1, SqlText ''default'', SqlNull, SqlBool False, SqlText ''group/app''],
       [SqlInt 2, SqlText ''default'', SqlInt 9, SqlBool False, SqlNull]], None))\<rparr>"




text \<open>C17. The pool ends under every schedule: from each state it can reach, every step decreases a
  natural number, and as long as a project is pending or a worker in flight some step is possible,
  so no schedule runs forever and none is stuck.\<close>

theorem pool_always_ends:
  assumes "pool_reach r (parallel r ps) (pool_init ps, w) (s, w')" and "ps \<noteq> []"
  shows "(\<forall>s2 w2. pool_step r (parallel r ps) (s, w') (s2, w2) \<longrightarrow> pool_measure s2 < pool_measure s) \<and>
    (pool_done s \<or> (\<exists>s2 w2. pool_step r (parallel r ps) (s, w') (s2, w2)))"
proof -
  have inv: "pool_inv r (parallel r ps) ps w s w'"
    using pool_inv_reach[OF assms(1)] pool_inv_init parallel_pos[OF assms(2)] by (simp add: less_imp_le)
  then have "checked s \<longrightarrow> pending s \<noteq> []" by (simp add: pool_inv_def)
  then show ?thesis
    using pool_step_measure(1) pool_progress parallel_pos[OF assms(2)] by blast
qed

theorem pool_always_ends_witness:
  "\<exists>s2 w2. pool_step sample_gf 1 (pool_init [\<lparr>ID = 1, RepoPath = ''a.git''\<rparr>], calm_world []) (s2, w2)"
proof -
  let ?ps = "[\<lparr>ID = 1, RepoPath = ''a.git''\<rparr>]"
  have p: "parallel sample_gf ?ps = 1" by (simp add: parallel_def sample_gf_def gf_New_def)
  have "\<not> pool_done (pool_init ?ps)" by (simp add: pool_done_def pool_init_def)
  then show ?thesis
    using pool_always_ends[of sample_gf ?ps "calm_world []" "pool_init ?ps" "calm_world []"] p by simp
qed

text \<open>A webhook can only touch its own repository: fetching a project by path either refuses the
  path and runs nothing, or runs at most one git command, whose working directory is the project's
  repository below the configured directory, spelt out without any detour.\<close>

lemma fetch_project_confined:
  assumes "FetchProject r path w = (e, w')"
    and "gf_reposPath r \<noteq> []" "path_clean (gf_reposPath r) \<noteq> ''/''" "path_clean (gf_reposPath r) \<noteq> ''.''"
  shows "(\<exists>pe. e = Some (InvalidPath pe) \<and> w' = w) \<or>
    (Validate path = None \<and>
     (\<forall>(prog, args) \<in> set (execs (added w w')). prog = ''git'' \<and> hd args = ''-C'' \<and>
        args ! 1 = path_clean (gf_reposPath r) @ ''/'' @ path @ ''.git'') \<and>
     length (execs (added w w')) \<le> 1)"
proof (cases "Validate path")
  case (Some pe)
  then show ?thesis using assms(1) by (auto simp: FetchProject_def)
next
  case None
  let ?p = "\<lparr>ID = 0, RepoPath = path @ ''.git''\<rparr>"
  obtain ok w1 where f: "fetchOne r ?p w = (ok, w1)" by fastforce
  have w': "w' = w1" using assms(1) None f by (auto simp: FetchProject_def split: bool.splits)
  have "execs (added w w') = fetch_execs r ?p" using fetchOne_spec[OF f] w' by simp
  moreover have "path_join [gf_reposPath r, path @ ''.git''] = path_clean (gf_reposPath r) @ ''/'' @ path @ ''.git''"
    using None assms(2-4) path_join_safe safe_git_suffix Validate_None by blast
  ultimately show ?thesis using None by (auto simp: fetch_execs_def git_args_def)
qed

lemma fetch_project_confined_witness:
  "execs (added (calm_world []) (snd (FetchProject sample_gf ''group/app'' (calm_world [])))) \<noteq> [] \<and>
   (\<forall>(prog, args) \<in> set (execs (added (calm_world []) (snd (FetchProject sample_gf ''group/app'' (calm_world []))))).
      args ! 1 = ''/data/repos'' @ ''/'' @ ''group/app'' @ ''.git'')"
proof -
  obtain e w' where F: "FetchProject sample_gf ''group/app'' (calm_world []) = (e, w')" by fastforce
  have c: "path_clean (gf_reposPath sample_gf) = ''/data/repos''" "gf_reposPath sample_gf \<noteq> []"
    by code_simp+
  have v: "Validate ''group/app'' = None" by code_simp
  have n: "execs (added (calm_world []) (snd (FetchProject sample_gf ''group/app'' (calm_world [])))) \<noteq> []"
    by code_simp
  have "\<not> (\<exists>pe. e = Some (InvalidPath pe) \<and> w' = calm_world [])"
    using n F by auto
  with fetch_project_confined[OF F c(2)] c(1) have
    "\<forall>(prog, args) \<in> set (execs (added (calm_world []) w')). args ! 1 = ''/data/repos'' @ ''/'' @ ''group/app'' @ ''.git''"
    by auto
  then show ?thesis using n F by simp
qed

text \<open>
  A sweep cancelled before the first dispatch fetches nothing, yet reports OK with nothing
  remaining and moves the time of the last sync forward.
\<close>

lemma cancelled_sweep_reports_ok:
  assumes "listProjects r w = (Inr ps, w1)" "ps \<noteq> []" "cancelled w1" and "gf_Reconcile r w res w'"
  shows "OK res \<and> Repaired res = 0 \<and> Remaining res = 0 \<and> execs (added w w') = []"
proof -
  have only: "s = pool_init ps \<and> w2 = w1 \<or>
      s = (pool_init ps)\<lparr>pending := [], stopped := True\<rparr> \<and> w2 = w1"
    if "pool_reach r par (pool_init ps, w1) (s, w2)" for par s w2
    using that
  proof (induction "(s, w2)" arbitrary: s w2 rule: rtranclp_induct)
    case base
    then show ?case by simp
  next
    case (step y)
    obtain s1 v where y: "y = (s1, v)" by fastforce
    from step(3)[OF y] step(2)[unfolded y] assms(3) show ?case
      by (auto elim!: pool_stepE simp: pool_init_def)
  qed
  show ?thesis
    using assms(4)
  proof (rule gf_ReconcileE)
    fix qs wx s w2
    assume A: "listProjects r w = (Inr qs, wx)" "qs \<noteq> []"
      "pool_reach r (parallel r qs) (pool_init qs, wx) (s, w2)" "pool_done s" "gf_report r qs s w2 = (res, w')"
    have q: "qs = ps" "wx = w1" using A(1) assms(1) by simp_all
    have s: "s = (pool_init ps)\<lparr>pending := [], stopped := True\<rparr>" "w2 = w1"
      using only[OF A(3)[unfolded q]] A(4) assms(2) by (auto simp: pool_done_def pool_init_def)
    show ?thesis
      using swept_spec[OF A(1,2,3,5)] s q by (simp add: pool_init_def)
  qed (use assms in simp_all)
qed

end

