(* ===== verification/Dsn.thy ===== *)
theory Dsn
  imports Config_Props Readonly
begin

text \<open>
  Connection strings (\<open>internal/config/config.go\<close>, the DSN functions of
  \<open>PostgresConfig\<close>), and a reader for the key=value grammar of libpq as its documentation
  states it, against which the quoting is proved to round-trip. The reader is a specification,
  not code of the repository.
\<close>

section \<open>The code\<close>

definition quoteLibPQValue :: "string \<Rightarrow> string" where
  "quoteLibPQValue v =
     (if v = [] then squote @ squote
      else if \<not> contains_any v ('' '' @ squote @ [CHR 0x5C]) then v
      else squote @
           concat (map (\<lambda>c. if c = CHR 0x5C \<or> c = CHR 0x27 then [CHR 0x5C, c] else [c]) v) @
           squote)"

definition effectiveSSLMode :: "PostgresConfig \<Rightarrow> string" where
  "effectiveSSLMode p = (if pg_SSLMode p = [] then ''require'' else pg_SSLMode p)"

definition dsn_pairs :: "PostgresConfig \<Rightarrow> string \<Rightarrow> string \<Rightarrow> string \<Rightarrow> (string \<times> string) list" where
  "dsn_pairs p user password dbname =
     [(''host'', pg_Host p), (''port'', itoa (pg_Port p)), (''user'', user), (''password'', password),
      (''dbname'', dbname), (''sslmode'', effectiveSSLMode p)] @
     (if pg_SSLRootCert p \<noteq> [] then [(''sslrootcert'', pg_SSLRootCert p)] else []) @
     (if pg_SSLCert p \<noteq> [] then [(''sslcert'', pg_SSLCert p)] else []) @
     (if pg_SSLKey p \<noteq> [] then [(''sslkey'', pg_SSLKey p)] else [])"

text \<open>The loop over the pairs: a space before each but the first.\<close>

fun write_pairs :: "nat \<Rightarrow> (string \<times> string) list \<Rightarrow> string" where
  "write_pairs i [] = []"
| "write_pairs i ((k, v) # ps) =
     (if i > 0 then '' '' else []) @ k @ ''='' @ quoteLibPQValue v @ write_pairs (Suc i) ps"

definition buildDSN :: "PostgresConfig \<Rightarrow> string \<Rightarrow> string \<Rightarrow> string \<Rightarrow> string \<Rightarrow> string" where
  "buildDSN p user password dbname extra =
     write_pairs 0 (dsn_pairs p user password dbname) @
     (if extra \<noteq> [] then '' '' @ extra else [])"

definition DSN :: "PostgresConfig \<Rightarrow> string" where
  "DSN p = buildDSN p (pg_User p) (pg_Password p) (pg_DB p) []"

definition ReplicationDSN :: "PostgresConfig \<Rightarrow> string" where
  "ReplicationDSN p =
     buildDSN p (pg_ReplicationUser p) (pg_ReplicationPassword p) ''replication''
       ''application_name=gitlab-geo-sync''"

section \<open>The documented grammar, as a reader\<close>

text \<open>
  libpq separates settings by white space; a value is either quoted, ending at the first quote not
  preceded by a backslash, or runs to the next white space; a backslash takes the next character
  literally.
\<close>

definition pq_space :: "char \<Rightarrow> bool" where
  "pq_space c \<longleftrightarrow> c \<in> {CHR 0x09, CHR 0x0A, CHR 0x0B, CHR 0x0C, CHR 0x0D, CHR 0x20}"

fun read_quoted :: "string \<Rightarrow> (string \<times> string) option" where
  "read_quoted [] = None"
| "read_quoted (c # s) =
     (if c = CHR 0x27 then Some ([], s)
      else if c = CHR 0x5C then
        (case s of [] \<Rightarrow> None | d # t \<Rightarrow> map_option (\<lambda>(v, r). (d # v, r)) (read_quoted t))
      else map_option (\<lambda>(v, r). (c # v, r)) (read_quoted s))"

fun read_bare :: "string \<Rightarrow> string \<times> string" where
  "read_bare [] = ([], [])"
| "read_bare (c # s) =
     (if pq_space c then ([], c # s)
      else if c = CHR 0x5C then
        (case s of [] \<Rightarrow> ([], []) | d # t \<Rightarrow> (let (v, r) = read_bare t in (d # v, r)))
      else (let (v, r) = read_bare s in (c # v, r)))"

definition read_value :: "string \<Rightarrow> (string \<times> string) option" where
  "read_value s =
     (case s of c # t \<Rightarrow> if c = CHR 0x27 then read_quoted t else Some (read_bare s)
      | [] \<Rightarrow> Some ([], []))"

text \<open>Settings up to the end of the string; the fuel bounds their number.\<close>

fun read_settings :: "nat \<Rightarrow> string \<Rightarrow> (string \<times> string) list option" where
  "read_settings 0 s = None"
| "read_settings (Suc n) s =
     (let t = dropWhile pq_space s in
      if t = [] then Some []
      else (let k = takeWhile (\<lambda>c. c \<noteq> CHR ''='') t; r = dropWhile (\<lambda>c. c \<noteq> CHR ''='') t in
            if r = [] then None
            else (case read_value (tl r) of
                    None \<Rightarrow> None
                  | Some (v, rest) \<Rightarrow> map_option (\<lambda>kvs. (k, v) # kvs) (read_settings n rest))))"

section \<open>Lemmas\<close>

abbreviation esc :: "char \<Rightarrow> string" where
  "esc c \<equiv> (if c = CHR 0x5C \<or> c = CHR 0x27 then [CHR 0x5C, c] else [c])"

lemma read_quoted_esc: "read_quoted (concat (map esc v) @ CHR 0x27 # rest) = Some (v, rest)"
  by (induction v) auto

text \<open>Where a value may end: at the end of the string or at a space.\<close>

definition value_end :: "string \<Rightarrow> bool" where
  "value_end rest \<longleftrightarrow> rest = [] \<or> hd rest = CHR '' ''"

text \<open>White space the quoting does not look for.\<close>

definition no_ctl_space :: "string \<Rightarrow> bool" where
  "no_ctl_space v \<longleftrightarrow> (\<forall>c \<in> set v. pq_space c \<longrightarrow> c = CHR '' '')"

lemma read_bare_plain:
  "\<forall>c \<in> set v. \<not> pq_space c \<and> c \<noteq> CHR 0x5C \<Longrightarrow> value_end rest \<Longrightarrow> read_bare (v @ rest) = (v, rest)"
proof (induction v)
  case Nil
  then show ?case by (cases rest) (auto simp: value_end_def pq_space_def)
next
  case (Cons c v)
  then show ?case by simp
qed

lemma read_value_quote:
  assumes "no_ctl_space v" and "value_end rest"
  shows "read_value (quoteLibPQValue v @ rest) = Some (v, rest)"
proof -
  consider (empty) "v = []" | (bare) "v \<noteq> []" "\<not> contains_any v ('' '' @ squote @ [CHR 0x5C])"
    | (quoted) "v \<noteq> []" "contains_any v ('' '' @ squote @ [CHR 0x5C])" by blast
  then show ?thesis
  proof cases
    case empty
    then show ?thesis by (simp add: quoteLibPQValue_def read_value_def)
  next
    case bare
    then have q: "quoteLibPQValue v = v" by (simp add: quoteLibPQValue_def)
    have c: "\<forall>c \<in> set v. \<not> pq_space c \<and> c \<noteq> CHR 0x5C \<and> c \<noteq> CHR 0x27"
      using bare(2) assms(1) by (auto simp: contains_any_def no_ctl_space_def)
    obtain x t where v: "v = x # t" using bare(1) by (cases v) auto
    show ?thesis
      using q c v read_bare_plain[of v rest] assms(2) by (simp add: read_value_def)
  next
    case quoted
    then have "quoteLibPQValue v @ rest = CHR 0x27 # concat (map esc v) @ CHR 0x27 # rest"
      by (simp add: quoteLibPQValue_def)
    then show ?thesis by (simp add: read_value_def read_quoted_esc)
  qed
qed

lemma split_at_eq:
  assumes "CHR ''='' \<notin> set k"
  shows "takeWhile (\<lambda>c. c \<noteq> CHR ''='') (k @ ''='' @ s) = k"
    and "dropWhile (\<lambda>c. c \<noteq> CHR ''='') (k @ ''='' @ s) = ''='' @ s"
  using assms by (induction k) auto

definition key_ok :: "string \<Rightarrow> bool" where
  "key_ok k \<longleftrightarrow> k \<noteq> [] \<and> \<not> pq_space (hd k) \<and> CHR ''='' \<notin> set k"

lemma read_settings_one:
  assumes "key_ok k" "no_ctl_space v" "value_end rest"
  shows "read_settings (Suc n) (k @ ''='' @ quoteLibPQValue v @ rest) =
     map_option (\<lambda>kvs. (k, v) # kvs) (read_settings n rest)"
proof -
  let ?s = "k @ ''='' @ quoteLibPQValue v @ rest"
  obtain c k' where k: "k = c # k'" using assms(1) by (cases k) (auto simp: key_ok_def)
  have "dropWhile pq_space ?s = ?s"
    using assms(1) k by (simp add: key_ok_def)
  moreover have "takeWhile (\<lambda>c. c \<noteq> CHR ''='') ?s = k" "dropWhile (\<lambda>c. c \<noteq> CHR ''='') ?s = ''='' @ quoteLibPQValue v @ rest"
    using assms(1) split_at_eq[of k "quoteLibPQValue v @ rest"] by (simp_all add: key_ok_def)
  ultimately show ?thesis
    using read_value_quote[OF assms(2,3)] k by simp
qed

lemma read_settings_space: "read_settings (Suc n) ('' '' @ s) = read_settings (Suc n) s"
  by (simp add: pq_space_def Let_def)

declare read_settings.simps(2) [simp del]

lemma write_pairs_end: "value_end (write_pairs (Suc i) ps @ rest) \<longleftrightarrow> (ps = [] \<longrightarrow> value_end rest)"
  by (cases ps) (auto simp: value_end_def)

lemma write_pairs_append:
  "write_pairs i (xs @ ys) = write_pairs i xs @ write_pairs (i + length xs) ys"
  by (induction xs arbitrary: i) auto

lemma read_write_pairs:
  assumes "\<forall>(k, v) \<in> set ps. key_ok k \<and> no_ctl_space v" and "value_end rest" and "ps \<noteq> []"
  shows "read_settings (length ps + Suc n) (write_pairs i ps @ rest) =
     map_option (\<lambda>kvs. ps @ kvs) (read_settings (Suc n) rest)"
  using assms
proof (induction ps arbitrary: i)
  case Nil
  then show ?case by simp
next
  case (Cons kv ps)
  obtain k v where kv: "kv = (k, v)" by fastforce
  let ?tl = "write_pairs (Suc i) ps @ rest"
  have "read_settings (length (kv # ps) + Suc n) (write_pairs i (kv # ps) @ rest) =
      read_settings (Suc (length ps + Suc n)) (k @ ''='' @ quoteLibPQValue v @ ?tl)"
    using kv read_settings_space[of _ "k @ ''='' @ quoteLibPQValue v @ ?tl"] by simp
  also have "\<dots> = map_option (\<lambda>kvs. (k, v) # kvs) (read_settings (length ps + Suc n) ?tl)"
    using Cons.prems kv by (intro read_settings_one) (auto simp: write_pairs_end)
  also have "\<dots> = map_option (\<lambda>kvs. (kv # ps) @ kvs) (read_settings (Suc n) rest)"
    using Cons kv by (cases "ps = []") (auto simp: option.map_comp o_def)
  finally show ?case .
qed

lemma itoa_no_ctl: "no_ctl_space (itoa i)"
  by (auto simp: no_ctl_space_def pq_space_def is_digit_def dest!: itoa_chars)

lemma dsn_keys_ok: "(k, v) \<in> set (dsn_pairs p u w d) \<Longrightarrow> key_ok k"
  by (auto simp: dsn_pairs_def key_ok_def pq_space_def split: if_splits)

section \<open>Properties\<close>



text \<open>No connection is made without TLS unless the operator asks for it: both connection strings
  carry an sslmode setting, and it is disable only when the configuration says disable; the
  default is require.\<close>

lemma dsn_tls_by_default:
  "(\<exists>a b. DSN p = a @ ''sslmode='' @ quoteLibPQValue (effectiveSSLMode p) @ b) \<and>
   (\<exists>a b. ReplicationDSN p = a @ ''sslmode='' @ quoteLibPQValue (effectiveSSLMode p) @ b) \<and>
   effectiveSSLMode p = (if pg_SSLMode p = [] then ''require'' else pg_SSLMode p) \<and>
   (effectiveSSLMode p = ''disable'' \<longleftrightarrow> pg_SSLMode p = ''disable'')"
proof -
  have "\<exists>a b. buildDSN p u w d e = a @ ''sslmode='' @ quoteLibPQValue (effectiveSSLMode p) @ b" for u w d e
  proof -
    let ?pre = "[(''host'', pg_Host p), (''port'', itoa (pg_Port p)), (''user'', u), (''password'', w),
      (''dbname'', d)]"
    let ?post = "drop 6 (dsn_pairs p u w d)"
    have ps: "dsn_pairs p u w d = ?pre @ (''sslmode'', effectiveSSLMode p) # ?post"
      by (simp add: dsn_pairs_def)
    show ?thesis
      unfolding buildDSN_def
      by (subst ps, simp only: write_pairs_append write_pairs.simps)
        (rule exI[of _ "write_pairs 0 ?pre @ '' ''"], simp)
  qed
  then show ?thesis
    by (auto simp: DSN_def ReplicationDSN_def effectiveSSLMode_def)
qed

text \<open>
  The quoting looks for the space only: a value with a tab is left unquoted, and by the same rules
  it is read back only up to the tab.
\<close>

lemma tab_value_truncated:
  "read_value (quoteLibPQValue ''a\<newline>b'') = Some (''a'', ''\<newline>b'')"
  by code_simp

end
