(* ===== verification/Durations.thy ===== *)
theory Durations
  imports Geo_Prelude
begin

text \<open>
  \<open>time.Duration.String\<close> of Go's standard library: the text of a duration of so many nanoseconds.
  No definition of this theory models code of the repository.
\<close>

text \<open>The decimals of \<open>v / 10^prec\<close>, without trailing zeros, with the point in front if any is left.\<close>

fun digits_of :: "nat \<Rightarrow> int \<Rightarrow> string" where
  "digits_of 0 v = []"
| "digits_of (Suc n) v = digits_of n (v div 10) @ [digit_char (v mod 10)]"

definition frac_str :: "nat \<Rightarrow> int \<Rightarrow> string" where
  "frac_str prec v =
     (let ds = rev (dropWhile (\<lambda>c. c = CHR ''0'') (rev (digits_of prec v)))
      in if ds = [] then [] else ''.'' @ ds)"

definition seconds_str :: "int \<Rightarrow> int \<Rightarrow> string" where
  "seconds_str secs nanos =
     (if secs div 3600 > 0 then itoa (secs div 3600) @ ''h'' else []) @
     (if secs div 60 > 0 then itoa (secs div 60 mod 60) @ ''m'' else []) @
     itoa (secs mod 60) @ frac_str 9 nanos @ ''s''"

definition abs_duration :: "int \<Rightarrow> string" where
  "abs_duration u =
     (if u = 0 then ''0s''
      else if u < 1000 then itoa u @ ''ns''
      else if u < 1000000 then itoa (u div 1000) @ frac_str 3 (u mod 1000) @ [CHR 0xC2, CHR 0xB5] @ ''s''
      else if u < 1000000000 then itoa (u div 1000000) @ frac_str 6 (u mod 1000000) @ ''ms''
      else seconds_str (u div 1000000000) (u mod 1000000000))"

definition duration_str :: "int \<Rightarrow> string" where
  "duration_str d = (if d < 0 then ''-'' @ abs_duration (- d) else abs_duration d)"

lemma duration_examples:
  "duration_str 1500000000 = ''1.5s''" "duration_str 3661000000000 = ''1h1m1s''"
  "duration_str 2000000 = ''2ms''" "duration_str 0 = ''0s''"
  by code_simp+

end
