(* ===== verification/PgRepl.thy ===== *)
theory PgRepl
  imports Dsn Reconciler Durations
begin

text \<open>
  \<open>internal/reconciler/postgres\<close>: the monitor of streaming replication. A pool is named by its DSN;
  opening and closing one are events. The database's answers are values as the driver hands them
  out. The factory is the real one; injected factories and pool accessors for tests are left out.
\<close>

section \<open>The code\<close>

record secondaryConn =
  sc_name :: string
  sc_pool :: string

record pg_reconciler =
  pg_primary :: string
  pg_secondaries :: "secondaryConn list"

definition pg_name :: string where "pg_name = ''postgres''"

text \<open>The loop over the secondaries of \<open>NewWithFactory\<close>; on a failure it closes what it opened.\<close>

definition close_all :: "string list \<Rightarrow> world \<Rightarrow> world" where
  "close_all dsns w = fold (\<lambda>d. emit (CloseConn d)) dsns w"

fun open_secondaries ::
    "string \<Rightarrow> secondaryConn list \<Rightarrow> SiteConfig list \<Rightarrow> world \<Rightarrow> (string + secondaryConn list) \<times> world" where
  "open_secondaries pPool opened [] w = (Inr opened, w)"
| "open_secondaries pPool opened (sc # scs) w =
     (case connect (DSN (site_Postgres sc)) w of
        (Some e, w1) \<Rightarrow>
          (Inl (''connect secondary '' @ site_Name sc @ '' pg: '' @ e),
           close_all (pPool # map sc_pool opened) w1)
      | (None, w1) \<Rightarrow>
          open_secondaries pPool
            (opened @ [\<lparr>sc_name = site_Name sc, sc_pool = DSN (site_Postgres sc)\<rparr>]) scs w1)"

definition NewWithFactory :: "Config \<Rightarrow> world \<Rightarrow> (string + pg_reconciler) \<times> world" where
  "NewWithFactory cfg w =
     (let pdsn = DSN (site_Postgres (Primary cfg)) in
      case connect pdsn w of
        (Some e, w1) \<Rightarrow> (Inl (''connect primary pg: '' @ e), w1)
      | (None, w1) \<Rightarrow>
          (case open_secondaries pdsn [] (Secondaries cfg) w1 of
             (Inl e, w2) \<Rightarrow> (Inl e, w2)
           | (Inr scs, w2) \<Rightarrow> (Inr \<lparr>pg_primary = pdsn, pg_secondaries = scs\<rparr>, w2)))"

definition pg_Close :: "pg_reconciler \<Rightarrow> world \<Rightarrow> world" where
  "pg_Close r w = close_all (pg_primary r # map sc_pool (pg_secondaries r)) w"

definition recovery_sql :: string where "recovery_sql = ''SELECT pg_is_in_recovery()''"

definition lag_sql :: string where
  "lag_sql =
     ''SELECT COALESCE(EXTRACT(EPOCH FROM replay_lag), 0) FROM pg_stat_replication '' @
     ''WHERE application_name = $1 LIMIT 1''"

text \<open>The conversion of seconds to a duration: a float64 product, truncated.\<close>

definition lag_duration :: "rat \<Rightarrow> int" where
  "lag_duration lagSec = f64_trunc (f64_mul lagSec 1000000000)"

definition checkSecondary :: "pg_reconciler \<Rightarrow> secondaryConn \<Rightarrow> world \<Rightarrow> (string + int) \<times> world" where
  "checkSecondary r sc w =
     (case query_row (sc_pool sc) recovery_sql [] w of
        (Inl e, w1) \<Rightarrow> (Inl (''query pg_is_in_recovery: '' @ show_sql_error e), w1)
      | (Inr (SqlBool True), w1) \<Rightarrow>
          (case query_row (pg_primary r) lag_sql [sc_name sc] w1 of
             (Inl e, w2) \<Rightarrow>
               (Inl (''primary has no replication row for '' @ sc_name sc @ '': '' @ show_sql_error e), w2)
           | (Inr (SqlFloat lagSec), w2) \<Rightarrow> (Inr (lag_duration lagSec), w2)
           | (Inr _, w2) \<Rightarrow>
               (Inl (''primary has no replication row for '' @ sc_name sc @ '': scan error''), w2))
      | (Inr (SqlBool False), w1) \<Rightarrow>
          (Inl (''secondary '' @ sc_name sc @ '' is not in recovery mode (already promoted?)''), w1)
      | (Inr _, w1) \<Rightarrow> (Inl ''query pg_is_in_recovery: scan error'', w1))"

text \<open>One iteration of the loop in \<open>Reconcile\<close>, on the result so far and the flag \<open>ok\<close>.\<close>

definition pg_iter :: "pg_reconciler \<Rightarrow> secondaryConn \<Rightarrow> result \<Rightarrow> bool \<Rightarrow> world \<Rightarrow> result \<times> bool \<times> world" where
  "pg_iter r sc result ok w =
     (case checkSecondary r sc w of
        (Inl e, w1) \<Rightarrow>
          (result\<lparr>Remaining := Remaining result + 1,
                  Detail := Detail result @ ''; '' @ sc_name sc @ '' error: '' @ e\<rparr>,
           False, emit (Metric (PGReplayLag (sc_name sc) (- second_ns))) w1)
      | (Inr lag, w1) \<Rightarrow>
          (if lag > 0
           then result\<lparr>Lag := max (Lag result) lag,
                       Detail := Detail result @ ''; '' @ sc_name sc @ '' lag='' @ duration_str lag\<rparr>
           else result,
           ok, emit (Metric (PGReplayLag (sc_name sc) lag)) w1))"

fun pg_loop :: "pg_reconciler \<Rightarrow> secondaryConn list \<Rightarrow> result \<Rightarrow> bool \<Rightarrow> world \<Rightarrow> result \<times> bool \<times> world" where
  "pg_loop r [] result ok w = (result, ok, w)"
| "pg_loop r (sc # scs) result ok w =
     (case pg_iter r sc result ok w of (result', ok', w') \<Rightarrow> pg_loop r scs result' ok' w')"

definition pg_Reconcile :: "pg_reconciler \<Rightarrow> world \<Rightarrow> result \<times> world" where
  "pg_Reconcile r w =
     (case pg_loop r (pg_secondaries r) ((res_ok ''ok'')\<lparr>OK := False\<rparr>) True w of
        (result, ok, w') \<Rightarrow> (result\<lparr>OK := ok\<rparr>, w'))"

fun find_pool :: "secondaryConn list \<Rightarrow> string \<Rightarrow> string option" where
  "find_pool [] n = None"
| "find_pool (s # ss) n = (if sc_name s = n then Some (sc_pool s) else find_pool ss n)"

definition SecondaryPool :: "pg_reconciler \<Rightarrow> string \<Rightarrow> string option" where
  "SecondaryPool r name = find_pool (pg_secondaries r) name"

section \<open>The pools\<close>

lemma close_all_spec: "extends w (close_all ds w) \<and> added w (close_all ds w) = map CloseConn ds"
  unfolding close_all_def
proof (induction ds arbitrary: w)
  case Nil
  then show ?case by simp
next
  case (Cons d ds)
  have 1: "extends (emit (CloseConn d) w) (fold (\<lambda>d. emit (CloseConn d)) ds (emit (CloseConn d) w))"
    "added (emit (CloseConn d) w) (fold (\<lambda>d. emit (CloseConn d)) ds (emit (CloseConn d) w)) = map CloseConn ds"
    using Cons[of "emit (CloseConn d) w"] by auto
  then show ?case
    using added_trans[OF extends_emit 1(1)] extends_trans[OF extends_emit 1(1)] by simp
qed

lemma open_secondaries_spec:
  "open_secondaries p opened scs w = (res, w') \<Longrightarrow> extends w w' \<and>
     (case res of
        Inr all \<Rightarrow> map sc_pool all = map sc_pool opened @ map (\<lambda>s. DSN (site_Postgres s)) scs \<and>
          map sc_name all = map sc_name opened @ map site_Name scs \<and>
          added w w' = map (\<lambda>s. Connect (DSN (site_Postgres s))) scs
      | Inl e \<Rightarrow> \<exists>k < length scs. added w w' =
          map (\<lambda>s. Connect (DSN (site_Postgres s))) (take (Suc k) scs) @
          map CloseConn (p # map sc_pool opened @ map (\<lambda>s. DSN (site_Postgres s)) (take k scs)))"
proof (induction scs arbitrary: opened w)
  case Nil
  then show ?case by auto
next
  case (Cons sc scs)
  let ?d = "DSN (site_Postgres sc)"
  obtain r where c: "connect ?d w = (r, emit (Connect ?d) w)" by (simp add: connect_def)
  show ?case
  proof (cases r)
    case (Some e)
    then have "res = Inl (''connect secondary '' @ site_Name sc @ '' pg: '' @ e)"
      "w' = close_all (p # map sc_pool opened) (emit (Connect ?d) w)" using Cons.prems c by auto
    moreover have "extends w (close_all (p # map sc_pool opened) (emit (Connect ?d) w))"
      "added w (close_all (p # map sc_pool opened) (emit (Connect ?d) w)) = Connect ?d # map CloseConn (p # map sc_pool opened)"
      using close_all_spec[of "emit (Connect ?d) w" "p # map sc_pool opened"]
        added_trans[OF extends_emit[of w "Connect ?d"]] extends_trans[OF extends_emit[of w "Connect ?d"]] by simp_all
    ultimately show ?thesis by (auto intro!: exI[of _ 0])
  next
    case None
    let ?o = "opened @ [\<lparr>sc_name = site_Name sc, sc_pool = ?d\<rparr>]"
    have run: "open_secondaries p ?o scs (emit (Connect ?d) w) = (res, w')"
      using Cons.prems c None by simp
    note IH = Cons.IH[OF run]
    then have a: "extends w w'" "added w w' = Connect ?d # added (emit (Connect ?d) w) w'"
      using added_trans[OF extends_emit[of w "Connect ?d"]] extends_trans[OF extends_emit[of w "Connect ?d"]]
      by simp_all
    show ?thesis
    proof (cases res)
      case (Inr all)
      then show ?thesis using IH a by simp
    next
      case (Inl e)
      then obtain k where "k < length scs" "added (emit (Connect ?d) w) w' =
          map (\<lambda>s. Connect (DSN (site_Postgres s))) (take (Suc k) scs) @
          map CloseConn (p # map sc_pool ?o @ map (\<lambda>s. DSN (site_Postgres s)) (take k scs))"
        using IH by auto
      then show ?thesis using a Inl by (auto intro!: exI[of _ "Suc k"])
    qed
  qed
qed

section \<open>A round of checks\<close>

text \<open>The outcomes of all checks, and the gauge each one sets.\<close>

definition gauge :: "secondaryConn \<Rightarrow> string + int \<Rightarrow> event" where
  "gauge sc out = Metric (PGReplayLag (sc_name sc) (case out of Inl _ \<Rightarrow> - second_ns | Inr lag \<Rightarrow> lag))"

fun check_all :: "pg_reconciler \<Rightarrow> secondaryConn list \<Rightarrow> world \<Rightarrow> (string + int) list \<times> world" where
  "check_all r [] w = ([], w)"
| "check_all r (sc # scs) w =
     (case checkSecondary r sc w of (out, w1) \<Rightarrow>
      case check_all r scs (emit (gauge sc out) w1) of (outs, w2) \<Rightarrow> (out # outs, w2))"

definition lags :: "(string + int) list \<Rightarrow> int list" where
  "lags outs = map (\<lambda>out. case out of Inl _ \<Rightarrow> 0 | Inr lag \<Rightarrow> lag) outs"

lemma checkSecondary_world:
  "extends w (snd (checkSecondary r sc w)) \<and> execs (added w (snd (checkSecondary r sc w))) = []"
  by (auto simp: checkSecondary_def query_row_def added_emitI extends_emitI
      split: sum.splits sql_value.splits bool.splits)

lemma check_all_length: "check_all r scs w = (outs, w') \<Longrightarrow> length outs = length scs"
  by (induction scs arbitrary: w outs) (auto split: prod.splits)

lemma check_all_world:
  "check_all r scs w = (outs, w') \<Longrightarrow> extends w w' \<and> execs (added w w') = []"
proof (induction scs arbitrary: w outs)
  case Nil
  then show ?case by auto
next
  case (Cons sc scs)
  obtain out w1 where c: "checkSecondary r sc w = (out, w1)" by fastforce
  obtain outs' w2 where ca: "check_all r scs (emit (gauge sc out) w1) = (outs', w2)" by fastforce
  have w: "w' = w2" using Cons.prems c ca by simp
  have 1: "extends w w1" "execs (added w w1) = []" using checkSecondary_world[of w r sc] c by auto
  have 2: "extends w (emit (gauge sc out) w1)" "execs (added w (emit (gauge sc out) w1)) = []"
    using 1 by (auto simp: added_emitI gauge_def intro: extends_emitI)
  have 3: "extends (emit (gauge sc out) w1) w'" "execs (added (emit (gauge sc out) w1) w') = []"
    using Cons.IH[OF ca[folded w]] by auto
  have "extends w w'" by (rule extends_trans[OF 2(1) 3(1)])
  moreover have "execs (added w w') = []" unfolding added_trans[OF 2(1) 3(1)] using 2(2) 3(2) by simp
  ultimately show ?case by simp
qed

text \<open>The loop's result is a summary of the outcomes.\<close>

lemma pg_loop_summary:
  assumes "check_all r scs w = (outs, w')" and "0 \<le> Lag res0"
  shows "\<exists>d. pg_loop r scs res0 ok0 w =
    (res0\<lparr>Remaining := Remaining res0 + int (length (filter isl outs)),
          Lag := foldl max (Lag res0) (lags outs), Detail := d\<rparr>,
     ok0 \<and> \<not> (\<exists>out \<in> set outs. isl out), w')"
  using assms
proof (induction scs arbitrary: w outs res0 ok0)
  case Nil
  then show ?case by (intro exI[of _ "Detail res0"]) (auto simp: lags_def)
next
  case (Cons sc scs)
  obtain out w1 where c: "checkSecondary r sc w = (out, w1)" by fastforce
  obtain outs' w2 where ca: "check_all r scs (emit (gauge sc out) w1) = (outs', w2)" by fastforce
  have o: "outs = out # outs'" "w2 = w'" using Cons.prems c ca by simp_all
  show ?case
  proof (cases out)
    case (Inl e)
    let ?res1 = "res0\<lparr>Remaining := Remaining res0 + 1,
        Detail := Detail res0 @ ''; '' @ sc_name sc @ '' error: '' @ e\<rparr>"
    have it: "pg_iter r sc res0 ok0 w = (?res1, False, emit (gauge sc out) w1)"
      using c Inl by (simp add: pg_iter_def gauge_def)
    obtain d where "pg_loop r scs ?res1 False (emit (gauge sc out) w1) =
       (?res1\<lparr>Remaining := Remaining ?res1 + int (length (filter isl outs')),
          Lag := foldl max (Lag ?res1) (lags outs'), Detail := d\<rparr>, False, w')"
      using Cons.IH[OF ca[unfolded o(2)], of ?res1 False] Cons.prems(2) by auto
    then show ?thesis
      using it o(1) Inl Cons.prems(2) by (intro exI[of _ d]) (simp add: lags_def add.assoc)
  next
    case (Inr lag)
    define res1 where "res1 = (if lag > 0
        then res0\<lparr>Lag := max (Lag res0) lag,
             Detail := Detail res0 @ ''; '' @ sc_name sc @ '' lag='' @ duration_str lag\<rparr> else res0)"
    have it: "pg_iter r sc res0 ok0 w = (res1, ok0, emit (gauge sc out) w1)"
      using c Inr by (simp add: pg_iter_def gauge_def res1_def)
    have l: "Lag res1 = max (Lag res0) lag" "0 \<le> Lag res1" "Remaining res1 = Remaining res0"
      using Cons.prems(2) by (auto simp: res1_def)
    obtain d where d: "pg_loop r scs res1 ok0 (emit (gauge sc out) w1) =
       (res1\<lparr>Remaining := Remaining res1 + int (length (filter isl outs')),
          Lag := foldl max (Lag res1) (lags outs'), Detail := d\<rparr>,
        ok0 \<and> \<not> (\<exists>out \<in> set outs'. isl out), w')"
      using Cons.IH[OF ca[unfolded o(2)] l(2), of ok0] by auto
    have u: "res1\<lparr>Remaining := x, Lag := y, Detail := d\<rparr> = res0\<lparr>Remaining := x, Lag := y, Detail := d\<rparr>" for x y
      by (simp add: res1_def)
    show ?thesis
      using it d o(1) Inr unfolding l(1,3) u by (intro exI[of _ d]) (simp add: lags_def)
  qed
qed

lemma pg_Reconcile_summary:
  assumes "check_all r (pg_secondaries r) w = (outs, w')"
  shows "\<exists>d. pg_Reconcile r w =
    (\<lparr>OK = \<not> (\<exists>out \<in> set outs. isl out), Lag = foldl max 0 (lags outs), Detail = d, Repaired = 0,
      Remaining = int (length (filter isl outs))\<rparr>, w')"
  using pg_loop_summary[OF assms, of "(res_ok ''ok'')\<lparr>OK := False\<rparr>" True]
  by (auto simp: pg_Reconcile_def)

interpretation postgres_rec: strict_reconciler "graph_of (pg_Reconcile r)" for r
proof unfold_locales
  fix w res w'
  obtain outs w2 where c: "check_all r (pg_secondaries r) w = (outs, w2)" by fastforce
  obtain d where P: "pg_Reconcile r w =
    (\<lparr>OK = \<not> (\<exists>out \<in> set outs. isl out), Lag = foldl max 0 (lags outs), Detail = d, Repaired = 0,
      Remaining = int (length (filter isl outs))\<rparr>, w2)" using pg_Reconcile_summary[OF c] by blast
  show "graph_of (pg_Reconcile r) w res w' \<Longrightarrow> extends w w'"
    using check_all_world[OF c] P by (auto simp: graph_of_def)
  show "\<exists>res w'. graph_of (pg_Reconcile r) w res w'"
    unfolding graph_of_def by (metis prod.collapse)
  show "graph_of (pg_Reconcile r) w res w' \<Longrightarrow> OK res \<Longrightarrow> Remaining res = 0"
    using P by (auto simp: graph_of_def filter_empty_conv)
qed

lemma checkSecondary_ok:
  "checkSecondary r sc w = (Inr lag, w') \<Longrightarrow>
   sql_reply w (trace w) (sc_pool sc) recovery_sql [] = Inr (SqlBool True) \<and>
   (\<exists>f. sql_reply w (trace w @ [Query (sc_pool sc) recovery_sql []]) (pg_primary r) lag_sql [sc_name sc] =
      Inr (SqlFloat f) \<and> lag = lag_duration f)"
  by (auto simp: checkSecondary_def query_row_def split: sum.splits sql_value.splits bool.splits)

interpretation postgres_confined: confined_reconciler "graph_of (pg_Reconcile r)" "{}" for r
proof unfold_locales
  fix w res w'
  obtain outs w2 where c: "check_all r (pg_secondaries r) w = (outs, w2)" by fastforce
  show "graph_of (pg_Reconcile r) w res w' \<Longrightarrow> set (execs (added w w')) \<subseteq> {}"
    using pg_Reconcile_summary[OF c] check_all_world[OF c] by (auto simp: graph_of_def)
qed

lemma pg_sql_reads: "reading_sql recovery_sql" "reading_sql lag_sql"
  by (simp_all add: reading_sql_def recovery_sql_def lag_sql_def)

lemma checkSecondary_observes: "observes w (snd (checkSecondary r sc w))"
  using pg_sql_reads
  by (auto simp: checkSecondary_def query_row_def split: sum.splits sql_value.splits bool.splits intro!: observes_emit)

lemma check_all_observes: "check_all r scs w = (outs, w') \<Longrightarrow> observes w w'"
proof (induction scs arbitrary: w outs)
  case (Cons sc scs)
  obtain out w1 where c: "checkSecondary r sc w = (out, w1)" by fastforce
  obtain outs' w2 where ca: "check_all r scs (emit (gauge sc out) w1) = (outs', w2)" by fastforce
  have "observes w (emit (gauge sc out) w1)"
    using checkSecondary_observes[of w r sc] c by (auto simp: gauge_def intro: observes_emit)
  then show ?case using observes_trans[OF _ Cons.IH] Cons.prems c ca by simp
qed simp

interpretation postgres_reads: reading_reconciler "graph_of (pg_Reconcile r)" for r
proof unfold_locales
  fix w res w'
  obtain outs w2 where c: "check_all r (pg_secondaries r) w = (outs, w2)" by fastforce
  show "graph_of (pg_Reconcile r) w res w' \<Longrightarrow> observes w w'"
    using pg_Reconcile_summary[OF c] check_all_observes[OF c] by (auto simp: graph_of_def)
qed

lemma close_all_observes: "observes w (close_all ds w)"
  unfolding close_all_def by (rule observes_fold) simp

lemma NewWithFactory_observes: "NewWithFactory cfg w = (res, w') \<Longrightarrow> observes w w'"
proof -
  have o: "open_secondaries p opened scs w = (res, w') \<Longrightarrow> observes w w'" for p opened scs w res w'
  proof (induction scs arbitrary: opened w)
    case (Cons sc scs)
    then show ?case
      using close_all_observes observes_after[of "Connect (DSN (site_Postgres sc))" w w']
      by (auto simp: connect_def split: option.splits)
  qed simp
  show "NewWithFactory cfg w = (res, w') \<Longrightarrow> observes w w'"
    using observes_after[of "Connect (DSN (site_Postgres (Primary cfg)))" w]
    by (auto simp: NewWithFactory_def Let_def connect_def split: option.splits prod.splits sum.splits dest!: o
        intro!: observes_emits)
qed

section \<open>Properties\<close>

text \<open>No pool is leaked: opening either fails at the primary, or fails at the k-th secondary and
  then has closed the primary's pool and all those opened before, or has opened exactly one pool
  per site, and closing the monitor closes exactly these.\<close>

lemma pg_pools_balanced:
  assumes "NewWithFactory cfg w = (res, w')"
  shows "(let p = DSN (site_Postgres (Primary cfg));
        ds = map (\<lambda>s. DSN (site_Postgres s)) (Secondaries cfg) in
     case res of
       Inr r \<Rightarrow> added w w' = map Connect (p # ds) \<and> added w' (pg_Close r w') = map CloseConn (p # ds)
     | Inl e \<Rightarrow> added w w' = [Connect p] \<or>
         (\<exists>k < length ds. added w w' =
            map Connect (p # take (Suc k) ds) @ map CloseConn (p # take k ds)))"
proof -
  let ?p = "DSN (site_Postgres (Primary cfg))"
  let ?w1 = "emit (Connect ?p) w"
  obtain r0 where c: "connect ?p w = (r0, ?w1)" by (simp add: connect_def)
  show ?thesis
  proof (cases r0)
    case (Some e)
    then show ?thesis using assms c by (auto simp: NewWithFactory_def Let_def)
  next
    case None
    obtain rs w2 where o: "open_secondaries ?p [] (Secondaries cfg) ?w1 = (rs, w2)" by fastforce
    note S = open_secondaries_spec[OF o]
    then have a: "added w w2 = Connect ?p # added ?w1 w2"
      using added_trans[OF extends_emit[of w "Connect ?p"]] by simp
    show ?thesis
    proof (cases rs)
      case (Inl e)
      then have "res = Inl e" "w' = w2" using assms c None o by (auto simp: NewWithFactory_def Let_def)
      then show ?thesis using S a Inl by (auto simp: Let_def take_map)
    next
      case (Inr scs)
      then have r: "res = Inr \<lparr>pg_primary = ?p, pg_secondaries = scs\<rparr>" "w' = w2"
        using assms c None o by (auto simp: NewWithFactory_def Let_def)
      have m: "map sc_pool scs = map (\<lambda>s. DSN (site_Postgres s)) (Secondaries cfg)"
        "added ?w1 w2 = map (\<lambda>s. Connect (DSN (site_Postgres s))) (Secondaries cfg)"
        using S Inr by simp_all
      have "added w2 (pg_Close \<lparr>pg_primary = ?p, pg_secondaries = scs\<rparr> w2) =
          map CloseConn (?p # map (\<lambda>s. DSN (site_Postgres s)) (Secondaries cfg))"
        using close_all_spec m(1) by (simp add: pg_Close_def)
      then show ?thesis using r a m(2) by (simp add: Let_def)
    qed
  qed
qed

lemma pg_pools_balanced_witness:
  "added (calm_world []) (snd (NewWithFactory sample_config (calm_world []))) =
     map Connect [DSN (site_Postgres (sample_site ''eu'')), DSN (site_Postgres (sample_site ''us''))]"
proof -
  obtain res w' where N: "NewWithFactory sample_config (calm_world []) = (res, w')" by fastforce
  have "\<not> isl (fst (NewWithFactory sample_config (calm_world [])))"
    by (simp add: NewWithFactory_def sample_config_def connect_def calm_world_def Let_def)
  then obtain r where "res = Inr r" using N by (cases res) auto
  then show ?thesis
    using pg_pools_balanced[OF N] N by (simp add: sample_config_def Let_def)
qed


definition promoted_world :: world where
  "promoted_world = calm_world []\<lparr>sql_reply := (\<lambda>_ _ _ _. Inr (SqlBool False))\<rparr>"


end

