(* ===== verification/Consistency.thy ===== *)
theory Consistency
  imports PgRepl Rsync "HOL-Library.Signed_Division"
begin

text \<open>
  \<open>internal/reconciler/consistency\<close>: the audit that compares planner row counts of both databases
  and runs git fsck on a random sample of the repositories on disk. Counts are signed 64-bit
  words. The file tree under the repositories' path and the random numbers are the world's.
\<close>

section \<open>Row counts\<close>

record consistency =
  cs_primary :: string
  cs_secondary :: string
  cs_secondaryName :: string
  cs_reposPath :: string
  cs_samplePct :: rat

definition cs_name :: string where "cs_name = ''consistency_sweep''"

definition cs_New :: "string \<Rightarrow> string \<Rightarrow> string \<Rightarrow> string \<Rightarrow> rat \<Rightarrow> consistency" where
  "cs_New primary secondary secondaryName reposPath samplePct =
     \<lparr>cs_primary = primary, cs_secondary = secondary, cs_secondaryName = secondaryName,
      cs_reposPath = reposPath, cs_samplePct = samplePct\<rparr>"

definition tablesToCount :: "string list" where
  "tablesToCount =
     [''projects'', ''namespaces'', ''users'', ''merge_requests'', ''issues'', ''notes'', ''ci_builds'',
      ''ci_pipelines'', ''labels'', ''milestones'']"

definition count_sql :: string where
  "count_sql = ''SELECT reltuples::bigint FROM pg_class WHERE relname = $1 AND relkind = '' @
     [CHR 0x27] @ ''r'' @ [CHR 0x27] @ '' LIMIT 1''"

definition rowCount :: "string \<Rightarrow> string \<Rightarrow> world \<Rightarrow> (string + 64 word) \<times> world" where
  "rowCount pool table w =
     (case query_row pool count_sql [table] w of
        (Inl ErrNoRows, w1) \<Rightarrow> (Inr 0, w1)
      | (Inl (SqlError e), w1) \<Rightarrow> (Inl e, w1)
      | (Inr (SqlInt n), w1) \<Rightarrow>
          (if - (2 ^ 63) \<le> n \<and> n < 2 ^ 63 then Inr (word_of_int n) else Inl ''scan error'', w1)
      | (Inr _, w1) \<Rightarrow> (Inl ''scan error'', w1))"

text \<open>Go's division of signed integers truncates towards zero.\<close>

definition word_quot :: "64 word \<Rightarrow> int \<Rightarrow> 64 word" where
  "word_quot a k = word_of_int (sint a sdiv k)"

definition isApproxEqual :: "64 word \<Rightarrow> 64 word \<Rightarrow> bool" where
  "isApproxEqual a b =
     (let d = a - b;
          diff = (if sint d < 0 then - d else d);
          t = (if sint b > sint a then word_quot b 10 else word_quot a 10);
          tolerance = (if sint t < 5 then 5 else t)
      in sint diff \<le> sint tolerance)"

text \<open>What the loop finds for one table.\<close>

datatype table_outcome = PrimaryErr string | SecondaryErr string | Same | Drift "64 word" "64 word"

definition table_check :: "consistency \<Rightarrow> string \<Rightarrow> world \<Rightarrow> table_outcome \<times> world" where
  "table_check r table w =
     (case rowCount (cs_primary r) table w of
        (Inl e, w1) \<Rightarrow> (PrimaryErr e, w1)
      | (Inr pCount, w1) \<Rightarrow>
          (case rowCount (cs_secondary r) table w1 of
             (Inl e, w2) \<Rightarrow> (SecondaryErr e, w2)
           | (Inr sCount, w2) \<Rightarrow>
               (if pCount \<noteq> sCount
                then (if isApproxEqual pCount sCount then Same else Drift pCount sCount)
                else Same, w2)))"

definition table_iter :: "consistency \<Rightarrow> string \<Rightarrow> result \<Rightarrow> int \<Rightarrow> world \<Rightarrow> result \<times> int \<times> world" where
  "table_iter r table result drifts w =
     (case table_check r table w of
        (PrimaryErr e, w1) \<Rightarrow>
          (result\<lparr>Remaining := Remaining result + 1,
                  Detail := Detail result @ ''; '' @ table @ '' primary count error: '' @ e\<rparr>, drifts, w1)
      | (SecondaryErr e, w1) \<Rightarrow>
          (result\<lparr>Remaining := Remaining result + 1,
                  Detail := Detail result @ ''; '' @ table @ '' secondary count error: '' @ e\<rparr>, drifts, w1)
      | (Same, w1) \<Rightarrow> (result, drifts, w1)
      | (Drift p s, w1) \<Rightarrow>
          (result\<lparr>Remaining := Remaining result + 1,
                  Detail := Detail result @ ''; '' @ table @ '' drift: primary='' @ itoa (sint p) @
                            '' secondary='' @ itoa (sint s)\<rparr>,
           drifts + 1, emit (Metric (DriftTotal (''db:'' @ table) ''warning'')) w1))"

fun table_loop :: "consistency \<Rightarrow> string list \<Rightarrow> result \<Rightarrow> int \<Rightarrow> world \<Rightarrow> result \<times> int \<times> world" where
  "table_loop r [] result drifts w = (result, drifts, w)"
| "table_loop r (table # tables) result drifts w =
     (case table_iter r table result drifts w of
        (result', drifts', w') \<Rightarrow> table_loop r tables result' drifts' w')"

section \<open>The fsck sample\<close>

definition git_dir :: "string \<Rightarrow> bool" where
  "git_dir path \<longleftrightarrow> path_base path = ''.git'' \<or> has_suffix path ''.git''"

text \<open>The walk: the repositories found, and the paths that could not be read.\<close>

fun walk_repos :: "string \<Rightarrow> fs_tree \<Rightarrow> string list \<times> string list"
  and walk_entries :: "string \<Rightarrow> (string \<times> fs_tree) list \<Rightarrow> string list \<times> string list" where
  "walk_repos path FsFile = ([], [])"
| "walk_repos path FsUnreadable = ([], [path])"
| "walk_repos path (FsDir entries) =
     (if git_dir path then ([path], []) else walk_entries path entries)"
| "walk_entries path [] = ([], [])"
| "walk_entries path ((n, t) # es) =
     (case walk_repos (path_join [path, n]) t of (rs, us) \<Rightarrow>
      case walk_entries path es of (rs', us') \<Rightarrow> (rs @ rs', us @ us'))"

definition gitFsck :: "string \<Rightarrow> world \<Rightarrow> bool \<times> world" where
  "gitFsck repoPath w =
     (case exec_cmd ''git'' [''-C'', repoPath, ''fsck'', ''--no-dangling''] [] w of
        ((out, Some e), w1) \<Rightarrow> (False, emit (Logged ''warn'' (''git fsck failed: '' @ repoPath)) w1)
      | ((out, None), w1) \<Rightarrow> (True, w1))"

text \<open>\<open>rng.Intn\<close> yields an index below the length, whatever the generator draws.\<close>

definition pick :: "string list \<Rightarrow> world \<Rightarrow> string" where
  "pick repos w = repos ! nat (rand_draw w (trace w) mod int (length repos))"

fun fsck_loop :: "nat \<Rightarrow> string list \<Rightarrow> int \<Rightarrow> world \<Rightarrow> int \<times> world" where
  "fsck_loop 0 repos failed w = (failed, w)"
| "fsck_loop (Suc n) repos failed w =
     (case gitFsck (pick repos w) w of
        (True, w1) \<Rightarrow> fsck_loop n repos failed w1
      | (False, w1) \<Rightarrow> fsck_loop n repos (failed + 1) (emit (Metric (DriftTotal ''git_fsck'' ''critical'')) w1))"

definition sample_size :: "rat \<Rightarrow> string list \<Rightarrow> int" where
  "sample_size pct repos =
     (let n = f64_trunc (f64_mul (of_nat (length repos)) pct) in if n < 1 then 1 else n)"

definition sampleGitFsck :: "consistency \<Rightarrow> world \<Rightarrow> int \<times> world" where
  "sampleGitFsck r w =
     (if cs_samplePct r \<le> 0 \<or> cs_reposPath r = [] then (0, w)
      else (case walk_repos (cs_reposPath r) (dir_tree w (trace w) (cs_reposPath r)) of
              (allRepos, unread) \<Rightarrow>
                (let w1 = fold (\<lambda>p. emit (Logged ''warn'' (''walk error during git fsck sample: '' @ p))) unread w
                 in if allRepos = [] then (0, w1)
                    else fsck_loop (nat (sample_size (cs_samplePct r) allRepos)) allRepos 0 w1)))"

definition cs_Reconcile :: "consistency \<Rightarrow> world \<Rightarrow> result \<times> world" where
  "cs_Reconcile r w =
     (case table_loop r tablesToCount ((res_ok ''sweep complete'')\<lparr>OK := False\<rparr>) 0 w of
        (result, drifts, w1) \<Rightarrow>
          (case (if cs_reposPath r \<noteq> [] then sampleGitFsck r w1 else (0, w1)) of
             (fsckDrifts, w2) \<Rightarrow>
               (result\<lparr>OK := (drifts + fsckDrifts = 0), Repaired := 0\<rparr>, w2)))"

section \<open>The tolerance band\<close>

lemma sint_sub_nonneg:
  fixes a b :: "64 word"
  assumes "0 \<le> sint a" "0 \<le> sint b"
  shows "sint (a - b) = sint a - sint b"
proof -
  have "sint a < 2 ^ 63" "sint b < 2 ^ 63" using sint_lt[of a] sint_lt[of b] by simp_all
  then have "signed_take_bit 63 (sint a - sint b) = sint a - sint b"
    using assms by (intro signed_take_bit_int_eq_self) auto
  then show ?thesis by (simp add: sint_word_ariths)
qed

lemma sint_word_quot:
  assumes "0 \<le> sint a"
  shows "sint (word_quot a 10) = sint a div 10"
proof -
  have "sint a < 2 ^ 63" using sint_lt[of a] by simp
  then have "signed_take_bit 63 (sint a div 10) = sint a div 10"
    using assms by (intro signed_take_bit_int_eq_self) auto
  moreover have "sint a sdiv 10 = sint a div 10"
    using assms by (simp add: signed_divide_int_def sgn_if)
  ultimately show ?thesis by (simp add: word_quot_def sint_sbintrunc')
qed

section \<open>Lemmas\<close>

lemma rowCount_world: "snd (rowCount p t w) = emit (Query p count_sql [t]) w"
  by (simp add: rowCount_def query_row_def split: sum.splits sql_error.splits sql_value.splits)

lemma table_check_world:
  "extends w (snd (table_check r t w)) \<and> execs (added w (snd (table_check r t w))) = []"
proof -
  obtain p where p: "rowCount (cs_primary r) t w = (p, emit (Query (cs_primary r) count_sql [t]) w)"
    using rowCount_world by (metis prod.collapse)
  let ?w1 = "emit (Query (cs_primary r) count_sql [t]) w"
  obtain s where s: "rowCount (cs_secondary r) t ?w1 = (s, emit (Query (cs_secondary r) count_sql [t]) ?w1)"
    using rowCount_world by (metis prod.collapse)
  show ?thesis
    using p s by (cases p; cases s) (auto simp: table_check_def added_emitI intro: extends_emitI)
qed

text \<open>All the table checks, with the drift counter the loop raises.\<close>

definition table_mark :: "string \<Rightarrow> table_outcome \<Rightarrow> world \<Rightarrow> world" where
  "table_mark t out w =
     (case out of Drift _ _ \<Rightarrow> emit (Metric (DriftTotal (''db:'' @ t) ''warning'')) w | _ \<Rightarrow> w)"

fun table_checks :: "consistency \<Rightarrow> string list \<Rightarrow> world \<Rightarrow> table_outcome list \<times> world" where
  "table_checks r [] w = ([], w)"
| "table_checks r (t # ts) w =
     (case table_check r t w of (out, w1) \<Rightarrow>
      case table_checks r ts (table_mark t out w1) of (outs, w2) \<Rightarrow> (out # outs, w2))"

fun is_drift :: "table_outcome \<Rightarrow> bool" where
  "is_drift (Drift _ _) = True"
| "is_drift _ = False"

lemma table_mark_world: "extends w (table_mark t out w) \<and> execs (added w (table_mark t out w)) = []"
  by (simp add: table_mark_def split: table_outcome.splits)

lemma table_checks_world:
  "table_checks r ts w = (outs, w') \<Longrightarrow> extends w w' \<and> execs (added w w') = [] \<and> length outs = length ts"
proof (induction ts arbitrary: w outs)
  case Nil
  then show ?case by auto
next
  case (Cons t ts)
  obtain out w1 where c: "table_check r t w = (out, w1)" by fastforce
  obtain outs' w2 where ca: "table_checks r ts (table_mark t out w1) = (outs', w2)" by fastforce
  have w: "w' = w2" "outs = out # outs'" using Cons.prems c ca by simp_all
  have 1: "extends w w1" "execs (added w w1) = []" using table_check_world[of w r t] c by auto
  have m: "extends w1 (table_mark t out w1)" "execs (added w1 (table_mark t out w1)) = []"
    using table_mark_world by auto
  have 2: "extends w (table_mark t out w1)" by (rule extends_trans[OF 1(1) m(1)])
  have 3: "extends (table_mark t out w1) w'" "execs (added (table_mark t out w1) w') = []"
    "length outs' = length ts"
    using Cons.IH[OF ca[folded w(1)]] by auto
  have "extends w w'" by (rule extends_trans[OF 2 3(1)])
  moreover have "execs (added w w') = []"
    unfolding added_trans[OF 2 3(1)] added_trans[OF 1(1) m(1)] using 1(2) m(2) 3(2) by simp
  ultimately show ?case using 3(3) w(2) by simp
qed

lemma table_loop_summary:
  assumes "table_checks r ts w = (outs, w')"
  shows "\<exists>d. table_loop r ts res0 n0 w =
    (res0\<lparr>Remaining := Remaining res0 + int (length (filter (\<lambda>out. out \<noteq> Same) outs)), Detail := d\<rparr>,
     n0 + int (length (filter is_drift outs)), w')"
  using assms
proof (induction ts arbitrary: w outs res0 n0)
  case Nil
  then show ?case by (intro exI[of _ "Detail res0"]) auto
next
  case (Cons t ts)
  obtain out w1 where c: "table_check r t w = (out, w1)" by fastforce
  obtain outs' w2 where ca: "table_checks r ts (table_mark t out w1) = (outs', w2)" by fastforce
  have o: "outs = out # outs'" "w2 = w'" using Cons.prems c ca by simp_all
  obtain res1 n1 where it: "table_iter r t res0 n0 w = (res1, n1, table_mark t out w1)"
    "n1 = n0 + (if is_drift out then 1 else 0)"
    "Remaining res1 = Remaining res0 + (if out = Same then 0 else 1)"
    "\<And>x y. res1\<lparr>Remaining := x, Detail := y\<rparr> = res0\<lparr>Remaining := x, Detail := y\<rparr>"
    using c by (cases out) (auto simp: table_iter_def table_mark_def)
  obtain d where "table_loop r ts res1 n1 (table_mark t out w1) =
    (res1\<lparr>Remaining := Remaining res1 + int (length (filter (\<lambda>out. out \<noteq> Same) outs')), Detail := d\<rparr>,
     n1 + int (length (filter is_drift outs')), w')"
    using Cons.IH[OF ca[unfolded o(2)]] by blast
  then show ?case
    using it o(1) by (intro exI[of _ d]) (simp add: add.assoc)
qed

lemma gitFsck_world:
  "extends w (snd (gitFsck p w)) \<and>
   execs (added w (snd (gitFsck p w))) = [(''git'', [''-C'', p, ''fsck'', ''--no-dangling''])]"
  by (simp add: gitFsck_def exec_cmd_def added_emitI extends_emitI split: prod.splits option.splits)

lemma pick_in: "repos \<noteq> [] \<Longrightarrow> pick repos w \<in> set repos"
  unfolding pick_def by (intro nth_mem) (simp add: nat_less_iff)

lemma fsck_loop_spec:
  assumes "fsck_loop n repos f0 w = (f, w')" and "repos \<noteq> []"
  shows "extends w w' \<and> length (execs (added w w')) = n \<and> f0 \<le> f \<and> f \<le> f0 + int n \<and>
    set (execs (added w w')) \<subseteq> {(''git'', [''-C'', p, ''fsck'', ''--no-dangling'']) |p. p \<in> set repos}"
  using assms(1)
proof (induction n arbitrary: f0 w)
  case 0
  then show ?case by simp
next
  case (Suc n)
  let ?p = "pick repos w"
  obtain ok w1 where g: "gitFsck ?p w = (ok, w1)" by fastforce
  have 1: "extends w w1" "execs (added w w1) = [(''git'', [''-C'', ?p, ''fsck'', ''--no-dangling''])]"
    using gitFsck_world[of w ?p] g by auto
  define w2 where "w2 = (if ok then w1 else emit (Metric (DriftTotal ''git_fsck'' ''critical'')) w1)"
  define f1 where "f1 = (if ok then f0 else f0 + 1)"
  have 2: "extends w w2" "execs (added w w2) = [(''git'', [''-C'', ?p, ''fsck'', ''--no-dangling''])]"
    using 1 by (auto simp: w2_def added_emitI intro: extends_emitI)
  have run: "fsck_loop n repos f1 w2 = (f, w')"
    using Suc.prems g by (cases ok) (simp_all add: w2_def f1_def)
  have f1: "f0 \<le> f1" "f1 \<le> f0 + 1" by (simp_all add: f1_def)
  have 3: "extends w2 w'" "length (execs (added w2 w')) = n" "f1 \<le> f" "f \<le> f1 + int n"
    "set (execs (added w2 w')) \<subseteq> {(''git'', [''-C'', p, ''fsck'', ''--no-dangling'']) |p. p \<in> set repos}"
    using Suc.IH[OF run] by blast+
  have e: "execs (added w w') = (''git'', [''-C'', ?p, ''fsck'', ''--no-dangling'']) # execs (added w2 w')"
    unfolding added_trans[OF 2(1) 3(1)] using 2(2) by simp
  have "extends w w'" by (rule extends_trans[OF 2(1) 3(1)])
  moreover have "(''git'', [''-C'', ?p, ''fsck'', ''--no-dangling'']) \<in>
      {(''git'', [''-C'', p, ''fsck'', ''--no-dangling'']) |p. p \<in> set repos}"
    using pick_in[OF assms(2)] by blast
  ultimately show ?case
    unfolding e using 3(2-5) f1 by simp
qed

lemma fold_warn:
  "extends w (fold (\<lambda>p. emit (Logged l (f p))) us w) \<and>
   execs (added w (fold (\<lambda>p. emit (Logged l (f p))) us w)) = []"
proof (induction us arbitrary: w)
  case Nil
  then show ?case by simp
next
  case (Cons u us)
  let ?w1 = "emit (Logged l (f u)) w"
  have "extends ?w1 (fold (\<lambda>p. emit (Logged l (f p))) us ?w1)"
    "execs (added ?w1 (fold (\<lambda>p. emit (Logged l (f p))) us ?w1)) = []" using Cons by auto
  then show ?case
    using added_trans[OF extends_emit[of w "Logged l (f u)"]] extends_trans[OF extends_emit[of w "Logged l (f u)"]]
    by simp
qed

definition found_repos :: "consistency \<Rightarrow> world \<Rightarrow> string list" where
  "found_repos r w = fst (walk_repos (cs_reposPath r) (dir_tree w (trace w) (cs_reposPath r)))"

lemma sampleGitFsck_spec:
  assumes "sampleGitFsck r w = (f, w')"
  shows "extends w w' \<and> 0 \<le> f \<and> f \<le> int (length (execs (added w w'))) \<and>
    length (execs (added w w')) =
      (if cs_samplePct r \<le> 0 \<or> cs_reposPath r = [] \<or> found_repos r w = [] then 0
       else nat (sample_size (cs_samplePct r) (found_repos r w))) \<and>
    set (execs (added w w')) \<subseteq>
      {(''git'', [''-C'', p, ''fsck'', ''--no-dangling'']) |p. p \<in> set (found_repos r w)}"
proof (cases "cs_samplePct r \<le> 0 \<or> cs_reposPath r = []")
  case True
  then have "f = 0" "w' = w" using assms by (auto simp: sampleGitFsck_def)
  then show ?thesis using True by auto
next
  case False
  obtain us where us: "walk_repos (cs_reposPath r) (dir_tree w (trace w) (cs_reposPath r)) = (found_repos r w, us)"
    unfolding found_repos_def by (metis prod.collapse)
  define w1 where "w1 = fold (\<lambda>p. emit (Logged ''warn'' (''walk error during git fsck sample: '' @ p))) us w"
  have 1: "extends w w1" "execs (added w w1) = []" unfolding w1_def using fold_warn by blast+
  show ?thesis
  proof (cases "found_repos r w = []")
    case True
    then have "f = 0" "w' = w1" using assms False us by (auto simp: sampleGitFsck_def w1_def)
    then show ?thesis using 1 True by auto
  next
    case ne: False
    have l: "fsck_loop (nat (sample_size (cs_samplePct r) (found_repos r w))) (found_repos r w) 0 w1 = (f, w')"
      using assms False us ne by (simp add: sampleGitFsck_def w1_def Let_def)
    note F = fsck_loop_spec[OF l ne]
    have x: "extends w1 w'" using F by blast
    have e: "execs (added w w') = execs (added w1 w')"
      unfolding added_trans[OF 1(1) x] using 1(2) by simp
    have "extends w w'" by (rule extends_trans[OF 1(1) x])
    then show ?thesis unfolding e using F False ne by simp
  qed
qed

definition fsck_part :: "consistency \<Rightarrow> world \<Rightarrow> int \<times> world" where
  "fsck_part r w = (if cs_reposPath r \<noteq> [] then sampleGitFsck r w else (0, w))"

lemma cs_Reconcile_summary:
  assumes "table_checks r tablesToCount w = (outs, w1)" and "fsck_part r w1 = (f, w2)"
  shows "\<exists>d. cs_Reconcile r w =
    (\<lparr>OK = (int (length (filter is_drift outs)) + f = 0), Lag = 0, Detail = d, Repaired = 0,
      Remaining = int (length (filter (\<lambda>out. out \<noteq> Same) outs))\<rparr>, w2)"
proof -
  obtain d where "table_loop r tablesToCount ((res_ok ''sweep complete'')\<lparr>OK := False\<rparr>) 0 w =
    (((res_ok ''sweep complete'')\<lparr>OK := False\<rparr>)\<lparr>Remaining := Remaining ((res_ok ''sweep complete'')\<lparr>OK := False\<rparr>) +
        int (length (filter (\<lambda>out. out \<noteq> Same) outs)), Detail := d\<rparr>,
     0 + int (length (filter is_drift outs)), w1)"
    using table_loop_summary[OF assms(1)] by blast
  then show ?thesis
    using assms(2) by (simp add: cs_Reconcile_def fsck_part_def)
qed

lemma fsck_part_spec:
  assumes "fsck_part r w = (f, w')"
  shows "extends w w' \<and> 0 \<le> f \<and> f \<le> int (length (execs (added w w'))) \<and>
    length (execs (added w w')) =
      (if cs_samplePct r \<le> 0 \<or> cs_reposPath r = [] \<or> found_repos r w = [] then 0
       else nat (sample_size (cs_samplePct r) (found_repos r w))) \<and>
    set (execs (added w w')) \<subseteq>
      {(''git'', [''-C'', p, ''fsck'', ''--no-dangling'']) |p. p \<in> set (found_repos r w)}"
proof (cases "cs_reposPath r = []")
  case True
  then have "f = 0" "w' = w" using assms by (auto simp: fsck_part_def)
  then show ?thesis using True by auto
next
  case False
  then have "sampleGitFsck r w = (f, w')" using assms by (simp add: fsck_part_def)
  then show ?thesis by (rule sampleGitFsck_spec)
qed

interpretation consistency_rec: reconciler "graph_of (cs_Reconcile r)" for r
proof unfold_locales
  fix w res w'
  obtain outs w1 where c: "table_checks r tablesToCount w = (outs, w1)" by fastforce
  obtain f w2 where g: "fsck_part r w1 = (f, w2)" by fastforce
  have "extends w w1" "extends w1 w2" using table_checks_world[OF c] fsck_part_spec[OF g] by auto
  then have "extends w w2" by (rule extends_trans)
  then show "graph_of (cs_Reconcile r) w res w' \<Longrightarrow> extends w w'"
    using cs_Reconcile_summary[OF c g] by (auto simp: graph_of_def)
  show "\<exists>res w'. graph_of (cs_Reconcile r) w res w'"
    unfolding graph_of_def by (metis prod.collapse)
qed

definition fsck_calls :: "consistency \<Rightarrow> (string \<times> string list) set" where
  "fsck_calls r =
     {(''git'', [''-C'', p, ''fsck'', ''--no-dangling'']) |p t. p \<in> set (fst (walk_repos (cs_reposPath r) t))}"

interpretation consistency_confined: confined_reconciler "graph_of (cs_Reconcile r)" "fsck_calls r" for r
proof unfold_locales
  fix w res w'
  obtain outs w1 where c: "table_checks r tablesToCount w = (outs, w1)" by fastforce
  obtain f w2 where g: "fsck_part r w1 = (f, w2)" by fastforce
  have C: "extends w w1" "execs (added w w1) = []" "extends w1 w2" using table_checks_world[OF c] fsck_part_spec[OF g] by auto
  have "set (execs (added w w2)) \<subseteq> fsck_calls r"
    using fsck_part_spec[OF g] unfolding added_trans[OF C(1,3)] fsck_calls_def found_repos_def
    by (simp add: C(2)) blast
  then show "graph_of (cs_Reconcile r) w res w' \<Longrightarrow> set (execs (added w w')) \<subseteq> fsck_calls r"
    using cs_Reconcile_summary[OF c g] by (auto simp: graph_of_def)
qed

lemma count_sql_reads: "reading_sql count_sql"
  by (simp add: reading_sql_def count_sql_def)

lemma table_check_observes: "observes w (snd (table_check r t w))"
proof -
  have o: "observes v (snd (rowCount p t v))" for p v by (simp add: rowCount_world observes_emits count_sql_reads)
  obtain p w1 where 1: "rowCount (cs_primary r) t w = (p, w1)" by fastforce
  obtain s w2 where 2: "rowCount (cs_secondary r) t w1 = (s, w2)" by fastforce
  have "observes w w1" "observes w1 w2" using o[of w "cs_primary r"] o[of w1 "cs_secondary r"] 1 2 by simp_all
  then show ?thesis using 1 2 by (auto simp: table_check_def split: sum.splits intro: observes_trans)
qed

lemma table_checks_observes: "table_checks r ts w = (outs, w') \<Longrightarrow> observes w w'"
proof (induction ts arbitrary: w outs)
  case (Cons t ts)
  obtain out w1 where c: "table_check r t w = (out, w1)" by fastforce
  obtain outs' w2 where ca: "table_checks r ts (table_mark t out w1) = (outs', w2)" by fastforce
  have "observes w w1" using table_check_observes[of w r t] c by simp
  then have "observes w (table_mark t out w1)"
    by (auto simp: table_mark_def split: table_outcome.splits intro: observes_emit)
  then show ?case using observes_trans[OF _ Cons.IH] Cons.prems c ca by simp
qed simp

lemma fsck_loop_observes: "fsck_loop n repos f w = (f', w') \<Longrightarrow> observes w w'"
proof (induction n arbitrary: f w)
  case (Suc n)
  obtain ok w1 where g: "gitFsck (pick repos w) w = (ok, w1)" by fastforce
  have 1: "observes w w1"
    using g by (auto simp: gitFsck_def exec_cmd_def split: prod.splits option.splits intro!: observes_emit)
  define w2 where "w2 = (if ok then w1 else emit (Metric (DriftTotal ''git_fsck'' ''critical'')) w1)"
  have "observes w w2" using 1 by (simp add: w2_def observes_emit)
  moreover have "fsck_loop n repos (if ok then f else f + 1) w2 = (f', w')"
    using Suc.prems g by (cases ok) (simp_all add: w2_def)
  ultimately show ?case using Suc.IH observes_trans by blast
qed simp

lemma sampleGitFsck_observes: "sampleGitFsck r w = (f, w') \<Longrightarrow> observes w w'"
proof -
  assume s: "sampleGitFsck r w = (f, w')"
  define w1 where "w1 = fold (\<lambda>p. emit (Logged ''warn'' (''walk error during git fsck sample: '' @ p)))
     (snd (walk_repos (cs_reposPath r) (dir_tree w (trace w) (cs_reposPath r)))) w"
  have "observes w w1" unfolding w1_def by (rule observes_fold) simp
  then show ?thesis
    using s fsck_loop_observes observes_trans[of w w1 w'] unfolding w1_def
    by (auto simp: sampleGitFsck_def Let_def split: if_splits prod.splits)
qed

lemma cs_Reconcile_observes:
  assumes "cs_Reconcile r w = (res, w')"
  shows "observes w w'"
proof -
  obtain outs w1 where c: "table_checks r tablesToCount w = (outs, w1)" by fastforce
  note l = table_loop_summary[OF c, of "(res_ok ''sweep complete'')\<lparr>OK := False\<rparr>" 0]
  have 1: "observes w w1" by (rule table_checks_observes[OF c])
  obtain f w2 where s: "(if cs_reposPath r \<noteq> [] then sampleGitFsck r w1 else (0, w1)) = (f, w2)" by fastforce
  have 2: "observes w1 w2" using s sampleGitFsck_observes[of r w1] by (auto split: if_splits)
  have "w' = w2" using assms l s by (auto simp: cs_Reconcile_def)
  then show ?thesis using observes_trans[OF 1 2] by simp
qed

interpretation consistency_reads: reading_reconciler "graph_of (cs_Reconcile r)" for r
  by unfold_locales (simp add: graph_of_def cs_Reconcile_observes)

section \<open>Properties\<close>

text \<open>The tolerance band is what its comment says and ignores the order of the two sites: two
  non-negative counts pass exactly if they differ by at most a tenth of the larger one, or by at
  most five rows, with no overflow at any 64-bit count.\<close>

lemma approx_equal_iff:
  assumes "0 \<le> sint a" and "0 \<le> sint b"
  shows "isApproxEqual a b \<longleftrightarrow> \<bar>sint a - sint b\<bar> \<le> max 5 (max (sint a) (sint b) div 10)"
proof -
  have d: "sint (a - b) = sint a - sint b" "sint (b - a) = sint b - sint a"
    using sint_sub_nonneg assms by blast+
  have t: "sint (word_quot a 10) = sint a div 10" "sint (word_quot b 10) = sint b div 10"
    using sint_word_quot assms by blast+
  show ?thesis
  proof (cases "sint b > sint a")
    case True
    then show ?thesis using d t by (simp add: isApproxEqual_def Let_def max_def)
  next
    case False
    then show ?thesis using d t by (simp add: isApproxEqual_def Let_def max_def)
  qed
qed

lemma approx_equal_iff_witness:
  "isApproxEqual 1000 1100 \<and> \<not> isApproxEqual 1000 1112 \<and> isApproxEqual 0 5 \<and> \<not> isApproxEqual 6 0"
  using approx_equal_iff[of 1000 1100] approx_equal_iff[of 1000 1112] approx_equal_iff[of 0 5]
    approx_equal_iff[of 6 0] by simp


definition sample_cs :: consistency where
  "sample_cs = cs_New ''p'' ''s'' ''us'' ''/data/repos'' (1 / 100)"

definition repo_world :: world where
  "repo_world = calm_world []\<lparr>dir_tree := (\<lambda>_ _. FsDir [(''a.git'', FsDir []), (''b'', FsDir [(''c.git'', FsDir [])])])\<rparr>"


text \<open>
  A query that fails is no drift: with both databases unreachable the audit is OK although every
  table remains, and the runner logs it as partly synced.
\<close>

definition unreachable_world :: world where
  "unreachable_world = calm_world []\<lparr>sql_reply := (\<lambda>_ _ _ _. Inl (SqlError ''down''))\<rparr>"

lemma audit_ok_when_unreachable:
  "OK (fst (cs_Reconcile sample_cs unreachable_world)) \<and>
   Remaining (fst (cs_Reconcile sample_cs unreachable_world)) = 10"
  by code_simp

end

