(* ===== verification/ObjectStorage.thy ===== *)
theory ObjectStorage
  imports Config_Props Reconciler
begin

text \<open>
  \<open>internal/reconciler/objectstorage\<close>: parity of two S3 buckets by number of objects and total
  size, each listed with retries. The S3 client is outside the repository: whether it can be built
  from a configuration is a parameter, and the pages of a listing are the world's answer.
\<close>

section \<open>The code\<close>

record lister =
  ls_cfg :: S3Config
  ls_bucket :: string

record object_storage =
  os_primary :: lister
  os_replica :: lister
  os_lagThreshold :: int

definition os_name :: string where "os_name = ''object_storage''"

text \<open>A bucket is addressed by the client's endpoint and region and its name.\<close>

definition bucket_key :: "lister \<Rightarrow> string" where
  "bucket_key l = s3_Endpoint (ls_cfg l) @ '' '' @ s3_Region (ls_cfg l) @ '' '' @ ls_bucket l"

definition newS3Client :: "(S3Config \<Rightarrow> string option) \<Rightarrow> S3Config \<Rightarrow> string \<Rightarrow> string + lister" where
  "newS3Client load_aws s3cfg bucket =
     (case load_aws s3cfg of
        Some e \<Rightarrow> Inl (''load aws config (region='' @ s3_Region s3cfg @ ''): '' @ e)
      | None \<Rightarrow> Inr \<lparr>ls_cfg = s3cfg, ls_bucket = bucket\<rparr>)"

definition os_New ::
    "(S3Config \<Rightarrow> string option) \<Rightarrow> S3Config option \<Rightarrow> S3Config option \<Rightarrow> string + object_storage" where
  "os_New load_aws primary secondary =
     (case primary of
        None \<Rightarrow> Inl ''primary.object_storage.s3 is required for s3 backend''
      | Some p \<Rightarrow>
          (case newS3Client load_aws p (s3_PrimaryBucket p) of
             Inl e \<Rightarrow> Inl (''primary s3 client: '' @ e)
           | Inr pl \<Rightarrow>
               (let rep = (case secondary of Some s \<Rightarrow> s | None \<Rightarrow> p)
                in case newS3Client load_aws rep (s3_ReplicaBucket rep) of
                     Inl e \<Rightarrow> Inl (''replica s3 client: '' @ e)
                   | Inr rl \<Rightarrow> Inr \<lparr>os_primary = pl, os_replica = rl, os_lagThreshold = s3_ReplicationLag p\<rparr>)))"

text \<open>\<open>bucketStats\<close> over the pages: a page is an error, or the sizes of its objects (a size may be absent).\<close>

definition page_size :: "int option list \<Rightarrow> int" where
  "page_size objs = sum_list (map (\<lambda>x. case x of Some n \<Rightarrow> n | None \<Rightarrow> 0) objs)"

fun sum_pages :: "(string + int option list) list \<Rightarrow> int \<Rightarrow> int \<Rightarrow> string + int \<times> int" where
  "sum_pages [] count totalSize = Inr (count, totalSize)"
| "sum_pages (Inl e # ps) count totalSize = Inl e"
| "sum_pages (Inr objs # ps) count totalSize =
     sum_pages ps (count + int (length objs)) (totalSize + page_size objs)"

text \<open>The closure that is retried: it assigns the count and the size it captured.\<close>

definition os_stats :: "lister \<Rightarrow> int \<times> int \<Rightarrow> world \<Rightarrow> (string option \<times> int \<times> int) \<times> world" where
  "os_stats l captured w =
     (case list_bucket (bucket_key l) w of (pages, w1) \<Rightarrow>
        (case sum_pages pages 0 0 of
           Inl e \<Rightarrow> ((Some e, 0, 0), w1)
         | Inr (c, s) \<Rightarrow> ((None, c, s), w1)))"

definition listing :: "lister \<Rightarrow> world \<Rightarrow> (string option \<times> int \<times> int) \<times> world" where
  "listing l w = Retry os_name 3 (2 * 10 ^ 9) (10 * 10 ^ 9) (os_stats l) (0, 0) w"

definition os_compare :: "int \<times> int \<Rightarrow> int \<times> int \<Rightarrow> world \<Rightarrow> result \<times> world" where
  "os_compare p q w =
     (let (pCount, pSize) = p; (rCount, rSize) = q;
          w1 = emit (Metric (SyncDuration os_name ''ok'')) w
      in if pCount = rCount \<and> pSize = rSize
         then (res_ok (''buckets match: '' @ itoa pCount @ '' objects, '' @ itoa pSize @ '' bytes''),
               emit (Metric (LastSync os_name)) w1)
         else (res_bad (''drift: primary='' @ itoa pCount @ ''/'' @ itoa pSize @ '' replica='' @ itoa rCount @
                        ''/'' @ itoa rSize @ '' (delta='' @ itoa (pCount - rCount) @ '')'')
                 (if pCount - rCount < 0 then - (pCount - rCount) else pCount - rCount),
               emit (Metric (DriftTotal os_name ''warning'')) w1))"

definition os_Reconcile :: "object_storage \<Rightarrow> world \<Rightarrow> result \<times> world" where
  "os_Reconcile r w =
     (case listing (os_primary r) w of
        ((Some e, v), w1) \<Rightarrow>
          (res_bad (''primary list: '' @ e) 1, emit (Metric (DriftTotal os_name ''critical'')) w1)
      | ((None, p), w1) \<Rightarrow>
          (case listing (os_replica r) w1 of
             ((Some e, v), w2) \<Rightarrow>
               (res_bad (''replica list: '' @ e) 1, emit (Metric (DriftTotal os_name ''critical'')) w2)
           | ((None, q), w2) \<Rightarrow> os_compare p q w2))"

section \<open>Lemmas\<close>

lemma os_stats_world: "snd (os_stats l v w) = emit (ListBucket (bucket_key l)) w"
  by (simp add: os_stats_def list_bucket_def split: sum.splits)

lemma os_stats_none:
  "os_stats l v w = ((None, p), w') \<Longrightarrow> sum_pages (bucket_pages w (trace w) (bucket_key l)) 0 0 = Inr p"
  by (auto simp: os_stats_def list_bucket_def split: sum.splits)

text \<open>A listing is one to three calls; when it returns no error its figures are those of the last call.\<close>

lemma listing_spec:
  assumes "listing l w = ((err, v), w')"
  shows "extends w w' \<and> count_list (added w w') (ListBucket (bucket_key l)) \<in> {1..3} \<and>
    (err = None \<longrightarrow> (\<exists>w1. extends w w1 \<and> extends w1 w' \<and>
       sum_pages (bucket_pages w1 (trace w1) (bucket_key l)) 0 0 = Inr v))"
proof -
  let ?call = "ListBucket (bucket_key l)"
  have c: "waits [?call] = []" "\<And>s t. ?call \<noteq> Logged s t" "\<And>i. ?call \<noteq> Waited i"
    by (simp_all add: waits_def map_filter_def)
  have run: "retry_loop os_name 3 (2 * 10 ^ 9) (10 * 10 ^ 9) (os_stats l) None (0, 0) w = ((err, v), w')"
    using assms by (simp add: listing_def Retry_def)
  from retry_loop_spec[OF os_stats_world c(2,3,1) run] obtain k j
    where e: "extends w w'" and R: "retry_ok (os_stats l) ?call 3 (2 * 10 ^ 9) (10 * 10 ^ 9) w (err, v) w' k j"
    by blast
  have k: "count_list (added w w') ?call = k" "k \<le> 3" "k > 0"
    "err = None \<longrightarrow> (\<exists>v1 w1. os_stats l v1 w1 = ((err, v), w') \<and> extends w w1)"
    using R unfolding retry_ok_def by auto
  have n: "err = None \<longrightarrow> (\<exists>w1. extends w w1 \<and> extends w1 w' \<and>
       sum_pages (bucket_pages w1 (trace w1) (bucket_key l)) 0 0 = Inr v)"
  proof
    assume "err = None"
    then obtain v1 w1 where s: "os_stats l v1 w1 = ((None, v), w')" "extends w w1" using k(4) by auto
    have "w' = emit ?call w1" using os_stats_world[of l v1 w1] s(1) by simp
    then show "\<exists>w1. extends w w1 \<and> extends w1 w' \<and>
       sum_pages (bucket_pages w1 (trace w1) (bucket_key l)) 0 0 = Inr v"
      using s(2) os_stats_none[OF s(1)] by (intro exI[of _ w1]) simp
  qed
  show ?thesis using e k n by auto
qed

lemma os_compare_spec:
  assumes "os_compare p q w = (res, w')"
  shows "extends w w' \<and> (OK res \<longleftrightarrow> p = q) \<and> Remaining res = (if p = q then 0 else \<bar>fst p - fst q\<bar>)"
  using assms
  by (cases p; cases q) (auto simp: os_compare_def Let_def split: if_splits intro: extends_emitI)

definition stats_at :: "lister \<Rightarrow> world \<Rightarrow> int \<times> int \<Rightarrow> bool" where
  "stats_at l w cs \<longleftrightarrow> sum_pages (bucket_pages w (trace w) (bucket_key l)) 0 0 = Inr cs"

lemma os_Reconcile_spec:
  assumes "os_Reconcile r w = (res, w')"
  shows "extends w w' \<and>
    ((\<exists>p q wp wq. extends w wp \<and> extends wp wq \<and> extends wq w' \<and>
        stats_at (os_primary r) wp p \<and> stats_at (os_replica r) wq q \<and>
        (OK res \<longleftrightarrow> p = q) \<and> Remaining res = (if p = q then 0 else \<bar>fst p - fst q\<bar>)) \<or>
     (\<not> OK res \<and> Remaining res = 1 \<and> (\<exists>w1. w' = emit (Metric (DriftTotal os_name ''critical'')) w1)))"
proof -
  obtain e1 p w1 where 1: "listing (os_primary r) w = ((e1, p), w1)" by (metis prod.collapse)
  note L1 = listing_spec[OF 1]
  show ?thesis
  proof (cases e1)
    case (Some e)
    then show ?thesis using assms 1 L1 by (auto simp: os_Reconcile_def intro: extends_emitI)
  next
    case None
    obtain e2 q w2 where 2: "listing (os_replica r) w1 = ((e2, q), w2)" by (metis prod.collapse)
    note L2 = listing_spec[OF 2]
    have w2: "extends w w2" using L1 L2 by (blast intro: extends_trans)
    show ?thesis
    proof (cases e2)
      case (Some e)
      then show ?thesis using assms 1 2 None w2 by (auto simp: os_Reconcile_def intro: extends_emitI)
    next
      case none2: None
      have C: "os_compare p q w2 = (res, w')" using assms 1 2 None none2 by (simp add: os_Reconcile_def)
      note S = os_compare_spec[OF C]
      obtain wp where wp: "extends w wp" "extends wp w1" "stats_at (os_primary r) wp p"
        using L1 None unfolding stats_at_def by blast
      obtain wq where wq: "extends w1 wq" "extends wq w2" "stats_at (os_replica r) wq q"
        using L2 none2 unfolding stats_at_def by blast
      have "extends w w'" "extends wp wq" "extends wq w'"
        using w2 S wp wq by (blast intro: extends_trans)+
      then show ?thesis using S wp(1,3) wq(3) by blast
    qed
  qed
qed

interpretation object_storage_rec: strict_reconciler "graph_of (os_Reconcile r)" for r
proof unfold_locales
  show "graph_of (os_Reconcile r) w res w' \<Longrightarrow> extends w w'" for w res w'
    unfolding graph_of_def by (drule os_Reconcile_spec) blast
  show "\<exists>res w'. graph_of (os_Reconcile r) w res w'" for w
    unfolding graph_of_def by (metis prod.collapse)
  show "graph_of (os_Reconcile r) w res w' \<Longrightarrow> OK res \<Longrightarrow> Remaining res = 0" for w res w'
    unfolding graph_of_def by (drule os_Reconcile_spec) auto
qed

lemma listing_execs: "listing l w = (r, w') \<Longrightarrow> extends w w' \<and> execs (added w w') = []"
  unfolding listing_def Retry_def by (rule retry_loop_execs[OF os_stats_world]) simp_all

lemma os_compare_execs: "os_compare p q w = (res, w') \<Longrightarrow> extends w w' \<and> execs (added w w') = []"
  by (cases p; cases q) (auto simp: os_compare_def Let_def added_emitI split: if_splits intro: extends_emitI)

lemma os_Reconcile_execs:
  assumes "os_Reconcile r w = (res, w')"
  shows "execs (added w w') = []"
proof -
  obtain e1 p w1 where 1: "listing (os_primary r) w = ((e1, p), w1)" by (metis prod.collapse)
  obtain e2 q w2 where 2: "listing (os_replica r) w1 = ((e2, q), w2)" by (metis prod.collapse)
  have L: "extends w w1" "execs (added w w1) = []" "extends w w2" "execs (added w w2) = []"
    using listing_execs[OF 1] listing_execs[OF 2] by (auto simp: added_trans[of w w1 w2] intro: extends_trans)
  consider "w' = emit (Metric (DriftTotal os_name ''critical'')) w1" | "w' = emit (Metric (DriftTotal os_name ''critical'')) w2"
    | "os_compare p q w2 = (res, w')"
    using assms 1 2 by (cases e1; cases e2) (auto simp: os_Reconcile_def)
  then show ?thesis
    using L os_compare_execs[of p q w2 res w'] by cases (auto simp: added_emitI added_trans[of w w2 w'])
qed

interpretation object_storage_confined: confined_reconciler "graph_of (os_Reconcile r)" "{}" for r
  by unfold_locales (auto simp: graph_of_def os_Reconcile_execs)

lemma listing_observes: "listing l w = (r, w') \<Longrightarrow> observes w w'"
proof -
  assume "listing l w = (r, w')"
  then have r: "retry_loop os_name 3 (2 * 10 ^ 9) (10 * 10 ^ 9) (os_stats l) None (0, 0) w = (r, w')"
    by (simp add: listing_def Retry_def)
  have "observes v (snd (os_stats l c v))" for v c unfolding os_stats_world by (simp add: observes_emits)
  then show ?thesis using r by (rule retry_loop_observes)
qed

lemma os_Reconcile_observes:
  assumes "os_Reconcile r w = (res, w')"
  shows "observes w w'"
proof -
  obtain e1 p w1 where 1: "listing (os_primary r) w = ((e1, p), w1)" by (metis prod.collapse)
  obtain e2 q w2 where 2: "listing (os_replica r) w1 = ((e2, q), w2)" by (metis prod.collapse)
  have L: "observes w w1" "observes w w2"
    using listing_observes[OF 1] listing_observes[OF 2] by (auto intro: observes_trans)
  consider "w' = emit (Metric (DriftTotal os_name ''critical'')) w1" | "w' = emit (Metric (DriftTotal os_name ''critical'')) w2"
    | "os_compare p q w2 = (res, w')"
    using assms 1 2 by (cases e1; cases e2) (auto simp: os_Reconcile_def)
  then show ?thesis
    using L by cases (auto simp: os_compare_def Let_def split: if_splits prod.splits intro!: observes_emit)
qed

interpretation object_storage_reads: reading_reconciler "graph_of (os_Reconcile r)" for r
  by unfold_locales (simp add: graph_of_def os_Reconcile_observes)

section \<open>Properties\<close>


definition sample_s3 :: S3Config where
  "sample_s3 = \<lparr>s3_Region = ''eu-west-1'', s3_PrimaryBucket = ''p'', s3_ReplicaBucket = ''r'', s3_AccessKey = ''a'',
     s3_SecretKey = ''s'', s3_Endpoint = [], s3_ReplicationLag = 0\<rparr>"

definition sample_os :: object_storage where
  "sample_os = \<lparr>os_primary = \<lparr>ls_cfg = sample_s3, ls_bucket = ''p''\<rparr>,
     os_replica = \<lparr>ls_cfg = sample_s3, ls_bucket = ''r''\<rparr>, os_lagThreshold = 0\<rparr>"

definition bucket_world :: world where
  "bucket_world = calm_world []\<lparr>bucket_pages := (\<lambda>_ b. if b = bucket_key (os_primary sample_os)
     then [Inr [Some 3, None], Inr [Some 4]] else [Inr [Some 7, Some 1, None]])\<rparr>"


text \<open>
  The threshold of the configuration plays no part: the verdict is the same whatever its value,
  however short a time the replica has been behind.
\<close>

lemma lag_threshold_unused: "os_Reconcile (r\<lparr>os_lagThreshold := t\<rparr>) w = os_Reconcile r w"
  unfolding os_Reconcile_def by (simp split: prod.splits option.splits)

end
