(* ===== verification/Registry.thy ===== *)
theory Registry
  imports Config_Props Reconciler
begin

text \<open>
  \<open>internal/reconciler/registry\<close>: comparison of the container registries of both sites over the
  registry API: the repositories of the catalog, then the tags of each. Decoding the two JSON
  answers is the work of a library and a parameter here. Go walks a map in no fixed order, so one
  call of Reconcile is a relation: any order of the repositories is possible.
\<close>

section \<open>The code\<close>

record registry =
  rg_primaryURL :: string
  rg_secondaryURL :: string
  rg_dryRun :: bool

definition rg_name :: string where "rg_name = ''registry''"

definition rg_New :: "SiteConfig \<Rightarrow> SiteConfig \<Rightarrow> bool \<Rightarrow> registry" where
  "rg_New primary secondary dryRun =
     \<lparr>rg_primaryURL = trim_suffix (site_ExternalURL primary) ''/'' @ ''/v2'',
      rg_secondaryURL = trim_suffix (site_ExternalURL secondary) ''/'' @ ''/v2'', rg_dryRun = dryRun\<rparr>"

text \<open>The decoders: the field repositories of the catalog, the field tags of a tag list.\<close>

record reg_json =
  dec_catalog :: "string \<Rightarrow> string + string list"
  dec_tags :: "string \<Rightarrow> string + string list"

datatype reg_error = AuthRequired | RegError string

definition catalog_url :: "string \<Rightarrow> string" where
  "catalog_url baseURL = baseURL @ ''/_catalog?n=1000''"

definition tags_url :: "string \<Rightarrow> string \<Rightarrow> string" where
  "tags_url baseURL repo = baseURL @ ''/'' @ repo @ ''/tags/list''"

definition repos_of :: "reg_json \<Rightarrow> string + http_response \<Rightarrow> reg_error + string list" where
  "repos_of js reply =
     (case reply of
        Inl e \<Rightarrow> Inl (RegError e)
      | Inr resp \<Rightarrow>
          if StatusCode resp = 401 then Inl AuthRequired
          else if StatusCode resp \<noteq> 200
          then Inl (RegError (''catalog: status '' @ itoa (StatusCode resp) @ '': '' @ limit_bytes 1024 (Body resp)))
          else (case dec_catalog js (Body resp) of
                  Inl e \<Rightarrow> Inl (RegError (''decode catalog: '' @ e))
                | Inr repos \<Rightarrow> Inr repos))"

definition listRepositories :: "reg_json \<Rightarrow> string \<Rightarrow> world \<Rightarrow> (reg_error + string list) \<times> world" where
  "listRepositories js baseURL w =
     (case http_get (catalog_url baseURL) [] w of (reply, w1) \<Rightarrow> (repos_of js reply, w1))"

definition tags_of :: "reg_json \<Rightarrow> string \<Rightarrow> string + http_response \<Rightarrow> reg_error + string set" where
  "tags_of js repo reply =
     (case reply of
        Inl e \<Rightarrow> Inl (RegError e)
      | Inr resp \<Rightarrow>
          if StatusCode resp = 401 then Inl AuthRequired
          else if StatusCode resp \<noteq> 200
          then Inl (RegError (''tags for '' @ repo @ '': status '' @ itoa (StatusCode resp)))
          else (case dec_tags js (Body resp) of Inl e \<Rightarrow> Inl (RegError e) | Inr tags \<Rightarrow> Inr (set tags)))"

definition listTags :: "reg_json \<Rightarrow> string \<Rightarrow> string \<Rightarrow> world \<Rightarrow> (reg_error + string set) \<times> world" where
  "listTags js baseURL repo w =
     (case http_get (tags_url baseURL repo) [] w of (reply, w1) \<Rightarrow> (tags_of js repo reply, w1))"

text \<open>Maps to true are finite sets; \<open>equalSet\<close> is the code's test on lengths and members.\<close>

definition toSet :: "string list \<Rightarrow> string set" where
  "toSet s = set s"

definition setDiff :: "string set \<Rightarrow> string set \<Rightarrow> string set" where
  "setDiff a b = {k \<in> a. k \<notin> b}"

definition equalSet :: "string set \<Rightarrow> string set \<Rightarrow> bool" where
  "equalSet a b \<longleftrightarrow> card a = card b \<and> (\<forall>k \<in> a. k \<in> b)"

definition repo_check :: "reg_json \<Rightarrow> registry \<Rightarrow> string \<Rightarrow> world \<Rightarrow> bool \<times> world" where
  "repo_check js r repo w =
     (case listTags js (rg_primaryURL r) repo w of
        (Inl e, w1) \<Rightarrow> (True, w1)
      | (Inr pTags, w1) \<Rightarrow>
          (case listTags js (rg_secondaryURL r) repo w1 of
             (Inl e, w2) \<Rightarrow> (True, w2)
           | (Inr sTags, w2) \<Rightarrow> (\<not> equalSet pTags sTags, w2)))"

fun deep_check :: "reg_json \<Rightarrow> registry \<Rightarrow> string list \<Rightarrow> int \<Rightarrow> world \<Rightarrow> int \<times> world" where
  "deep_check js r [] drift w = (drift, w)"
| "deep_check js r (repo # repos) drift w =
     (case repo_check js r repo w of (bad, w1) \<Rightarrow> deep_check js r repos (if bad then drift + 1 else drift) w1)"

definition em_dash :: string where
  "em_dash = [CHR 0xE2, CHR 0x80, CHR 0x94]"

definition rg_list_failed :: "string \<Rightarrow> reg_error \<Rightarrow> world \<Rightarrow> result \<times> world" where
  "rg_list_failed side err w =
     (case err of
        AuthRequired \<Rightarrow> (res_ok (''registry: '' @ side @ '' requires auth (skipped '' @ em_dash @ '' configure a token to enable)''), w)
      | RegError e \<Rightarrow> (res_bad (side @ '' list repos: '' @ e) 1, emit (Metric (DriftTotal rg_name ''critical'')) w))"

definition rg_deep_result :: "int \<Rightarrow> int \<Rightarrow> world \<Rightarrow> result \<times> world" where
  "rg_deep_result drift n w =
     (let w1 = emit (Metric (SyncDuration rg_name ''ok'')) w
      in if drift > 0
         then (res_bad (itoa drift @ ''/'' @ itoa n @ '' repos have manifest drift'') drift,
               emit (Metric (DriftTotal rg_name ''warning'')) w1)
         else (res_ok (''registry in sync: '' @ itoa n @ '' repos''), emit (Metric (LastSync rg_name)) w1))"

definition rg_list_drift :: "int \<Rightarrow> int \<Rightarrow> world \<Rightarrow> result \<times> world" where
  "rg_list_drift missing extra w =
     (res_bad (''repo list drift: '' @ itoa missing @ '' missing, '' @ itoa extra @ '' extra on secondary'') (missing + extra),
      emit (Metric (DriftTotal rg_name ''warning'')) (emit (Metric (SyncDuration rg_name ''error'')) w))"

definition rg_Reconcile :: "reg_json \<Rightarrow> registry \<Rightarrow> reconcile" where
  "rg_Reconcile js r w res w' \<longleftrightarrow>
     (case listRepositories js (rg_primaryURL r) w of
        (Inl e, w1) \<Rightarrow> (res, w') = rg_list_failed ''primary'' e w1
      | (Inr pRepos, w1) \<Rightarrow>
          (case listRepositories js (rg_secondaryURL r) w1 of
             (Inl e, w2) \<Rightarrow> (res, w') = rg_list_failed ''secondary'' e w2
           | (Inr sRepos, w2) \<Rightarrow>
               (let pSet = toSet pRepos; sSet = toSet sRepos;
                    missing = setDiff pSet sSet; extra = setDiff sSet pSet
                in if card missing = 0 \<and> card extra = 0
                   then (\<exists>order drift w3. distinct order \<and> set order = pSet \<and>
                           deep_check js r order 0 w2 = (drift, w3) \<and>
                           (res, w') = rg_deep_result drift (int (card pSet)) w3)
                   else (res, w') = rg_list_drift (int (card missing)) (int (card extra)) w2)))"

section \<open>Lemmas\<close>

text \<open>What the registry sends: catalog and tag-list requests without a token. No manifest is read.\<close>

definition names_request :: "registry \<Rightarrow> event \<Rightarrow> bool" where
  "names_request r e \<longleftrightarrow>
     (\<exists>b \<in> {rg_primaryURL r, rg_secondaryURL r}. e = HttpGet (catalog_url b) [] \<or> (\<exists>repo. e = HttpGet (tags_url b repo) [])) \<or>
     (\<exists>m. e = Metric m)"

definition grows_by_names :: "registry \<Rightarrow> world \<Rightarrow> world \<Rightarrow> bool" where
  "grows_by_names r w w' \<longleftrightarrow> extends w w' \<and> list_all (names_request r) (added w w')"

lemma grows_refl: "grows_by_names r w w"
  by (simp add: grows_by_names_def)

lemma grows_trans: "grows_by_names r w w1 \<Longrightarrow> grows_by_names r w1 w2 \<Longrightarrow> grows_by_names r w w2"
  unfolding grows_by_names_def by (auto simp: added_trans[of w w1 w2] intro: extends_trans)

lemma grows_emit: "names_request r e \<Longrightarrow> grows_by_names r w (emit e w)"
  by (simp add: grows_by_names_def)

lemma grows_metric: "grows_by_names r w (emit (Metric m) w)"
  by (rule grows_emit) (simp add: names_request_def)

lemma listRepositories_world: "snd (listRepositories js b w) = emit (HttpGet (catalog_url b) []) w"
  by (simp add: listRepositories_def http_get_def)

lemma listTags_world: "snd (listTags js b repo w) = emit (HttpGet (tags_url b repo) []) w"
  by (simp add: listTags_def http_get_def)

lemma listRepositories_grows:
  assumes "listRepositories js b w = (x, w')" and "b \<in> {rg_primaryURL r, rg_secondaryURL r}"
  shows "grows_by_names r w w'"
proof -
  have "w' = emit (HttpGet (catalog_url b) []) w" using listRepositories_world assms(1) by (metis snd_conv)
  moreover have "names_request r (HttpGet (catalog_url b) [])" using assms(2) unfolding names_request_def by blast
  ultimately show ?thesis using grows_emit by blast
qed

lemma listTags_grows:
  assumes "listTags js b repo w = (x, w')" and "b \<in> {rg_primaryURL r, rg_secondaryURL r}"
  shows "grows_by_names r w w'"
proof -
  have "w' = emit (HttpGet (tags_url b repo) []) w" using listTags_world assms(1) by (metis snd_conv)
  moreover have "names_request r (HttpGet (tags_url b repo) [])" using assms(2) unfolding names_request_def by blast
  ultimately show ?thesis using grows_emit by blast
qed

lemma repo_check_grows:
  assumes "repo_check js r repo w = (bad, w')"
  shows "grows_by_names r w w'"
proof -
  obtain p w1 where 1: "listTags js (rg_primaryURL r) repo w = (p, w1)" by fastforce
  obtain s w2 where 2: "listTags js (rg_secondaryURL r) repo w1 = (s, w2)" by fastforce
  have "grows_by_names r w w1" "grows_by_names r w1 w2" using listTags_grows[OF 1] listTags_grows[OF 2] by auto
  moreover have "w' = w1 \<or> w' = w2" using assms 1 2 by (auto simp: repo_check_def split: sum.splits)
  ultimately show ?thesis using grows_trans by blast
qed

lemma deep_check_grows: "deep_check js r order d w = (d', w') \<Longrightarrow> grows_by_names r w w' \<and> d \<le> d'"
proof (induction order arbitrary: d w)
  case Nil
  then show ?case by (simp add: grows_refl)
next
  case (Cons repo repos)
  obtain bad w1 where c: "repo_check js r repo w = (bad, w1)" by fastforce
  then have "grows_by_names r w1 w' \<and> (if bad then d + 1 else d) \<le> d'" using Cons by simp
  then show ?case using repo_check_grows[OF c] grows_trans by (auto split: if_splits)
qed

lemma equalSet_iff: "finite a \<Longrightarrow> finite b \<Longrightarrow> equalSet a b \<longleftrightarrow> a = b"
  unfolding equalSet_def using card_subset_eq[of b a] by auto

text \<open>The shape of a call: a listing failed, the lists differ, or a deep check in some order.\<close>

lemma rg_Reconcile_cases:
  assumes "rg_Reconcile js r w res w'"
  obtains (failed) side e w1 where "grows_by_names r w w1" "(res, w') = rg_list_failed side e w1"
  | (lists) m x w2 where "grows_by_names r w w2" "(res, w') = rg_list_drift m x w2" "0 < m + x"
  | (deep) order drift n w2 w3 where "grows_by_names r w w2" "deep_check js r order 0 w2 = (drift, w3)"
      "(res, w') = rg_deep_result drift n w3"
proof -
  obtain p w1 where 1: "listRepositories js (rg_primaryURL r) w = (p, w1)" by fastforce
  obtain s w2 where 2: "listRepositories js (rg_secondaryURL r) w1 = (s, w2)" by fastforce
  have g1: "grows_by_names r w w1" and "grows_by_names r w1 w2"
    using listRepositories_grows[OF 1] listRepositories_grows[OF 2] by auto
  then have g2: "grows_by_names r w w2" by (rule grows_trans)
  show ?thesis
  proof (cases p)
    case (Inl e)
    then show ?thesis using assms 1 g1 failed by (simp add: rg_Reconcile_def)
  next
    case p: (Inr ps)
    show ?thesis
    proof (cases s)
      case (Inl e)
      then show ?thesis using assms 1 2 p g2 failed by (simp add: rg_Reconcile_def)
    next
      case (Inr ss)
      let ?m = "card (setDiff (toSet ps) (toSet ss))" and ?x = "card (setDiff (toSet ss) (toSet ps))"
      show ?thesis
      proof (cases "?m = 0 \<and> ?x = 0")
        case True
        then obtain order drift w3 where "deep_check js r order 0 w2 = (drift, w3)"
          "(res, w') = rg_deep_result drift (int (card (toSet ps))) w3"
          using assms 1 2 p Inr by (auto simp: rg_Reconcile_def Let_def)
        then show ?thesis using deep g2 by blast
      next
        case False
        then have "(res, w') = rg_list_drift (int ?m) (int ?x) w2" "0 < int ?m + int ?x"
          using assms 1 2 p Inr by (auto simp: rg_Reconcile_def Let_def)
        then show ?thesis using lists g2 by blast
      qed
    qed
  qed
qed

lemma rg_Reconcile_spec:
  assumes "rg_Reconcile js r w res w'"
  shows "grows_by_names r w w' \<and> (OK res \<longleftrightarrow> Remaining res = 0)"
  using assms
proof (cases rule: rg_Reconcile_cases)
  case (failed side e w1)
  then show ?thesis using grows_trans grows_metric by (cases e) (auto simp: rg_list_failed_def)
next
  case (lists m x w2)
  then show ?thesis using grows_trans[OF grows_trans[OF lists(1) grows_metric] grows_metric]
    by (simp add: rg_list_drift_def)
next
  case (deep order drift n w2 w3)
  have "grows_by_names r w w3" "0 \<le> drift" using deep_check_grows[OF deep(2)] deep(1) grows_trans by auto
  then show ?thesis using deep(3) grows_trans[OF grows_trans[OF _ grows_metric] grows_metric]
    by (simp add: rg_deep_result_def Let_def split: if_splits)
qed

lemma rg_Reconcile_returns: "\<exists>res w'. rg_Reconcile js r w res w'"
proof -
  obtain p w1 where 1: "listRepositories js (rg_primaryURL r) w = (p, w1)" by fastforce
  obtain s w2 where 2: "listRepositories js (rg_secondaryURL r) w1 = (s, w2)" by fastforce
  show ?thesis
  proof (cases p)
    case (Inl e)
    then show ?thesis using 1 by (auto simp: rg_Reconcile_def) (metis prod.collapse)
  next
    case p: (Inr ps)
    show ?thesis
    proof (cases s)
      case (Inl e)
      then show ?thesis using 1 2 p by (auto simp: rg_Reconcile_def) (metis prod.collapse)
    next
      case (Inr ss)
      obtain order where o: "distinct order" "set order = toSet ps"
        using finite_distinct_list[of "toSet ps"] by (auto simp: toSet_def)
      obtain drift w3 where d: "deep_check js r order 0 w2 = (drift, w3)" by fastforce
      obtain r1 v1 where r1: "(r1, v1) = rg_deep_result drift (int (card (toSet ps))) w3" by (metis prod.collapse)
      obtain r2 v2 where r2: "(r2, v2) = rg_list_drift (int (card (setDiff (toSet ps) (toSet ss))))
          (int (card (setDiff (toSet ss) (toSet ps)))) w2" by (metis prod.collapse)
      have "rg_Reconcile js r w r1 v1 \<or> rg_Reconcile js r w r2 v2"
        using 1 2 p Inr o d r1 r2 unfolding rg_Reconcile_def Let_def by auto
      then show ?thesis by blast
    qed
  qed
qed

interpretation registry_rec: strict_reconciler "rg_Reconcile js r" for js r
  by unfold_locales
    (auto simp: rg_Reconcile_returns dest: rg_Reconcile_spec simp: grows_by_names_def)

text \<open>A world whose sites answer every request the same way each time.\<close>

definition steady :: "world \<Rightarrow> (string \<Rightarrow> string + http_response) \<Rightarrow> bool" where
  "steady w f \<longleftrightarrow> (\<forall>es u. http_reply w es u [] = f u)"

definition tags_agree :: "reg_json \<Rightarrow> registry \<Rightarrow> (string \<Rightarrow> string + http_response) \<Rightarrow> string \<Rightarrow> bool" where
  "tags_agree js r f repo \<longleftrightarrow>
     (\<exists>t. tags_of js repo (f (tags_url (rg_primaryURL r) repo)) = Inr t \<and>
          tags_of js repo (f (tags_url (rg_secondaryURL r) repo)) = Inr t)"

lemma steady_extends: "steady w f \<Longrightarrow> extends w w' \<Longrightarrow> steady w' f"
  by (simp add: steady_def extends_env)

lemma tags_of_finite: "tags_of js repo x = Inr t \<Longrightarrow> finite t"
  by (auto simp: tags_of_def split: sum.splits if_splits)

lemma repo_check_steady:
  assumes "steady w f"
  shows "fst (repo_check js r repo w) = (\<not> tags_agree js r f repo)"
proof -
  let ?p = "tags_of js repo (f (tags_url (rg_primaryURL r) repo))"
  let ?s = "tags_of js repo (f (tags_url (rg_secondaryURL r) repo))"
  have l: "fst (listTags js b repo w) = tags_of js repo (f (tags_url b repo))" if "steady w f" for w b
    using that by (simp add: listTags_def http_get_def steady_def)
  obtain w1 where 1: "listTags js (rg_primaryURL r) repo w = (?p, w1)" using l[OF assms] by (metis prod.collapse)
  have s1: "steady w1 f"
    using assms listTags_world[of js "rg_primaryURL r" repo w] 1 by (auto intro: steady_extends)
  obtain w2 where 2: "listTags js (rg_secondaryURL r) repo w1 = (?s, w2)" using l[OF s1] by (metis prod.collapse)
  show ?thesis
  proof (cases ?p)
    case (Inl e)
    then show ?thesis using 1 by (simp add: repo_check_def tags_agree_def)
  next
    case p: (Inr tp)
    show ?thesis
    proof (cases ?s)
      case (Inl e)
      then show ?thesis using 1 2 p by (simp add: repo_check_def tags_agree_def)
    next
      case (Inr ts)
      have "equalSet tp ts \<longleftrightarrow> tp = ts" using tags_of_finite[OF p] tags_of_finite[OF Inr] equalSet_iff by blast
      then show ?thesis using 1 2 p Inr by (auto simp: repo_check_def tags_agree_def)
    qed
  qed
qed

lemma deep_check_steady:
  "steady w f \<Longrightarrow> deep_check js r order d w = (d', w') \<Longrightarrow>
   d' = d + int (length (filter (\<lambda>repo. \<not> tags_agree js r f repo) order))"
proof (induction order arbitrary: d w)
  case Nil
  then show ?case by simp
next
  case (Cons repo repos)
  obtain bad w1 where c: "repo_check js r repo w = (bad, w1)" by fastforce
  have "bad = (\<not> tags_agree js r f repo)" using repo_check_steady[OF Cons.prems(1)] c by (metis fst_conv)
  moreover have "steady w1 f"
    using Cons.prems(1) repo_check_grows[OF c] steady_extends by (auto simp: grows_by_names_def)
  ultimately show ?case using Cons.IH[of w1 "if bad then d + 1 else d"] Cons.prems(2) c by auto
qed

lemma names_only_execs: "list_all (names_request r) es \<Longrightarrow> execs es = []"
  by (induction es) (auto simp: names_request_def)

interpretation registry_confined: confined_reconciler "rg_Reconcile js r" "{}" for js r
  by unfold_locales (auto dest!: rg_Reconcile_spec simp: grows_by_names_def names_only_execs)

lemma names_observing: "list_all (names_request r) es \<Longrightarrow> list_all observing es"
  by (induction es) (auto simp: names_request_def)

interpretation registry_reads: reading_reconciler "rg_Reconcile js r" for js r
  by unfold_locales (auto dest!: rg_Reconcile_spec simp: grows_by_names_def observes_def names_observing)

section \<open>Properties\<close>


definition sample_registry :: registry where
  "sample_registry = \<lparr>rg_primaryURL = ''p'', rg_secondaryURL = ''s'', rg_dryRun = False\<rparr>"

definition sample_json :: reg_json where
  "sample_json = \<lparr>dec_catalog = (\<lambda>b. Inr [b]), dec_tags = (\<lambda>b. Inr [b])\<rparr>"

definition site_answers :: "string \<Rightarrow> string + http_response" where
  "site_answers u = Inr \<lparr>StatusCode = 200, XTotal = [],
     Body = (if u = tags_url ''s'' ''app'' then ''v2'' else if u = tags_url ''p'' ''app'' then ''v1'' else ''app'')\<rparr>"


text \<open>
  Only names are compared. Whatever the sites hold behind a tag, a call sends catalog and tag-list
  requests and nothing else, so two registries with the same names are in sync for it.
\<close>

lemma registry_reads_names_only:
  "rg_Reconcile js r w res w' \<Longrightarrow> list_all (names_request r) (added w w')"
  using rg_Reconcile_spec by (simp add: grows_by_names_def)

end
