(* ===== verification/ApiValidator.thy ===== *)
theory ApiValidator
  imports Config_Props Reconciler
begin

text \<open>
  \<open>internal/reconciler/apivalidator\<close>: the observer that compares the number of projects, users,
  groups, issues and merge requests the public APIs of both sites report. An URL the HTTP client
  cannot parse is among the errors of \<open>http_reply\<close>.
\<close>

section \<open>Reading a count\<close>

definition dec_value :: "string \<Rightarrow> int" where
  "dec_value ds = foldl (\<lambda>n c. n * 10 + (int (of_char c :: nat) - 48)) 0 ds"

text \<open>\<open>fmt.Sscanf\<close> with the verb %d: leading space, a sign, digits; what follows is ignored.\<close>

definition split_sign :: "string \<Rightarrow> bool \<times> string" where
  "split_sign s =
     (case s of
        [] \<Rightarrow> (False, [])
      | c # t \<Rightarrow> if c = CHR ''-'' then (True, t) else if c = CHR ''+'' then (False, t) else (False, s))"

definition sscan_int :: "string \<Rightarrow> string + int" where
  "sscan_int s =
     (case split_sign (strip_any space_runes s) of (neg, t) \<Rightarrow>
        (let ds = takeWhile is_digit t; v = (if neg then - dec_value ds else dec_value ds)
         in if t = [] then Inl ''unexpected EOF''
            else if ds = [] then Inl ''expected integer''
            else if - (2 ^ 63) \<le> v \<and> v < 2 ^ 63 then Inr v
            else Inl ''value out of range''))"

section \<open>The reconciler\<close>

record api_validator =
  av_primaryURL :: string
  av_secondaryURL :: string
  av_primaryToken :: string
  av_secondaryToken :: string

text \<open>Without a secondary, or without the configuration block, the constructor panics: None.\<close>

definition av_New :: "Config \<Rightarrow> api_validator option" where
  "av_New cfg =
     (case (Secondaries cfg, APIValidator cfg) of
        (s # ss, Some a) \<Rightarrow>
          Some \<lparr>av_primaryURL = trim_suffix (site_ExternalURL (Primary cfg)) ''/'' @ ''/api/v4'',
                av_secondaryURL = trim_suffix (site_ExternalURL s) ''/'' @ ''/api/v4'',
                av_primaryToken = api_PrimaryToken a, av_secondaryToken = api_SecondaryToken a\<rparr>
      | _ \<Rightarrow> None)"

text \<open>Path and label are the same string for every endpoint.\<close>

definition endpoints :: "string list" where
  "endpoints = [''projects'', ''users'', ''groups'', ''issues'', ''merge_requests'']"

definition count_url :: "string \<Rightarrow> string \<Rightarrow> string" where
  "count_url baseURL path = baseURL @ ''/'' @ path @ ''?per_page=1''"

definition count_of :: "string + http_response \<Rightarrow> string + int" where
  "count_of reply =
     (case reply of
        Inl e \<Rightarrow> Inl e
      | Inr resp \<Rightarrow>
          if StatusCode resp \<noteq> 200
          then Inl (''status '' @ itoa (StatusCode resp) @ '': '' @ limit_bytes 512 (Body resp))
          else (case sscan_int (XTotal resp) of
                  Inl e \<Rightarrow> Inl (''no X-Total header: '' @ e)
                | Inr n \<Rightarrow> Inr n))"

definition fetchCount :: "string \<Rightarrow> string \<Rightarrow> string \<Rightarrow> world \<Rightarrow> (string + int) \<times> world" where
  "fetchCount baseURL token path w =
     (case http_get (count_url baseURL path) token w of (reply, w1) \<Rightarrow> (count_of reply, w1))"

datatype api_outcome = ApiPrimaryErr string | ApiSecondaryErr string | ApiSame | ApiDrift int int

definition api_check :: "api_validator \<Rightarrow> string \<Rightarrow> world \<Rightarrow> api_outcome \<times> world" where
  "api_check r ep w =
     (case fetchCount (av_primaryURL r) (av_primaryToken r) ep w of
        (Inl e, w1) \<Rightarrow> (ApiPrimaryErr e, w1)
      | (Inr pCount, w1) \<Rightarrow>
          (case fetchCount (av_secondaryURL r) (av_secondaryToken r) ep w1 of
             (Inl e, w2) \<Rightarrow> (ApiSecondaryErr e, w2)
           | (Inr sCount, w2) \<Rightarrow>
               (if pCount \<noteq> sCount
                then (ApiDrift pCount sCount, emit (Metric (DriftTotal (''api:'' @ ep) ''warning'')) w2)
                else (ApiSame, w2))))"

fun api_detail :: "string \<Rightarrow> api_outcome \<Rightarrow> string" where
  "api_detail ep (ApiPrimaryErr e) = ''; '' @ ep @ '' primary error: '' @ e"
| "api_detail ep (ApiSecondaryErr e) = ''; '' @ ep @ '' secondary error: '' @ e"
| "api_detail ep ApiSame = []"
| "api_detail ep (ApiDrift p s) = ''; '' @ ep @ '' drift: primary='' @ itoa p @ '' secondary='' @ itoa s"

fun api_loop :: "api_validator \<Rightarrow> string list \<Rightarrow> result \<Rightarrow> int \<Rightarrow> world \<Rightarrow> result \<times> int \<times> world" where
  "api_loop r [] result drifts w = (result, drifts, w)"
| "api_loop r (ep # eps) result drifts w =
     (case api_check r ep w of (out, w1) \<Rightarrow>
        api_loop r eps
          (if out = ApiSame then result
           else result\<lparr>Remaining := Remaining result + 1, Detail := Detail result @ api_detail ep out\<rparr>)
          (case out of ApiDrift p s \<Rightarrow> drifts + 1 | _ \<Rightarrow> drifts) w1)"

definition av_Reconcile :: "api_validator \<Rightarrow> world \<Rightarrow> result \<times> world" where
  "av_Reconcile r w =
     (case api_loop r endpoints ((res_ok ''api validation complete'')\<lparr>OK := False\<rparr>) 0 w of
        (result, drifts, w1) \<Rightarrow> (result\<lparr>OK := (drifts = 0)\<rparr>, w1))"

section \<open>Lemmas\<close>

fun is_api_drift :: "api_outcome \<Rightarrow> bool" where
  "is_api_drift (ApiDrift p s) = True"
| "is_api_drift _ = False"

text \<open>What the loop finds, endpoint by endpoint.\<close>

fun api_checks :: "api_validator \<Rightarrow> string list \<Rightarrow> world \<Rightarrow> api_outcome list \<times> world" where
  "api_checks r [] w = ([], w)"
| "api_checks r (ep # eps) w =
     (case api_check r ep w of (out, w1) \<Rightarrow>
        (case api_checks r eps w1 of (outs, w2) \<Rightarrow> (out # outs, w2)))"

lemma api_loop_summary:
  "api_checks r eps w = (outs, w') \<Longrightarrow>
   \<exists>d. api_loop r eps result drifts w =
     (result\<lparr>Remaining := Remaining result + int (length (filter (\<lambda>out. out \<noteq> ApiSame) outs)), Detail := d\<rparr>,
      drifts + int (length (filter is_api_drift outs)), w')"
proof (induction eps arbitrary: result drifts w outs)
  case Nil
  then show ?case by (auto intro!: exI[of _ "Detail result"])
next
  case (Cons ep eps)
  obtain out w1 where c: "api_check r ep w = (out, w1)" by fastforce
  obtain os where os: "api_checks r eps w1 = (os, w')" "outs = out # os"
    using Cons.prems c by (auto split: prod.splits)
  let ?r = "if out = ApiSame then result
    else result\<lparr>Remaining := Remaining result + 1, Detail := Detail result @ api_detail ep out\<rparr>"
  let ?d = "case out of ApiDrift p s \<Rightarrow> drifts + 1 | _ \<Rightarrow> drifts"
  obtain d where "api_loop r eps ?r ?d w1 =
     (?r\<lparr>Remaining := Remaining ?r + int (length (filter (\<lambda>out. out \<noteq> ApiSame) os)), Detail := d\<rparr>,
      ?d + int (length (filter is_api_drift os)), w')"
    using Cons.IH[OF os(1)] by blast
  then show ?case using c os(2)
    by (cases out) (auto simp: add.assoc simp del: api_detail.simps intro!: exI[of _ d])
qed

text \<open>Events the validator may cause: requests, to each site with its own token, and drift metrics.\<close>

definition own_request :: "api_validator \<Rightarrow> event \<Rightarrow> bool" where
  "own_request r e \<longleftrightarrow>
     (\<exists>ep. e = HttpGet (count_url (av_primaryURL r) ep) (av_primaryToken r)) \<or>
     (\<exists>ep. e = HttpGet (count_url (av_secondaryURL r) ep) (av_secondaryToken r)) \<or>
     (\<exists>c s. e = Metric (DriftTotal c s))"

lemma fetchCount_world: "snd (fetchCount b t p w) = emit (HttpGet (count_url b p) t) w"
  by (simp add: fetchCount_def http_get_def)

lemma api_check_world:
  assumes "api_check r ep w = (out, w')"
  shows "extends w w' \<and> list_all (own_request r) (added w w')"
proof -
  obtain p w1 where 1: "fetchCount (av_primaryURL r) (av_primaryToken r) ep w = (p, w1)" by fastforce
  obtain s w2 where 2: "fetchCount (av_secondaryURL r) (av_secondaryToken r) ep w1 = (s, w2)" by fastforce
  define e1 where "e1 = HttpGet (count_url (av_primaryURL r) ep) (av_primaryToken r)"
  define e2 where "e2 = HttpGet (count_url (av_secondaryURL r) ep) (av_secondaryToken r)"
  define e3 where "e3 = Metric (DriftTotal (''api:'' @ ep) ''warning'')"
  have w1: "w1 = emit e1 w" "w2 = emit e2 w1"
    using fetchCount_world 1 2 unfolding e1_def e2_def by (metis snd_conv)+
  have e: "own_request r e1" "own_request r e2" "own_request r e3"
    unfolding own_request_def e1_def e2_def e3_def by blast+
  have "w' = emit e1 w \<or> w' = emit e2 (emit e1 w) \<or> w' = emit e3 (emit e2 (emit e1 w))"
    using assms 1 2 w1 unfolding api_check_def e3_def by (auto split: sum.splits if_splits)
  then show ?thesis using e by (elim disjE) (auto simp: added_def intro: extends_emitI)
qed

lemma api_checks_world:
  "api_checks r eps w = (outs, w') \<Longrightarrow>
   extends w w' \<and> list_all (own_request r) (added w w') \<and> length outs = length eps"
proof (induction eps arbitrary: w outs)
  case Nil
  then show ?case by simp
next
  case (Cons ep eps)
  obtain out w1 where c: "api_check r ep w = (out, w1)" by fastforce
  obtain os where os: "api_checks r eps w1 = (os, w')" "outs = out # os"
    using Cons.prems c by (auto split: prod.splits)
  have 1: "extends w w1" "list_all (own_request r) (added w w1)" using api_check_world[OF c] by auto
  have 2: "extends w1 w'" "list_all (own_request r) (added w1 w')" "length os = length eps"
    using Cons.IH[OF os(1)] by auto
  show ?case
    unfolding added_trans[OF 1(1) 2(1)] using 1 2 os(2) extends_trans[OF 1(1) 2(1)] by simp
qed

lemma av_Reconcile_summary:
  assumes "api_checks r endpoints w = (outs, w')"
  shows "\<exists>d. av_Reconcile r w =
    (\<lparr>OK = (\<forall>out \<in> set outs. \<not> is_api_drift out), Lag = 0, Detail = d, Repaired = 0,
      Remaining = int (length (filter (\<lambda>out. out \<noteq> ApiSame) outs))\<rparr>, w')"
  using api_loop_summary[OF assms, of "(res_ok ''api validation complete'')\<lparr>OK := False\<rparr>" 0]
  by (auto simp: av_Reconcile_def filter_empty_conv)

interpretation api_validator_rec: reconciler "graph_of (av_Reconcile r)" for r
proof unfold_locales
  fix w res w'
  obtain outs w1 where c: "api_checks r endpoints w = (outs, w1)" by fastforce
  show "graph_of (av_Reconcile r) w res w' \<Longrightarrow> extends w w'"
    using av_Reconcile_summary[OF c] api_checks_world[OF c] by (auto simp: graph_of_def)
  show "\<exists>res w'. graph_of (av_Reconcile r) w res w'"
    unfolding graph_of_def by (metis prod.collapse)
qed

lemma dec_value_append: "dec_value (ds @ [c]) = dec_value ds * 10 + (int (of_char c :: nat) - 48)"
  by (simp add: dec_value_def)

lemma digit_char_value: "0 \<le> n \<Longrightarrow> n < 10 \<Longrightarrow> int (of_char (digit_char n) :: nat) - 48 = n"
proof -
  assume n: "0 \<le> n" "n < 10"
  have "\<forall>d \<in> set [0, 1, 2, 3, 4, 5, 6, 7, 8, 9]. int (of_char (digit_char d) :: nat) - 48 = d"
    by code_simp
  moreover have "n = 0 \<or> n = 1 \<or> n = 2 \<or> n = 3 \<or> n = 4 \<or> n = 5 \<or> n = 6 \<or> n = 7 \<or> n = 8 \<or> n = 9"
    using n by arith
  ultimately show ?thesis by auto
qed

lemma dec_value_int_str: "0 \<le> n \<Longrightarrow> dec_value (int_str n) = n"
proof (induction n rule: int_str.induct)
  case (1 n)
  show ?case
  proof (cases "n < 10")
    case True
    then show ?thesis using 1 digit_char_value[of n]
      by (subst int_str.simps) (simp add: dec_value_def)
  next
    case False
    then have "dec_value (int_str (n div 10)) = n div 10" using 1 by simp
    then show ?thesis using False 1(2) digit_char_value[of "n mod 10"]
      by (subst int_str.simps) (simp add: dec_value_append)
  qed
qed

lemma own_requests_execs: "list_all (own_request r) es \<Longrightarrow> execs es = []"
  by (induction es) (auto simp: own_request_def)

interpretation api_validator_confined: confined_reconciler "graph_of (av_Reconcile r)" "{}" for r
proof unfold_locales
  fix w res w'
  obtain outs w1 where c: "api_checks r endpoints w = (outs, w1)" by fastforce
  show "graph_of (av_Reconcile r) w res w' \<Longrightarrow> set (execs (added w w')) \<subseteq> {}"
    using av_Reconcile_summary[OF c] api_checks_world[OF c] own_requests_execs by (auto simp: graph_of_def)
qed

lemma own_requests_observing: "list_all (own_request r) es \<Longrightarrow> list_all observing es"
  by (induction es) (auto simp: own_request_def)

interpretation api_validator_reads: reading_reconciler "graph_of (av_Reconcile r)" for r
proof unfold_locales
  fix w res w'
  obtain outs w1 where c: "api_checks r endpoints w = (outs, w1)" by fastforce
  show "graph_of (av_Reconcile r) w res w' \<Longrightarrow> observes w w'"
    using av_Reconcile_summary[OF c] api_checks_world[OF c] own_requests_observing by (auto simp: graph_of_def observes_def)
qed

section \<open>Properties\<close>


definition sample_av :: api_validator where
  "sample_av = \<lparr>av_primaryURL = ''https://p/api/v4'', av_secondaryURL = ''https://s/api/v4'',
     av_primaryToken = ''pt'', av_secondaryToken = ''st''\<rparr>"

definition counting_world :: "string \<Rightarrow> string \<Rightarrow> world" where
  "counting_world p s = calm_world []\<lparr>http_reply := (\<lambda>_ _ t.
     Inr \<lparr>StatusCode = 200, XTotal = (if t = ''pt'' then p else s), Body = []\<rparr>)\<rparr>"


text \<open>A count that was printed in decimal is read back, as far as it fits 64 bits.\<close>

lemma count_roundtrip:
  assumes "0 \<le> n" "n < 2 ^ 63"
  shows "sscan_int (int_str n) = Inr n"
proof -
  have d: "\<forall>c \<in> set (int_str n). is_digit c" using int_str_digits assms(1) by blast
  obtain c cs where cs: "int_str n = c # cs" using int_str_ne[of n] by (cases "int_str n") auto
  have c: "is_digit c" using d cs by simp
  have sp: "list_all (\<lambda>p. p \<noteq> [] \<and> \<not> is_digit (hd p)) space_runes" by code_simp
  have "\<not> (q \<noteq> [] \<and> has_prefix (int_str n) q)" if "q \<in> set space_runes" for q
  proof -
    have "q \<noteq> []" "\<not> is_digit (hd q)" using sp that by (auto simp: list_all_iff)
    then show ?thesis using c cs by (cases q) (auto simp: has_prefix_iff)
  qed
  then have "find (\<lambda>q. q \<noteq> [] \<and> has_prefix (int_str n) q) space_runes = None"
    by (simp only: find_None_iff) blast
  then have "strip_any space_runes (int_str n) = int_str n" by (rule strip_any_none)
  moreover have "split_sign (int_str n) = (False, int_str n)"
    using c unfolding cs by (auto simp: split_sign_def is_digit_def)
  moreover have t: "takeWhile is_digit (int_str n) = int_str n" using d by (simp add: takeWhile_eq_all_conv)
  ultimately show ?thesis
    using assms dec_value_int_str[OF assms(1)] by (simp add: sscan_int_def Let_def t)
qed

text \<open>With both sites unreachable the audit reports OK, with every resource remaining.\<close>

lemma api_audit_ok_when_unreachable:
  "OK (fst (av_Reconcile sample_av (calm_world []\<lparr>http_reply := (\<lambda>_ _ _. Inl ''down'')\<rparr>))) \<and>
   Remaining (fst (av_Reconcile sample_av (calm_world []\<lparr>http_reply := (\<lambda>_ _ _. Inl ''down'')\<rparr>))) = 5"
  by code_simp

end
