(* ===== verification/Webhook.thy ===== *)
theory Webhook
  imports Geo_World Projectpath
begin

text \<open>
  \<open>internal/webhook/webhook.go\<close>: the receiver of push notifications. The first part is the HTTP
  handler with its guards and its cap on concurrent jobs, and the server as a state machine over
  requests and finishing jobs; the second is the trigger manager, which coalesces a burst of
  pushes to one project. The JSON decoder of the payload is a parameter: it gives an error, or the
  field project.path_with_namespace (empty if absent).
\<close>

section \<open>The handler\<close>

record wh_server =
  sv_addr :: string
  sv_secretToken :: string
  sv_cap :: nat

record wh_request =
  rq_Method :: string
  rq_Token :: string
  rq_Event :: string
  rq_Body :: string
  rq_BodyErr :: "string option"

type_synonym job = "string \<times> string"

definition NewServer :: "string \<Rightarrow> string \<Rightarrow> string + wh_server" where
  "NewServer addr secretToken =
     (if secretToken = [] then Inl ''webhook secret_token must not be empty''
      else Inr \<lparr>sv_addr = addr, sv_secretToken = secretToken, sv_cap = 8\<rparr>)"

text \<open>Reading a body up to a limit: an error after the last byte shows only when the limit was not reached.\<close>

definition read_body :: "int \<Rightarrow> wh_request \<Rightarrow> string + string" where
  "read_body n req =
     (case rq_BodyErr req of
        Some e \<Rightarrow> if int (length (rq_Body req)) < n then Inl e else Inr (limit_bytes n (rq_Body req))
      | None \<Rightarrow> Inr (limit_bytes n (rq_Body req)))"

definition extractProjectPath :: "(string \<Rightarrow> string + string) \<Rightarrow> string \<Rightarrow> string + string" where
  "extractProjectPath unmarshal body =
     (case unmarshal body of
        Inl e \<Rightarrow> Inl (''parse webhook payload: '' @ e)
      | Inr p \<Rightarrow> if p = [] then Inl ''no project.path_with_namespace in payload'' else Inr p)"

text \<open>
  The answer's status code and the jobs that hold a slot of the semaphore afterwards; the job of an
  accepted request runs on its own, see \<open>finishJob\<close>.
\<close>

definition wh_drift :: "string \<Rightarrow> event" where
  "wh_drift severity = Metric (DriftTotal ''webhook'' severity)"

definition wh_warn :: "string \<Rightarrow> event" where
  "wh_warn msg = Logged ''warn'' (''webhook: '' @ msg)"

definition handleWebhook ::
    "(string \<Rightarrow> string + string) \<Rightarrow> wh_server \<Rightarrow> wh_request \<Rightarrow> job list \<Rightarrow> world \<Rightarrow> (int \<times> job list) \<times> world" where
  "handleWebhook unmarshal s req jobs w =
     (if rq_Method req \<noteq> ''POST'' then ((405, jobs), w)
      else if rq_Token req \<noteq> sv_secretToken s then ((401, jobs), emit (wh_drift ''critical'') w)
      else (case read_body 1048576 req of
              Inl e \<Rightarrow> ((400, jobs), w)
            | Inr body \<Rightarrow>
                (case extractProjectPath unmarshal body of
                   Inl e \<Rightarrow> ((200, jobs), emit (wh_warn ''extract project path'') w)
                 | Inr p \<Rightarrow>
                     (case Validate p of
                        Some e \<Rightarrow> ((200, jobs), emit (wh_drift ''warning'') (emit (wh_warn ''invalid project path'') w))
                      | None \<Rightarrow>
                          (if length jobs < sv_cap s then ((200, jobs @ [(p, rq_Event req)]), w)
                           else ((503, jobs), emit (wh_warn ''concurrency limit reached, dropping trigger'')
                                   (emit (wh_drift ''warning'') w)))))))"

definition finishJob :: "job \<Rightarrow> string option \<Rightarrow> world \<Rightarrow> world" where
  "finishJob j r w =
     (case r of
        Some err \<Rightarrow> emit (Metric (SyncDuration ''webhook_trigger'' ''error''))
                      (emit (Logged ''error'' (''webhook-triggered sync failed: '' @ fst j)) w)
      | None \<Rightarrow> emit (Logged ''info'' (''webhook-triggered sync complete: '' @ fst j))
                  (emit (Metric (LastSync ''webhook_trigger''))
                    (emit (Metric (SyncDuration ''webhook_trigger'' ''ok'')) w)))"

text \<open>
  The server: requests arrive and jobs finish in any order. What the trigger function does is a
  relation from the path, the event and a world to its error and the world after; the actions of
  a job take place in one piece, when it finishes.
\<close>

type_synonym trigger_func = "string \<Rightarrow> string \<Rightarrow> world \<Rightarrow> string option \<Rightarrow> world \<Rightarrow> bool"

inductive server_step ::
    "(string \<Rightarrow> string + string) \<Rightarrow> trigger_func \<Rightarrow> wh_server \<Rightarrow> job list \<times> world \<Rightarrow> job list \<times> world \<Rightarrow> bool"
  for um trig s where
  arrives: "handleWebhook um s req jobs w = ((code, jobs'), w') \<Longrightarrow> server_step um trig s (jobs, w) (jobs', w')"
| finishes: "trig (fst j) (snd j) w r w' \<Longrightarrow>
    server_step um trig s (pre @ j # post, w) (pre @ post, finishJob j r w')"

inductive server_reach ::
    "(string \<Rightarrow> string + string) \<Rightarrow> trigger_func \<Rightarrow> wh_server \<Rightarrow> world \<Rightarrow> job list \<times> world \<Rightarrow> bool"
  for um trig s w0 where
  reach_start: "server_reach um trig s w0 ([], w0)"
| reach_step: "server_reach um trig s w0 st \<Longrightarrow> server_step um trig s st st' \<Longrightarrow> server_reach um trig s w0 st'"

section \<open>The trigger manager\<close>

text \<open>
  One call of \<open>Trigger\<close> goes through the phases below; a call is known by the order in which it
  took the lock. \<open>tm_pending\<close> maps a project to the call whose cancel function is stored.
\<close>

datatype phase = Debouncing | Fetching | Leaving | Gone

record tm_call =
  cl_path :: string
  cl_cancelled :: bool
  cl_phase :: phase

record trigger_manager =
  tm_pending :: "string \<rightharpoonup> nat"
  tm_calls :: "tm_call list"

definition NewTriggerManager :: trigger_manager where
  "NewTriggerManager = \<lparr>tm_pending = (\<lambda>_. None), tm_calls = []\<rparr>"

definition set_cancelled :: "nat \<Rightarrow> trigger_manager \<Rightarrow> trigger_manager" where
  "set_cancelled i m = m\<lparr>tm_calls := (tm_calls m)[i := (tm_calls m ! i)\<lparr>cl_cancelled := True\<rparr>]\<rparr>"

definition set_phase :: "nat \<Rightarrow> phase \<Rightarrow> trigger_manager \<Rightarrow> trigger_manager" where
  "set_phase i p m = m\<lparr>tm_calls := (tm_calls m)[i := (tm_calls m ! i)\<lparr>cl_phase := p\<rparr>]\<rparr>"

text \<open>The first critical section: cancel the pending call of the project, store the own cancel function.\<close>

definition trigger_enter :: "string \<Rightarrow> trigger_manager \<Rightarrow> trigger_manager" where
  "trigger_enter path m =
     (let m1 = (case tm_pending m path of Some i \<Rightarrow> set_cancelled i m | None \<Rightarrow> m)
      in m1\<lparr>tm_pending := (tm_pending m1)(path \<mapsto> length (tm_calls m1)),
            tm_calls := tm_calls m1 @ [\<lparr>cl_path = path, cl_cancelled = False, cl_phase = Debouncing\<rparr>]\<rparr>)"

text \<open>The deferred critical section: the project's entry is deleted, whichever call stored it.\<close>

definition trigger_leave :: "nat \<Rightarrow> trigger_manager \<Rightarrow> trigger_manager" where
  "trigger_leave i m =
     set_phase i Gone (m\<lparr>tm_pending := (tm_pending m)(cl_path (tm_calls m ! i) := None)\<rparr>)"

datatype tm_event =
    Enter string        \<comment> \<open>a call takes the lock\<close>
  | ParentDone nat      \<comment> \<open>the context of a call times out or the server stops\<close>
  | SeesCancel nat      \<comment> \<open>the debounce select takes the cancellation\<close>
  | TimerFires nat      \<comment> \<open>the debounce select takes the timer, also when both are ready\<close>
  | FetchReturns nat
  | Leave nat           \<comment> \<open>the deferred function\<close>

definition in_phase :: "nat \<Rightarrow> phase \<Rightarrow> trigger_manager \<Rightarrow> bool" where
  "in_phase i p m \<longleftrightarrow> i < length (tm_calls m) \<and> cl_phase (tm_calls m ! i) = p"

fun tm_step :: "tm_event \<Rightarrow> trigger_manager \<Rightarrow> trigger_manager option" where
  "tm_step (Enter path) m = Some (trigger_enter path m)"
| "tm_step (ParentDone i) m = (if i < length (tm_calls m) then Some (set_cancelled i m) else None)"
| "tm_step (SeesCancel i) m =
     (if in_phase i Debouncing m \<and> cl_cancelled (tm_calls m ! i) then Some (set_phase i Leaving m) else None)"
| "tm_step (TimerFires i) m = (if in_phase i Debouncing m then Some (set_phase i Fetching m) else None)"
| "tm_step (FetchReturns i) m = (if in_phase i Fetching m then Some (set_phase i Leaving m) else None)"
| "tm_step (Leave i) m = (if in_phase i Leaving m then Some (trigger_leave i m) else None)"

fun tm_run :: "tm_event list \<Rightarrow> trigger_manager \<Rightarrow> trigger_manager option" where
  "tm_run [] m = Some m"
| "tm_run (e # es) m = (case tm_step e m of Some m' \<Rightarrow> tm_run es m' | None \<Rightarrow> None)"

section \<open>Lemmas on the handler\<close>

lemma NewServer_Inr: "NewServer addr tok = Inr s \<longleftrightarrow> tok \<noteq> [] \<and> s = \<lparr>sv_addr = addr, sv_secretToken = tok, sv_cap = 8\<rparr>"
  by (auto simp: NewServer_def)

definition authentic :: "wh_server \<Rightarrow> wh_request \<Rightarrow> bool" where
  "authentic s req \<longleftrightarrow> rq_Method req = ''POST'' \<and> rq_Token req = sv_secretToken s"

definition names_project :: "(string \<Rightarrow> string + string) \<Rightarrow> wh_request \<Rightarrow> string \<Rightarrow> bool" where
  "names_project um req p \<longleftrightarrow>
     (\<exists>body. read_body 1048576 req = Inr body \<and> um body = Inr p) \<and> Validate p = None"

lemma extract_Inr: "extractProjectPath um b = Inr p \<longleftrightarrow> um b = Inr p \<and> p \<noteq> []"
  by (auto simp: extractProjectPath_def split: sum.splits)

lemma Validate_empty: "Validate [] \<noteq> None"
  by (simp add: Validate_def)

lemma wh_event_execs [simp]:
  "execs (wh_drift v # es) = execs es" "execs (wh_warn m # es) = execs es"
  by (simp_all add: wh_drift_def wh_warn_def)

text \<open>The handler in two cases: a request that names a project, and any other.\<close>

lemma handle_cases:
  assumes "handleWebhook um s req jobs w = ((code, jobs'), w')"
  shows "extends w w' \<and> execs (added w w') = [] \<and>
    (if authentic s req \<and> (\<exists>p. names_project um req p)
     then (if length jobs < sv_cap s then code = 200 \<and> w' = w \<and> (\<exists>p. names_project um req p \<and> jobs' = jobs @ [(p, rq_Event req)])
           else code = 503 \<and> jobs' = jobs)
     else jobs' = jobs \<and> code \<noteq> 503)"
proof (cases "authentic s req")
  case False
  then show ?thesis using assms by (auto simp: handleWebhook_def authentic_def split: if_splits)
next
  case auth: True
  show ?thesis
  proof (cases "read_body 1048576 req")
    case (Inl e)
    then show ?thesis using assms auth by (auto simp: handleWebhook_def authentic_def names_project_def)
  next
    case body: (Inr b)
    show ?thesis
    proof (cases "extractProjectPath um b")
      case (Inl e)
      then have "\<not> (\<exists>p. names_project um req p)"
        using body Validate_empty by (auto simp: names_project_def extractProjectPath_def split: sum.splits if_splits)
      then show ?thesis using assms auth body Inl by (auto simp: handleWebhook_def authentic_def)
    next
      case p: (Inr p)
      have n: "names_project um req q \<longleftrightarrow> q = p \<and> Validate p = None" for q
        using body p by (auto simp: names_project_def extract_Inr)
      have r: "((code, jobs'), w') = (case Validate p of
          Some e \<Rightarrow> ((200, jobs), emit (wh_drift ''warning'') (emit (wh_warn ''invalid project path'') w))
        | None \<Rightarrow> (if length jobs < sv_cap s then ((200, jobs @ [(p, rq_Event req)]), w)
            else ((503, jobs), emit (wh_warn ''concurrency limit reached, dropping trigger'')
                    (emit (wh_drift ''warning'') w))))"
        unfolding assms[symmetric] using auth body p by (simp add: handleWebhook_def authentic_def)
      have two: "extends w (emit a (emit b w))" "added w (emit a (emit b w)) = [b, a]" for a b
        by (auto simp: added_def intro: extends_emitI)
      have ex: "(\<exists>p. names_project um req p) \<longleftrightarrow> Validate p = None" using n by blast
      show ?thesis
      proof (cases "Validate p")
        case None
        then have "names_project um req p" using n by blast
        then show ?thesis
          using r None ex auth two by (cases "length jobs < sv_cap s") auto
      next
        case (Some e)
        then show ?thesis using r ex two by simp
      qed
    qed
  qed
qed

lemma finishJob_world: "extends w (finishJob j r w) \<and> execs (added w (finishJob j r w)) = []"
proof -
  have "extends w (emit a (emit b w)) \<and> added w (emit a (emit b w)) = [b, a]"
    "extends w (emit a (emit b (emit c w))) \<and> added w (emit a (emit b (emit c w))) = [c, b, a]" for a b c
    by (auto simp: added_def intro: extends_emitI)
  then show ?thesis by (cases r) (simp_all only: finishJob_def option.case execs_simps execs_other simp_thms)
qed

lemma handle_observes: "handleWebhook um s req jobs w = (r, w') \<Longrightarrow> observes w w'"
  by (auto simp: handleWebhook_def wh_drift_def wh_warn_def split: if_splits sum.splits option.splits intro!: observes_emit)

lemma finishJob_observes: "observes w (finishJob j r w)"
  by (auto simp: finishJob_def split: option.splits intro!: observes_emit)

lemma server_jobs:
  assumes "server_reach um trig s w0 st"
  shows "length (fst st) \<le> sv_cap s \<and> (\<forall>(p, ev) \<in> set (fst st). Validate p = None)"
  using assms
proof (induction rule: server_reach.induct)
  case reach_start
  then show ?case by simp
next
  case (reach_step st st')
  from reach_step.hyps(2) show ?case
  proof (cases rule: server_step.cases)
    case (arrives req jobs w code jobs' w')
    then show ?thesis using handle_cases[OF arrives(3)] reach_step.IH
      by (auto simp: names_project_def split: if_splits)
  next
    case (finishes j w r w' pre post)
    then show ?thesis using reach_step.IH by auto
  qed
qed

text \<open>Whatever a trigger keeps of the history, the server keeps.\<close>

lemma server_keeps:
  assumes "server_reach um trig s w0 st"
    and trig: "\<And>p ev w r w'. Validate p = None \<Longrightarrow> trig p ev w r w' \<Longrightarrow> extends w w' \<and> (\<forall>x \<in> set (execs (added w w')). Q p x)"
  shows "extends w0 (snd st) \<and> (\<forall>x \<in> set (execs (added w0 (snd st))). \<exists>p. Validate p = None \<and> Q p x)"
  using assms(1)
proof (induction rule: server_reach.induct)
  case reach_start
  then show ?case by simp
next
  case (reach_step st st')
  from reach_step.hyps(2) show ?case
  proof (cases rule: server_step.cases)
    case (arrives req jobs w code jobs' w')
    note H = handle_cases[OF arrives(3)]
    have "extends w0 w" using reach_step.IH arrives by simp
    moreover have "extends w w'" "execs (added w w') = []" using H by auto
    ultimately show ?thesis
      using reach_step.IH arrives by (simp add: added_trans[of w0 w w'] extends_trans[of w0 w w'])
  next
    case (finishes j w r w' pre post)
    let ?w2 = "finishJob j r w'"
    have v: "Validate (fst j) = None"
      using server_jobs[OF reach_step.hyps(1)] finishes by auto
    have 0: "extends w0 w" "\<forall>x \<in> set (execs (added w0 w)). \<exists>p. Validate p = None \<and> Q p x"
      using reach_step.IH finishes by simp_all
    have 1: "extends w w'" "\<forall>x \<in> set (execs (added w w')). Q (fst j) x"
      using trig[OF v finishes(3)] by auto
    have 2: "extends w' ?w2" "execs (added w' ?w2) = []" using finishJob_world by auto
    have e: "execs (added w0 ?w2) = execs (added w0 w) @ execs (added w w')"
      unfolding added_trans[OF extends_trans[OF 0(1) 1(1)] 2(1)] added_trans[OF 0(1) 1(1)] using 2(2) by simp
    have "extends w0 ?w2" using 0(1) 1(1) 2(1) by (blast intro: extends_trans)
    then show ?thesis using 0 1 v e finishes by auto
  qed
qed

section \<open>Lemmas on the manager\<close>

lemma nth_update_in: "j < length xs \<Longrightarrow> xs[i := x] ! j = (if i = j then x else xs ! j)"
  by (cases "i < length xs") auto

text \<open>While no call of the project has left: the entry is the newest call's, every older one is cancelled.\<close>

definition burst :: "string \<Rightarrow> trigger_manager \<Rightarrow> bool" where
  "burst p m \<longleftrightarrow>
     (\<forall>i < length (tm_calls m). cl_path (tm_calls m ! i) = p \<longrightarrow>
        (\<exists>k. tm_pending m p = Some k \<and> i \<le> k \<and> (i < k \<longrightarrow> cl_cancelled (tm_calls m ! i)))) \<and>
     (\<forall>k. tm_pending m p = Some k \<longrightarrow> k < length (tm_calls m) \<and> cl_path (tm_calls m ! k) = p)"

definition same_calls :: "trigger_manager \<Rightarrow> trigger_manager \<Rightarrow> bool" where
  "same_calls m m' \<longleftrightarrow> tm_pending m' = tm_pending m \<and> length (tm_calls m') = length (tm_calls m) \<and>
     (\<forall>i < length (tm_calls m). cl_path (tm_calls m' ! i) = cl_path (tm_calls m ! i) \<and>
        (cl_cancelled (tm_calls m ! i) \<longrightarrow> cl_cancelled (tm_calls m' ! i)))"

lemma same_calls_set:
  "same_calls m (set_cancelled i m)" "same_calls m (set_phase i ph m)"
  by (auto simp: same_calls_def set_cancelled_def set_phase_def nth_update_in)

lemma burst_same_calls: "burst p m \<Longrightarrow> same_calls m m' \<Longrightarrow> burst p m'"
  unfolding burst_def same_calls_def by metis

lemma burst_push:
  assumes "\<forall>i < length (tm_calls m). cl_path (tm_calls m ! i) = p \<longrightarrow> cl_cancelled (tm_calls m ! i)"
    and "cl_path c = p"
  shows "burst p (m\<lparr>tm_pending := (tm_pending m)(p \<mapsto> length (tm_calls m)), tm_calls := tm_calls m @ [c]\<rparr>)"
  using assms by (auto simp: burst_def nth_append less_Suc_eq)

lemma burst_push_other:
  assumes "burst p m" and "path \<noteq> p" and "cl_path c = path"
  shows "burst p (m\<lparr>tm_pending := (tm_pending m)(path \<mapsto> k), tm_calls := tm_calls m @ [c]\<rparr>)"
  using assms unfolding burst_def by (auto simp: nth_append less_Suc_eq)

lemma burst_cancelled:
  assumes "burst p m" and "i < length (tm_calls m)" and "cl_path (tm_calls m ! i) = p" and "tm_pending m p = Some k"
  shows "cl_cancelled (tm_calls (set_cancelled k m) ! i)"
proof (cases "i = k")
  case True
  then show ?thesis using assms(2) by (simp add: set_cancelled_def)
next
  case False
  obtain k' where k': "tm_pending m p = Some k'" "i \<le> k'" "i < k' \<longrightarrow> cl_cancelled (tm_calls m ! i)"
    using assms(1-3) unfolding burst_def by blast
  then have "k' = k" using assms(4) by simp
  then have "cl_cancelled (tm_calls m ! i)" using k' False by simp
  then show ?thesis using False by (simp add: set_cancelled_def)
qed

lemma burst_enter:
  assumes "burst p m"
  shows "burst p (trigger_enter path m)"
proof -
  define m1 where "m1 = (case tm_pending m path of Some i \<Rightarrow> set_cancelled i m | None \<Rightarrow> m)"
  have t: "trigger_enter path m = m1\<lparr>tm_pending := (tm_pending m1)(path \<mapsto> length (tm_calls m1)),
      tm_calls := tm_calls m1 @ [\<lparr>cl_path = path, cl_cancelled = False, cl_phase = Debouncing\<rparr>]\<rparr>"
    by (simp add: trigger_enter_def m1_def Let_def)
  have s: "same_calls m m1"
    unfolding m1_def using same_calls_set(1) by (cases "tm_pending m path") (auto simp: same_calls_def)
  show ?thesis
  proof (cases "path = p")
    case False
    have "burst p m1" using assms s by (rule burst_same_calls)
    then show ?thesis unfolding t using False by (intro burst_push_other) simp_all
  next
    case True
    have "cl_cancelled (tm_calls m1 ! i)" if i: "i < length (tm_calls m1)" "cl_path (tm_calls m1 ! i) = p" for i
    proof -
      have m: "i < length (tm_calls m)" "cl_path (tm_calls m ! i) = p" using s i by (auto simp: same_calls_def)
      then obtain k where "tm_pending m p = Some k" using assms unfolding burst_def by blast
      then show ?thesis using burst_cancelled[OF assms m] True by (simp add: m1_def)
    qed
    then show ?thesis using True unfolding t by (simp add: burst_push)
  qed
qed

lemma tm_step_burst:
  assumes "tm_step e m = Some m'" and "burst p m" and "\<forall>i. e = Leave i \<longrightarrow> cl_path (tm_calls m ! i) \<noteq> p"
  shows "burst p m'"
proof (cases e)
  case (Leave i)
  have "burst p (m\<lparr>tm_pending := (tm_pending m)(cl_path (tm_calls m ! i) := None)\<rparr>)"
    using assms Leave by (auto simp: burst_def)
  then show ?thesis using assms Leave burst_same_calls same_calls_set(2)
    by (auto simp: trigger_leave_def split: if_splits)
qed (use assms burst_same_calls same_calls_set burst_enter in \<open>auto split: if_splits\<close>)

lemma tm_step_paths:
  assumes "tm_step e m = Some m'"
  shows "length (tm_calls m) \<le> length (tm_calls m') \<and>
    (\<forall>i < length (tm_calls m). cl_path (tm_calls m' ! i) = cl_path (tm_calls m ! i))"
  using assms
  by (cases e) (auto simp: trigger_enter_def trigger_leave_def set_cancelled_def set_phase_def nth_append
      nth_update_in Let_def split: if_splits option.splits)

lemma tm_run_paths:
  "tm_run es m = Some m' \<Longrightarrow> length (tm_calls m) \<le> length (tm_calls m') \<and>
    (\<forall>i < length (tm_calls m). cl_path (tm_calls m' ! i) = cl_path (tm_calls m ! i))"
proof (induction es arbitrary: m)
  case Nil
  then show ?case by simp
next
  case (Cons e es)
  then obtain m1 where 1: "tm_step e m = Some m1" "tm_run es m1 = Some m'" by (auto split: option.splits)
  then show ?case using tm_step_paths[OF 1(1)] Cons.IH[OF 1(2)] by auto
qed

lemma tm_run_burst:
  assumes "tm_run es m = Some m'" and "burst p m" and "\<forall>i. Leave i \<in> set es \<longrightarrow> cl_path (tm_calls m' ! i) \<noteq> p"
  shows "burst p m'"
  using assms
proof (induction es arbitrary: m)
  case Nil
  then show ?case by simp
next
  case (Cons e es)
  then obtain m1 where 1: "tm_step e m = Some m1" "tm_run es m1 = Some m'" by (auto split: option.splits)
  have "cl_path (tm_calls m ! i) \<noteq> p" if "e = Leave i" for i
  proof -
    have "i < length (tm_calls m)" using 1(1) that by (auto simp: in_phase_def split: if_splits)
    moreover have "cl_path (tm_calls m' ! i) \<noteq> p" using Cons.prems(3) that by simp
    ultimately show ?thesis using tm_run_paths[OF Cons.prems(1)] by auto
  qed
  then have "burst p m1" using tm_step_burst[OF 1(1) Cons.prems(2)] by blast
  then show ?case using Cons.IH[OF 1(2)] Cons.prems(3) by simp
qed

section \<open>Properties\<close>

text \<open>C25. No unauthenticated trigger: a request starts a job only if it is a POST that carries the
  server's non-empty secret, its body names a project whose path passes the validator, and fewer
  than eight jobs run; then exactly that job starts. Any other request leaves the jobs alone, and
  the handler itself runs no command.\<close>

theorem webhook_guarded:
  assumes "NewServer addr tok = Inr s" and "handleWebhook um s req jobs w = ((code, jobs'), w')"
  shows "execs (added w w') = [] \<and>
    (if rq_Method req = ''POST'' \<and> rq_Token req = tok \<and> tok \<noteq> [] \<and> (\<exists>p. names_project um req p) \<and> length jobs < 8
     then code = 200 \<and> (\<exists>p. names_project um req p \<and> jobs' = jobs @ [(p, rq_Event req)])
     else jobs' = jobs)"
  using assms(1) handle_cases[OF assms(2)] by (auto simp: NewServer_Inr authentic_def split: if_splits)

definition push_request :: "string \<Rightarrow> wh_request" where
  "push_request tok =
     \<lparr>rq_Method = ''POST'', rq_Token = tok, rq_Event = ''Push Hook'', rq_Body = ''group/app'', rq_BodyErr = None\<rparr>"

theorem webhook_guarded_witness:
  "(\<exists>s p. NewServer '':8080'' ''tok'' = Inr s \<and>
     snd (fst (handleWebhook Inr s (push_request ''tok'') [] (calm_world []))) = [(p, ''Push Hook'')]) \<and>
   (\<exists>s. NewServer '':8080'' ''tok'' = Inr s \<and>
     snd (fst (handleWebhook Inr s (push_request ''bad'') [] (calm_world []))) = [])"
proof -
  obtain s where s: "NewServer '':8080'' ''tok'' = Inr s" by (simp add: NewServer_def)
  obtain c1 j1 w1 where h1: "handleWebhook Inr s (push_request ''tok'') [] (calm_world []) = ((c1, j1), w1)"
    by (metis prod.collapse)
  obtain c2 j2 w2 where h2: "handleWebhook Inr s (push_request ''bad'') [] (calm_world []) = ((c2, j2), w2)"
    by (metis prod.collapse)
  have "names_project Inr (push_request ''tok'') ''group/app''"
  proof -
    have "read_body 1048576 (push_request ''tok'') = Inr ''group/app''" "Validate ''group/app'' = None" by code_simp+
    then show ?thesis by (simp add: names_project_def)
  qed
  then have "\<exists>p. names_project Inr (push_request ''tok'') p" by blast
  then have "\<exists>p. j1 = [(p, ''Push Hook'')]"
    using webhook_guarded[OF s h1] by (auto simp: push_request_def)
  moreover have "j2 = []" using webhook_guarded[OF s h2] by (simp add: push_request_def)
  ultimately show ?thesis using s h1 h2 by auto
qed

text \<open>
  In every state the server can reach, under every order of requests and finishing jobs, at most
  eight jobs run, each for a path that passes the validator.
\<close>

lemma webhook_bounded:
  assumes "NewServer addr tok = Inr s" and "server_reach um trig s w0 (jobs, w)"
  shows "length jobs \<le> 8 \<and> (\<forall>(p, ev) \<in> set jobs. Validate p = None)"
  using server_jobs[OF assms(2)] assms(1) by (simp add: NewServer_Inr)

lemma webhook_bounded_witness:
  "\<exists>s jobs w. NewServer '':8080'' ''tok'' = Inr s \<and>
     server_reach Inr (\<lambda>_ _ w r w'. r = None \<and> w' = w) s (calm_world []) (jobs, w) \<and>
     jobs \<noteq> [] \<and> length jobs \<le> 8"
proof -
  define s where "s = \<lparr>sv_addr = '':8080'', sv_secretToken = ''tok'', sv_cap = 8\<rparr>"
  have s: "NewServer '':8080'' ''tok'' = Inr s" by (simp add: NewServer_def s_def)
  obtain c1 j1 w1 where h: "handleWebhook Inr s (push_request ''tok'') [] (calm_world []) = ((c1, j1), w1)"
    by (metis prod.collapse)
  have "snd (fst (handleWebhook Inr \<lparr>sv_addr = '':8080'', sv_secretToken = ''tok'', sv_cap = 8\<rparr>
      (push_request ''tok'') [] (calm_world []))) = [(''group/app'', ''Push Hook'')]"
    by code_simp
  then have j: "j1 = [(''group/app'', ''Push Hook'')]" using h by (simp add: s_def)
  have r: "server_reach Inr (\<lambda>_ _ w r w'. r = None \<and> w' = w) s (calm_world []) (j1, w1)"
    by (rule reach_step[OF reach_start arrives[OF h]])
  from webhook_bounded[OF s r] show ?thesis using s r j by blast
qed

text \<open>C27. A burst coalesces: as long as no call of a project has come to its deferred clean-up, at
  most one of its calls is not cancelled, whatever timers, timeouts and calls of other projects
  do in between.\<close>

theorem burst_coalesces:
  assumes "tm_run es NewTriggerManager = Some m" and "\<forall>i. Leave i \<in> set es \<longrightarrow> cl_path (tm_calls m ! i) \<noteq> p"
    and "i < length (tm_calls m)" "cl_path (tm_calls m ! i) = p" "\<not> cl_cancelled (tm_calls m ! i)"
    and "j < length (tm_calls m)" "cl_path (tm_calls m ! j) = p" "\<not> cl_cancelled (tm_calls m ! j)"
  shows "i = j"
proof -
  have "burst p NewTriggerManager" by (simp add: burst_def NewTriggerManager_def)
  then have "burst p m" using tm_run_burst assms(1,2) by blast
  then have "\<forall>i < length (tm_calls m). cl_path (tm_calls m ! i) = p \<longrightarrow>
      (\<exists>k. tm_pending m p = Some k \<and> i \<le> k \<and> (i < k \<longrightarrow> cl_cancelled (tm_calls m ! i)))"
    by (simp add: burst_def)
  then show ?thesis using assms(3-8) by (metis le_neq_implies_less option.inject)
qed

definition burst_events :: "tm_event list" where
  "burst_events = [Enter ''g/a'', Enter ''g/a'', Enter ''g/b'', Enter ''g/a'', TimerFires 3, SeesCancel 0]"

theorem burst_coalesces_witness:
  "\<exists>m i. tm_run burst_events NewTriggerManager = Some m \<and> i < length (tm_calls m) \<and>
     cl_path (tm_calls m ! i) = ''g/a'' \<and> \<not> cl_cancelled (tm_calls m ! i) \<and> i = 3"
proof -
  have r: "\<exists>m. tm_run burst_events NewTriggerManager = Some m \<and>
      tm_calls m = [\<lparr>cl_path = ''g/a'', cl_cancelled = True, cl_phase = Leaving\<rparr>,
        \<lparr>cl_path = ''g/a'', cl_cancelled = True, cl_phase = Debouncing\<rparr>,
        \<lparr>cl_path = ''g/b'', cl_cancelled = False, cl_phase = Debouncing\<rparr>,
        \<lparr>cl_path = ''g/a'', cl_cancelled = False, cl_phase = Fetching\<rparr>]"
    by (simp add: burst_events_def NewTriggerManager_def trigger_enter_def set_cancelled_def set_phase_def
        in_phase_def numeral_eq_Suc)
  then obtain m where m: "tm_run burst_events NewTriggerManager = Some m"
    "tm_calls m = [\<lparr>cl_path = ''g/a'', cl_cancelled = True, cl_phase = Leaving\<rparr>,
        \<lparr>cl_path = ''g/a'', cl_cancelled = True, cl_phase = Debouncing\<rparr>,
        \<lparr>cl_path = ''g/b'', cl_cancelled = False, cl_phase = Debouncing\<rparr>,
        \<lparr>cl_path = ''g/a'', cl_cancelled = False, cl_phase = Fetching\<rparr>]" by blast
  define i where "i = length (tm_calls m) - 1"
  have i: "i < length (tm_calls m)" "cl_path (tm_calls m ! i) = ''g/a''" "\<not> cl_cancelled (tm_calls m ! i)"
    by (simp_all add: i_def m(2))
  have "i = 3"
    by (rule burst_coalesces[OF m(1) _ i]) (simp_all add: m(2) burst_events_def numeral_eq_Suc)
  then show ?thesis using m(1) i by blast
qed

text \<open>Beyond a burst the manager does not keep its promise of one fetch per project: a cancelled
  call that cleans up deletes the entry of the call that replaced it, so a third call cancels
  nobody and two fetches of the same project run side by side, neither cancelled.\<close>

lemma concurrent_fetches_possible:
  "\<exists>es m i j. tm_run es NewTriggerManager = Some m \<and> i \<noteq> j \<and>
     in_phase i Fetching m \<and> in_phase j Fetching m \<and>
     cl_path (tm_calls m ! i) = cl_path (tm_calls m ! j) \<and>
     \<not> cl_cancelled (tm_calls m ! i) \<and> \<not> cl_cancelled (tm_calls m ! j)"
proof -
  let ?es = "[Enter ''g/a'', Enter ''g/a'', SeesCancel 0, Leave 0, Enter ''g/a'', TimerFires 1, TimerFires 2]"
  have "\<exists>m. tm_run ?es NewTriggerManager = Some m \<and>
      tm_calls m = [\<lparr>cl_path = ''g/a'', cl_cancelled = True, cl_phase = Gone\<rparr>,
        \<lparr>cl_path = ''g/a'', cl_cancelled = False, cl_phase = Fetching\<rparr>,
        \<lparr>cl_path = ''g/a'', cl_cancelled = False, cl_phase = Fetching\<rparr>]"
    by (simp add: NewTriggerManager_def trigger_enter_def trigger_leave_def set_cancelled_def set_phase_def
        in_phase_def numeral_eq_Suc)
  then obtain m where m: "tm_run ?es NewTriggerManager = Some m"
    "tm_calls m = [\<lparr>cl_path = ''g/a'', cl_cancelled = True, cl_phase = Gone\<rparr>,
        \<lparr>cl_path = ''g/a'', cl_cancelled = False, cl_phase = Fetching\<rparr>,
        \<lparr>cl_path = ''g/a'', cl_cancelled = False, cl_phase = Fetching\<rparr>]" by blast
  have "in_phase 1 Fetching m" "in_phase 2 Fetching m" "cl_path (tm_calls m ! 1) = cl_path (tm_calls m ! 2)"
    "\<not> cl_cancelled (tm_calls m ! 1)" "\<not> cl_cancelled (tm_calls m ! 2)" "(1 :: nat) \<noteq> 2"
    by (simp_all add: in_phase_def m(2))
  with m(1) show ?thesis by blast
qed

end
