(* ===== verification/Doctor.thy ===== *)
theory Doctor
  imports Dbkey Dsn Config_Props
begin

text \<open>
  \<open>internal/doctor/doctor.go\<close>: the prerequisite checks of both sites. A check is an action on the
  world that yields its verdict; a report runs the checks of a configuration in order.
\<close>

section \<open>Checks and reports\<close>

datatype dc_status = PASS | FAIL | WARN

record doctor_check =
  dc_Name :: string
  dc_Category :: string
  dc_Status :: dc_status
  dc_Detail :: string

record doctor_result =
  dr_Checks :: "doctor_check list"
  dr_Pass :: int
  dr_Fail :: int
  dr_Warn :: int

type_synonym check_fn = "world \<Rightarrow> doctor_check \<times> world"

definition mk_check :: "string \<Rightarrow> string \<Rightarrow> dc_status \<Rightarrow> string \<Rightarrow> doctor_check" where
  "mk_check n c s d = \<lparr>dc_Name = n, dc_Category = c, dc_Status = s, dc_Detail = d\<rparr>"

section \<open>The checks over ssh\<close>

definition echo_cmd :: string where "echo_cmd = ''echo ok''"

definition sshCheck :: "string \<Rightarrow> string \<Rightarrow> ssh_run \<Rightarrow> check_fn" where
  "sshCheck label sshHost run w =
     (let mk = mk_check (''ssh:'' @ label) ''connectivity''
      in if sshHost = [] then (mk WARN ''ssh_host not configured (needed for rsync/fetch/failover)'', w)
         else (case run sshHost echo_cmd w of
                 ((out, Some e), w1) \<Rightarrow> (mk FAIL (''ssh '' @ sshHost @ '': '' @ e @ '': '' @ trim_space out), w1)
               | ((out, None), w1) \<Rightarrow> (mk PASS sshHost, w1)))"

definition key_count_cmd :: string where
  "key_count_cmd =
     (let q = [CHR 0x27]; secrets = '' /var/opt/gitlab/gitlab-rails/etc/secrets.yml 2>/dev/null || ''
      in ''sudo grep -c '' @ q @ ''db_key_base'' @ q @ secrets @ ''grep -c '' @ q @ ''db_key_base'' @ q @ secrets @ ''echo 0'')"

text \<open>The last line of the output, trimmed: the count the last command printed.\<close>

definition last_count :: "string \<Rightarrow> string" where
  "last_count out = trim_space (last (split_on (CHR 0x0A) (trim_space out)))"

definition dbKeyPresentCheck :: "string \<Rightarrow> string \<Rightarrow> ssh_run \<Rightarrow> check_fn" where
  "dbKeyPresentCheck label sshHost run w =
     (let mk = mk_check (''dbkey:'' @ label) ''dbkey''
      in if sshHost = [] then (mk WARN ''ssh_host not configured'', w)
         else (case run sshHost key_count_cmd w of
                 ((out, Some e), w1) \<Rightarrow> (mk FAIL (''ssh: '' @ e), w1)
               | ((out, None), w1) \<Rightarrow>
                   (if last_count out = ''0'' then mk FAIL ''db_key_base not found in secrets.yml or gitlab.rb''
                    else mk PASS ''present in secrets.yml'', w1)))"

definition dbKeyParityCheck :: "string \<Rightarrow> string \<Rightarrow> string \<Rightarrow> ssh_run \<Rightarrow> check_fn" where
  "dbKeyParityCheck primarySSH secondarySSH secondaryName run w =
     (let mk = mk_check (''dbkey:parity:'' @ secondaryName) ''dbkey''
      in case CheckWithRunner primarySSH secondarySSH run w of
           (Some e, w1) \<Rightarrow> (mk FAIL e, w1)
         | (None, w1) \<Rightarrow> (mk PASS ''primary and secondary match'', w1))"

text \<open>The text up to the first occurrence of a pattern, if that is not at the start.\<close>

definition before :: "string \<Rightarrow> string \<Rightarrow> string" where
  "before pat s = (case str_index s pat of Some i \<Rightarrow> if i > 0 then take i s else s | None \<Rightarrow> s)"

definition remoteBinaryCheck :: "string \<Rightarrow> string \<Rightarrow> string \<Rightarrow> string \<Rightarrow> ssh_run \<Rightarrow> check_fn" where
  "remoteBinaryCheck label bin sshHost cmd run w =
     (let mk = mk_check (bin @ '':'' @ label) ''tools''
      in if sshHost = [] then (mk WARN ''ssh_host not configured'', w)
         else (case run sshHost cmd w of
                 ((out, Some e), w1) \<Rightarrow> (mk FAIL (bin @ '' not found: '' @ e), w1)
               | ((out, None), w1) \<Rightarrow> (mk PASS (before [CHR 0x0A] (trim_space out)), w1)))"

definition rsync_cmd :: string where "rsync_cmd = ''rsync --version''"
definition git_cmd :: string where "git_cmd = ''git --version''"

definition rsyncCheck :: "string \<Rightarrow> string \<Rightarrow> ssh_run \<Rightarrow> check_fn" where
  "rsyncCheck label sshHost run = remoteBinaryCheck label ''rsync'' sshHost rsync_cmd run"

definition gitCheck :: "string \<Rightarrow> string \<Rightarrow> ssh_run \<Rightarrow> check_fn" where
  "gitCheck label sshHost run = remoteBinaryCheck label ''git'' sshHost git_cmd run"

definition test_dir_cmd :: "string \<Rightarrow> string" where "test_dir_cmd path = ''test -d '' @ path"

definition pathExistsCheck :: "string \<Rightarrow> string \<Rightarrow> string \<Rightarrow> string \<Rightarrow> ssh_run \<Rightarrow> check_fn" where
  "pathExistsCheck label sshHost path pathName run w =
     (let mk = mk_check (''path:'' @ label @ '':'' @ pathName) ''filesystem''
      in if sshHost = [] then (mk WARN ''ssh_host not configured'', w)
         else (case run sshHost (test_dir_cmd path) w of
                 ((out, Some e), w1) \<Rightarrow> (mk WARN (path @ '' does not exist yet (will be created on first sync)''), w1)
               | ((out, None), w1) \<Rightarrow> (mk PASS path, w1)))"

section \<open>The checks on the databases\<close>

text \<open>Every one connects, asks one question, and closes the pool it opened.\<close>

definition ask ::
    "string \<Rightarrow> string \<Rightarrow> string list \<Rightarrow> (string \<Rightarrow> doctor_check) \<Rightarrow> (sql_error + sql_value \<Rightarrow> doctor_check) \<Rightarrow> check_fn" where
  "ask dsn sql args on_error judge w =
     (case connect dsn w of
        (Some e, w1) \<Rightarrow> (on_error e, w1)
      | (None, w1) \<Rightarrow> (case query_row dsn sql args w1 of (ans, w2) \<Rightarrow> (judge ans, emit (CloseConn dsn) w2)))"

definition scan_text :: "sql_error + sql_value \<Rightarrow> string + string" where
  "scan_text ans =
     (case ans of Inl e \<Rightarrow> Inl (show_sql_error e) | Inr (SqlText s) \<Rightarrow> Inr s | Inr _ \<Rightarrow> Inl ''scan error'')"

definition scan_bool :: "sql_error + sql_value \<Rightarrow> string + bool" where
  "scan_bool ans =
     (case ans of Inl e \<Rightarrow> Inl (show_sql_error e) | Inr (SqlBool b) \<Rightarrow> Inr b | Inr _ \<Rightarrow> Inl ''scan error'')"

definition version_sql :: string where "version_sql = ''SELECT version()''"
definition role_sql :: string where "role_sql = ''SELECT rolreplication FROM pg_roles WHERE rolname = $1''"
definition wal_level_sql :: string where "wal_level_sql = ''SHOW wal_level''"
definition senders_sql :: string where "senders_sql = ''SHOW max_wal_senders''"
definition in_recovery_sql :: string where "in_recovery_sql = ''SELECT pg_is_in_recovery()''"

definition pgControlCheck :: "string \<Rightarrow> PostgresConfig \<Rightarrow> check_fn" where
  "pgControlCheck label pg w =
     (let mk = mk_check (''pg:'' @ label @ '':control'') ''postgres''
      in if pg_Host pg = [] then (mk FAIL ''postgres.host not configured'', w)
         else ask (DSN pg) version_sql [] (\<lambda>e. mk FAIL (''connect: '' @ e))
                (\<lambda>ans. case scan_text ans of
                          Inl e \<Rightarrow> mk FAIL (''query version: '' @ e)
                        | Inr v \<Rightarrow> mk PASS (before '' ('' v)) w)"

definition pgReplicationRoleCheck :: "string \<Rightarrow> PostgresConfig \<Rightarrow> check_fn" where
  "pgReplicationRoleCheck label pg =
     (let mk = mk_check (''pg:'' @ label @ '':repl-role'') ''postgres''
      in ask (DSN pg) role_sql [pg_ReplicationUser pg] (\<lambda>e. mk FAIL (''connect: '' @ e))
           (\<lambda>ans. case scan_bool ans of
                     Inl e \<Rightarrow> mk FAIL (''role '' @ pg_ReplicationUser pg @ '' not found: '' @ e)
                   | Inr has \<Rightarrow>
                       if \<not> has then mk FAIL (''role '' @ pg_ReplicationUser pg @ '' exists but lacks REPLICATION privilege'')
                       else mk PASS (''role '' @ pg_ReplicationUser pg @ '' has REPLICATION'')))"

definition pgWalLevelCheck :: "string \<Rightarrow> PostgresConfig \<Rightarrow> check_fn" where
  "pgWalLevelCheck label pg =
     (let mk = mk_check (''pg:'' @ label @ '':wal_level'') ''postgres''
      in ask (DSN pg) wal_level_sql [] (\<lambda>e. mk FAIL (''connect: '' @ e))
           (\<lambda>ans. case scan_text ans of
                     Inl e \<Rightarrow> mk FAIL (''query: '' @ e)
                   | Inr level \<Rightarrow>
                       if level \<noteq> ''replica'' \<and> level \<noteq> ''logical''
                       then mk FAIL (''wal_level='' @ level @ '', need replica or logical'')
                       else mk PASS (''wal_level='' @ level)))"

definition pgWalSendersCheck :: "string \<Rightarrow> PostgresConfig \<Rightarrow> check_fn" where
  "pgWalSendersCheck label pg =
     (let mk = mk_check (''pg:'' @ label @ '':max_wal_senders'') ''postgres''
      in ask (DSN pg) senders_sql [] (\<lambda>e. mk FAIL (''connect: '' @ e))
           (\<lambda>ans. case scan_text ans of
                     Inl e \<Rightarrow> mk FAIL (''query: '' @ e)
                   | Inr level \<Rightarrow>
                       if level = ''0'' then mk FAIL ''max_wal_senders=0, must be > 0''
                       else mk PASS (''max_wal_senders='' @ level)))"

definition pgInRecoveryCheck :: "string \<Rightarrow> PostgresConfig \<Rightarrow> check_fn" where
  "pgInRecoveryCheck label pg =
     (let mk = mk_check (''pg:'' @ label @ '':in_recovery'') ''postgres''
      in ask (DSN pg) in_recovery_sql [] (\<lambda>e. mk WARN (''connect: '' @ e @ '' (expected if not yet bootstrapped)''))
           (\<lambda>ans. case scan_bool ans of
                     Inl e \<Rightarrow> mk WARN (''query: '' @ e @ '' (expected if not yet bootstrapped)'')
                   | Inr rec \<Rightarrow>
                       if \<not> rec then mk WARN ''secondary PG is NOT in recovery mode (run `geoctl pg setup` first)''
                       else mk PASS ''in recovery (standby)''))"

definition s3BucketCheck :: "string \<Rightarrow> S3Config \<Rightarrow> check_fn" where
  "s3BucketCheck label s3 w =
     (let mk = mk_check (''s3:'' @ label) ''storage''
      in (if s3_PrimaryBucket s3 = [] then mk FAIL ''primary_bucket not set''
          else if s3_ReplicaBucket s3 = [] then mk FAIL ''replica_bucket not set''
          else if s3_AccessKey s3 = [] \<or> s3_SecretKey s3 = [] then mk FAIL ''access_key/secret_key empty (check env vars)''
          else mk PASS (''primary='' @ s3_PrimaryBucket s3 @ '' replica='' @ s3_ReplicaBucket s3), w))"

section \<open>The report\<close>

definition primary_label :: string where "primary_label = ''primary''"

definition primary_checks :: "Config \<Rightarrow> ssh_run \<Rightarrow> check_fn list" where
  "primary_checks cfg run =
     (let ssh = site_SSHHost (Primary cfg); pg = site_Postgres (Primary cfg)
      in [sshCheck primary_label ssh run, pgControlCheck primary_label pg, pgReplicationRoleCheck primary_label pg,
          pgWalLevelCheck primary_label pg, pgWalSendersCheck primary_label pg, dbKeyPresentCheck primary_label ssh run,
          rsyncCheck primary_label ssh run, gitCheck primary_label ssh run])"

definition secondary_checks :: "Config \<Rightarrow> ssh_run \<Rightarrow> SiteConfig \<Rightarrow> check_fn list" where
  "secondary_checks cfg run sc =
     (let label = ''secondary:'' @ site_Name sc; ssh = site_SSHHost sc; pg = site_Postgres sc
      in [sshCheck label ssh run, pgControlCheck label pg, pgInRecoveryCheck label pg, dbKeyPresentCheck label ssh run] @
         (if site_SSHHost (Primary cfg) \<noteq> [] \<and> ssh \<noteq> []
          then [dbKeyParityCheck (site_SSHHost (Primary cfg)) ssh (site_Name sc) run] else []) @
         [rsyncCheck label ssh run, gitCheck label ssh run] @
         (if git_ReposPath (site_Git sc) \<noteq> []
          then [pathExistsCheck label ssh (git_ReposPath (site_Git sc)) ''repos_path'' run] else []))"

definition storage_checks :: "Config \<Rightarrow> check_fn list" where
  "storage_checks cfg =
     (case os_S3 (site_ObjectStore (Primary cfg)) of
        Some s3 \<Rightarrow> if os_Backend (site_ObjectStore (Primary cfg)) = ''s3'' then [s3BucketCheck primary_label s3] else []
      | None \<Rightarrow> [])"

definition all_checks :: "Config \<Rightarrow> ssh_run \<Rightarrow> check_fn list" where
  "all_checks cfg run =
     primary_checks cfg run @ concat (map (secondary_checks cfg run) (Secondaries cfg)) @ storage_checks cfg"

fun run_checks :: "check_fn list \<Rightarrow> world \<Rightarrow> doctor_check list \<times> world" where
  "run_checks [] w = ([], w)"
| "run_checks (f # fs) w =
     (case f w of (c, w1) \<Rightarrow> (case run_checks fs w1 of (cs, w2) \<Rightarrow> (c # cs, w2)))"

text \<open>The loop that counts.\<close>

fun tally :: "doctor_check list \<Rightarrow> doctor_result \<Rightarrow> doctor_result" where
  "tally [] r = r"
| "tally (c # cs) r =
     tally cs (case dc_Status c of
                 PASS \<Rightarrow> r\<lparr>dr_Pass := dr_Pass r + 1\<rparr>
               | FAIL \<Rightarrow> r\<lparr>dr_Fail := dr_Fail r + 1\<rparr>
               | WARN \<Rightarrow> r\<lparr>dr_Warn := dr_Warn r + 1\<rparr>)"

definition doctor_RunWith :: "Config \<Rightarrow> ssh_run \<Rightarrow> world \<Rightarrow> doctor_result \<times> world" where
  "doctor_RunWith cfg run w =
     (case run_checks (all_checks cfg run) w of
        (cs, w1) \<Rightarrow> (tally cs \<lparr>dr_Checks = cs, dr_Pass = 0, dr_Fail = 0, dr_Warn = 0\<rparr>, w1))"

definition doctor_Run :: "Config \<Rightarrow> world \<Rightarrow> doctor_result \<times> world" where
  "doctor_Run cfg = doctor_RunWith cfg (CombinedOutput ssh_Default)"

section \<open>Printing\<close>

definition pad_right :: "nat \<Rightarrow> string \<Rightarrow> string" where
  "pad_right n s = s @ replicate (n - length s) CHR '' ''"

fun show_status :: "dc_status \<Rightarrow> string" where
  "show_status PASS = ''PASS''" | "show_status FAIL = ''FAIL''" | "show_status WARN = ''WARN''"

definition table_row :: "string \<Rightarrow> string \<Rightarrow> string \<Rightarrow> string \<Rightarrow> string" where
  "table_row a b c d = pad_right 40 a @ '' '' @ pad_right 12 b @ '' '' @ pad_right 10 c @ '' '' @ d @ [CHR 0x0A]"

definition print_lines :: "doctor_result \<Rightarrow> string list" where
  "print_lines r =
     (let rule = replicate 100 CHR ''-'' @ [CHR 0x0A] in
      [[CHR 0x0A] @ table_row ''CHECK'' ''CATEGORY'' ''STATUS'' ''DETAIL'', rule] @
      map (\<lambda>c. table_row (dc_Name c) (dc_Category c) (show_status (dc_Status c)) (dc_Detail c)) (dr_Checks r) @
      [rule, [CHR 0x0A] @ ''Summary: '' @ itoa (dr_Pass r) @ '' PASS, '' @ itoa (dr_Warn r) @ '' WARN, '' @ itoa (dr_Fail r) @
         '' FAIL'' @ [CHR 0x0A],
       [CHR 0x0A] @
        (if dr_Fail r > 0 then ''Fix the FAIL items above before proceeding.''
         else if dr_Warn r > 0 then ''WARN items may be expected if you haven'' @ [CHR 0x27] @ ''t bootstrapped yet.''
         else ''All checks passed. Ready to sync!'') @ [CHR 0x0A]])"

definition doctor_Print :: "doctor_result \<Rightarrow> world \<Rightarrow> world" where
  "doctor_Print r w = fold (\<lambda>l. emit (Printed l)) (print_lines r) w"

section \<open>What a check may do\<close>

text \<open>Read-only commands, statements that read, and pools opened and closed.\<close>

definition read_only_cmds :: "Config \<Rightarrow> string set" where
  "read_only_cmds cfg =
     {echo_cmd, key_count_cmd, rsync_cmd, git_cmd, fetch_cmd True, fetch_cmd False} \<union>
     {test_dir_cmd (git_ReposPath (site_Git sc)) |sc. sc \<in> set (Secondaries cfg)}"

definition read_only_sql :: "string set" where
  "read_only_sql = {version_sql, role_sql, wal_level_sql, senders_sql, in_recovery_sql}"

definition harmless :: "Config \<Rightarrow> ssh_config \<Rightarrow> event \<Rightarrow> bool" where
  "harmless cfg c e \<longleftrightarrow>
     (\<exists>h cmd. cmd \<in> read_only_cmds cfg \<and> e = ssh_event c h cmd) \<or>
     (\<exists>d. e = Connect d \<or> e = CloseConn d) \<or> (\<exists>d q as. q \<in> read_only_sql \<and> e = Query d q as)"

definition harmless_check :: "Config \<Rightarrow> ssh_config \<Rightarrow> check_fn \<Rightarrow> bool" where
  "harmless_check cfg c f \<longleftrightarrow> (\<forall>w. extends w (snd (f w)) \<and> list_all (harmless cfg c) (added w (snd (f w))))"

lemma harmless_ssh: "cmd \<in> read_only_cmds cfg \<Longrightarrow> harmless cfg c (ssh_event c h cmd)"
  unfolding harmless_def by blast

lemma harmless_sql: "q \<in> read_only_sql \<Longrightarrow> harmless cfg c (Query d q as)"
  "harmless cfg c (Connect d)" "harmless cfg c (CloseConn d)"
  unfolding harmless_def by blast+

lemma ask_harmless:
  assumes "sql \<in> read_only_sql"
  shows "harmless_check cfg c (ask dsn sql args on_error judge)"
  unfolding harmless_check_def
proof (intro allI)
  fix w
  let ?f = "ask dsn sql args on_error judge"
  have "snd (?f w) = emit (Connect dsn) w \<or>
      snd (?f w) = emit (CloseConn dsn) (emit (Query dsn sql args) (emit (Connect dsn) w))"
    by (auto simp: ask_def connect_def query_row_def split: option.splits)
  then show "extends w (snd (?f w)) \<and> list_all (harmless cfg c) (added w (snd (?f w)))"
    using harmless_sql assms by (elim disjE) (auto simp: added_def intro!: extends_emitI)
qed

text \<open>A check that sends at most one ssh command.\<close>

lemma one_cmd_harmless:
  assumes "cmd \<in> read_only_cmds cfg"
    and "\<And>w. snd (f w) = w \<or> (\<exists>h. snd (f w) = emit (ssh_event c h cmd) w)"
  shows "harmless_check cfg c f"
  unfolding harmless_check_def
proof (intro allI)
  fix w
  show "extends w (snd (f w)) \<and> list_all (harmless cfg c) (added w (snd (f w)))"
    using assms(2)[of w] harmless_ssh[OF assms(1)] by auto
qed

lemma sshCheck_world: "snd (sshCheck l h (CombinedOutput c) w) = w \<or> snd (sshCheck l h (CombinedOutput c) w) = emit (ssh_event c h echo_cmd) w"
  by (auto simp: sshCheck_def CombinedOutput_eq Let_def split: prod.splits option.splits)

lemma dbKeyPresentCheck_world:
  "snd (dbKeyPresentCheck l h (CombinedOutput c) w) = w \<or> snd (dbKeyPresentCheck l h (CombinedOutput c) w) = emit (ssh_event c h key_count_cmd) w"
  by (auto simp: dbKeyPresentCheck_def CombinedOutput_eq Let_def split: prod.splits option.splits)

lemma remoteBinaryCheck_world:
  "snd (remoteBinaryCheck l b h cmd (CombinedOutput c) w) = w \<or> snd (remoteBinaryCheck l b h cmd (CombinedOutput c) w) = emit (ssh_event c h cmd) w"
  by (auto simp: remoteBinaryCheck_def CombinedOutput_eq Let_def split: prod.splits option.splits)

lemma pathExistsCheck_world:
  "snd (pathExistsCheck l h p n (CombinedOutput c) w) = w \<or> snd (pathExistsCheck l h p n (CombinedOutput c) w) = emit (ssh_event c h (test_dir_cmd p)) w"
  by (auto simp: pathExistsCheck_def CombinedOutput_eq Let_def split: prod.splits option.splits)

lemma read_only_cmds_mem:
  "echo_cmd \<in> read_only_cmds cfg" "key_count_cmd \<in> read_only_cmds cfg" "rsync_cmd \<in> read_only_cmds cfg"
  "git_cmd \<in> read_only_cmds cfg" "fetch_cmd b \<in> read_only_cmds cfg"
  "sc \<in> set (Secondaries cfg) \<Longrightarrow> test_dir_cmd (git_ReposPath (site_Git sc)) \<in> read_only_cmds cfg"
  by (cases b; force simp: read_only_cmds_def)+

lemma read_only_sql_mem:
  "version_sql \<in> read_only_sql" "role_sql \<in> read_only_sql" "wal_level_sql \<in> read_only_sql"
  "senders_sql \<in> read_only_sql" "in_recovery_sql \<in> read_only_sql"
  by (simp_all add: read_only_sql_def)

lemma ssh_checks_harmless:
  "harmless_check cfg c (sshCheck l h (CombinedOutput c))"
  "harmless_check cfg c (dbKeyPresentCheck l h (CombinedOutput c))"
  "harmless_check cfg c (rsyncCheck l h (CombinedOutput c))"
  "harmless_check cfg c (gitCheck l h (CombinedOutput c))"
  "sc \<in> set (Secondaries cfg) \<Longrightarrow>
    harmless_check cfg c (pathExistsCheck l h (git_ReposPath (site_Git sc)) n (CombinedOutput c))"
proof -
  show "harmless_check cfg c (sshCheck l h (CombinedOutput c))"
    using sshCheck_world by (intro one_cmd_harmless[OF read_only_cmds_mem(1)]) blast
  show "harmless_check cfg c (dbKeyPresentCheck l h (CombinedOutput c))"
    using dbKeyPresentCheck_world by (intro one_cmd_harmless[OF read_only_cmds_mem(2)]) blast
  show "harmless_check cfg c (rsyncCheck l h (CombinedOutput c))"
    unfolding rsyncCheck_def using remoteBinaryCheck_world by (intro one_cmd_harmless[OF read_only_cmds_mem(3)]) blast
  show "harmless_check cfg c (gitCheck l h (CombinedOutput c))"
    unfolding gitCheck_def using remoteBinaryCheck_world by (intro one_cmd_harmless[OF read_only_cmds_mem(4)]) blast
  show "sc \<in> set (Secondaries cfg) \<Longrightarrow>
      harmless_check cfg c (pathExistsCheck l h (git_ReposPath (site_Git sc)) n (CombinedOutput c))"
    using pathExistsCheck_world by (intro one_cmd_harmless[OF read_only_cmds_mem(6)]) blast+
qed

lemma parity_check_harmless: "harmless_check cfg c (dbKeyParityCheck p s n (CombinedOutput c))"
  unfolding harmless_check_def
proof (intro allI)
  fix w
  obtain r w1 where R: "CheckWithRunner p s (CombinedOutput c) w = (r, w1)" by fastforce
  have "snd (dbKeyParityCheck p s n (CombinedOutput c) w) = w1"
    using R by (cases r) (simp_all add: dbKeyParityCheck_def Let_def)
  moreover have "extends w w1" "list_all (harmless cfg c) (added w w1)"
    using CheckWithRunner_events[OF R] harmless_ssh[OF read_only_cmds_mem(5)] by (auto simp: list_all_iff)
  ultimately show "extends w (snd (dbKeyParityCheck p s n (CombinedOutput c) w)) \<and>
      list_all (harmless cfg c) (added w (snd (dbKeyParityCheck p s n (CombinedOutput c) w)))" by simp
qed

lemma idle_harmless: "snd (f w) = w \<Longrightarrow> extends w (snd (f w)) \<and> list_all (harmless cfg c) (added w (snd (f w)))"
  by simp

lemma pg_checks_harmless:
  "harmless_check cfg c (pgControlCheck l pg)" "harmless_check cfg c (pgReplicationRoleCheck l pg)"
  "harmless_check cfg c (pgWalLevelCheck l pg)" "harmless_check cfg c (pgWalSendersCheck l pg)"
  "harmless_check cfg c (pgInRecoveryCheck l pg)" "harmless_check cfg c (s3BucketCheck l s3)"
proof -
  note ro = ask_harmless[OF read_only_sql_mem(1)] ask_harmless[OF read_only_sql_mem(2)]
    ask_harmless[OF read_only_sql_mem(3)] ask_harmless[OF read_only_sql_mem(4)] ask_harmless[OF read_only_sql_mem(5)]
  show "harmless_check cfg c (pgControlCheck l pg)"
  proof (cases "pg_Host pg = []")
    case True
    then show ?thesis by (simp add: harmless_check_def pgControlCheck_def Let_def)
  next
    case False
    show ?thesis
      unfolding harmless_check_def pgControlCheck_def Let_def
      by (simp only: False if_False) (rule ro(1)[unfolded harmless_check_def])
  qed
  show "harmless_check cfg c (pgReplicationRoleCheck l pg)" unfolding pgReplicationRoleCheck_def Let_def by (rule ro(2))
  show "harmless_check cfg c (pgWalLevelCheck l pg)" unfolding pgWalLevelCheck_def Let_def by (rule ro(3))
  show "harmless_check cfg c (pgWalSendersCheck l pg)" unfolding pgWalSendersCheck_def Let_def by (rule ro(4))
  show "harmless_check cfg c (pgInRecoveryCheck l pg)" unfolding pgInRecoveryCheck_def Let_def by (rule ro(5))
  show "harmless_check cfg c (s3BucketCheck l s3)"
    by (simp add: harmless_check_def s3BucketCheck_def Let_def)
qed

lemmas checks_harmless = ssh_checks_harmless(1-4) pg_checks_harmless parity_check_harmless

lemma primary_checks_harmless: "list_all (harmless_check cfg c) (primary_checks cfg (CombinedOutput c))"
  unfolding primary_checks_def Let_def by (simp only: list.pred_inject checks_harmless simp_thms)

lemma secondary_checks_harmless:
  assumes "sc \<in> set (Secondaries cfg)"
  shows "list_all (harmless_check cfg c) (secondary_checks cfg (CombinedOutput c) sc)"
proof -
  note p = ssh_checks_harmless(5)[OF assms]
  have "list_all P (if b then [x] else [])" if "P x" for P b and x :: check_fn using that by simp
  then show ?thesis
    unfolding secondary_checks_def Let_def list_all_append
    by (intro conjI) (simp_all only: list.pred_inject checks_harmless p simp_thms)
qed

lemma storage_checks_harmless: "list_all (harmless_check cfg c) (storage_checks cfg)"
  unfolding storage_checks_def
  by (cases "os_S3 (site_ObjectStore (Primary cfg))") (simp_all add: checks_harmless)

lemma all_checks_harmless: "\<forall>f \<in> set (all_checks cfg (CombinedOutput c)). harmless_check cfg c f"
  using primary_checks_harmless[of cfg c] secondary_checks_harmless[of _ cfg c] storage_checks_harmless[of cfg c]
  unfolding all_checks_def list_all_iff by auto

section \<open>What a report says\<close>

lemma run_checks_harmless:
  "\<forall>f \<in> set fs. harmless_check cfg c f \<Longrightarrow> run_checks fs w = (cs, w') \<Longrightarrow>
   extends w w' \<and> list_all (harmless cfg c) (added w w') \<and> length cs = length fs"
proof (induction fs arbitrary: w cs)
  case Nil
  then show ?case by simp
next
  case (Cons f fs)
  obtain c1 w1 where f: "f w = (c1, w1)" by fastforce
  obtain cs' where r: "run_checks fs w1 = (cs', w')" "cs = c1 # cs'"
    using Cons.prems(2) f by (auto split: prod.splits)
  have 1: "extends w w1" "list_all (harmless cfg c) (added w w1)"
    using Cons.prems(1) f unfolding harmless_check_def by (metis list.set_intros(1) snd_conv)+
  have 2: "extends w1 w'" "list_all (harmless cfg c) (added w1 w')" "length cs' = length fs"
    using Cons.IH[OF _ r(1)] Cons.prems(1) by auto
  show ?case
    unfolding added_trans[OF 1(1) 2(1)] using 1 2 r(2) extends_trans[OF 1(1) 2(1)] by simp
qed

text \<open>Every check of the list has its verdict in the report, given at some point of the run.\<close>

lemma run_checks_mem:
  "\<forall>f \<in> set fs. harmless_check cfg c f \<Longrightarrow> run_checks fs w = (cs, w') \<Longrightarrow> f \<in> set fs \<Longrightarrow>
   \<exists>w1. extends w w1 \<and> fst (f w1) \<in> set cs"
proof (induction fs arbitrary: w cs)
  case Nil
  then show ?case by simp
next
  case (Cons g fs)
  obtain c1 w1 where g: "g w = (c1, w1)" by fastforce
  obtain cs' where r: "run_checks fs w1 = (cs', w')" "cs = c1 # cs'"
    using Cons.prems(2) g by (auto split: prod.splits)
  have e: "extends w w1"
    using Cons.prems(1) g unfolding harmless_check_def by (metis list.set_intros(1) snd_conv)
  show ?case
  proof (cases "f = g")
    case True
    then show ?thesis using g r(2) by (intro exI[of _ w]) simp
  next
    case False
    then obtain w2 where "extends w1 w2" "fst (f w2) \<in> set cs'"
      using Cons.IH[OF _ r(1)] Cons.prems(1,3) by auto
    then show ?thesis using extends_trans[OF e] r(2) by auto
  qed
qed

definition count_status :: "dc_status \<Rightarrow> doctor_check list \<Rightarrow> int" where
  "count_status s cs = int (length (filter (\<lambda>c. dc_Status c = s) cs))"

lemma tally_counts:
  "tally cs r = r\<lparr>dr_Pass := dr_Pass r + count_status PASS cs, dr_Fail := dr_Fail r + count_status FAIL cs,
     dr_Warn := dr_Warn r + count_status WARN cs\<rparr>"
proof (induction cs arbitrary: r)
  case Nil
  then show ?case by (simp add: count_status_def)
next
  case (Cons c cs)
  then show ?case by (cases "dc_Status c") (simp_all add: count_status_def)
qed

lemma count_status_total: "count_status PASS cs + count_status FAIL cs + count_status WARN cs = int (length cs)"
proof (induction cs)
  case Nil
  then show ?case by (simp add: count_status_def)
next
  case (Cons c cs)
  then show ?case by (cases "dc_Status c") (simp_all add: count_status_def)
qed

lemma RunWith_report:
  assumes "doctor_RunWith cfg run w = (res, w')"
  shows "run_checks (all_checks cfg run) w = (dr_Checks res, w') \<and> dr_Pass res = count_status PASS (dr_Checks res) \<and>
    dr_Fail res = count_status FAIL (dr_Checks res) \<and> dr_Warn res = count_status WARN (dr_Checks res)"
  using assms by (auto simp: doctor_RunWith_def tally_counts split: prod.splits)

lemma no_fail: "count_status FAIL cs = 0 \<longleftrightarrow> (\<forall>c \<in> set cs. dc_Status c \<noteq> FAIL)"
  by (auto simp: count_status_def filter_empty_conv)

text \<open>A check on a database that does not fail got the answer it asks for.\<close>

lemma mk_check_status [simp]: "dc_Status (mk_check n c s d) = s"
  by (simp add: mk_check_def)

lemma ask_verdict:
  assumes "dc_Status (fst (ask dsn sql args on_error judge w)) \<noteq> FAIL" and "\<And>e. dc_Status (on_error e) = FAIL"
  shows "\<exists>w1 ans. extends w w1 \<and> sql_reply w (trace w1) dsn sql args = ans \<and> dc_Status (judge ans) \<noteq> FAIL"
proof -
  have c: "connect_reply w (trace w) dsn = None"
    using assms by (auto simp: ask_def connect_def split: option.splits prod.splits)
  then have "dc_Status (judge (sql_reply w (trace (emit (Connect dsn) w)) dsn sql args)) \<noteq> FAIL"
    using assms(1) by (simp add: ask_def connect_def query_row_def)
  then show ?thesis using extends_emit by blast
qed

lemma role_verdict:
  assumes "dc_Status (fst (pgReplicationRoleCheck l pg w)) \<noteq> FAIL"
  shows "\<exists>w1. extends w w1 \<and> sql_reply w (trace w1) (DSN pg) role_sql [pg_ReplicationUser pg] = Inr (SqlBool True)"
  using ask_verdict[OF assms[unfolded pgReplicationRoleCheck_def Let_def]]
  by (auto simp: scan_bool_def split: sum.splits sql_value.splits if_splits)

lemma wal_level_verdict:
  assumes "dc_Status (fst (pgWalLevelCheck l pg w)) \<noteq> FAIL"
  shows "\<exists>w1. extends w w1 \<and>
    sql_reply w (trace w1) (DSN pg) wal_level_sql [] \<in> {Inr (SqlText ''replica''), Inr (SqlText ''logical'')}"
  using ask_verdict[OF assms[unfolded pgWalLevelCheck_def Let_def]]
  by (auto simp: scan_text_def split: sum.splits sql_value.splits if_splits)

lemma harmless_observing: "harmless cfg c e \<Longrightarrow> observing e"
  by (auto simp: harmless_def read_only_sql_def reading_sql_def version_sql_def role_sql_def wal_level_sql_def
      senders_sql_def in_recovery_sql_def)

section \<open>Properties\<close>

text \<open>The doctor only looks: whatever the sites answer, everything a report does is a command from
  a fixed set of reading commands over ssh, a reading statement, and the opening and closing of a
  pool; nothing is written on any site.\<close>

lemma doctor_read_only:
  assumes "doctor_RunWith cfg (CombinedOutput c) w = (res, w')"
  shows "extends w w' \<and> list_all (harmless cfg c) (added w w')"
  using run_checks_harmless[OF all_checks_harmless] RunWith_report[OF assms] by blast

definition healthy_world :: world where
  "healthy_world = calm_world ''db_key_base: ab12''\<lparr>sql_reply := (\<lambda>_ _ q _.
     Inr (if q = role_sql \<or> q = in_recovery_sql then SqlBool True
          else if q = wal_level_sql then SqlText ''replica'' else SqlText ''10''))\<rparr>"

definition doctor_config :: Config where
  "doctor_config = sample_config\<lparr>Primary := (sample_site ''p'')\<lparr>site_SSHHost := ''p1''\<rparr>,
     Secondaries := [(sample_site ''s'')\<lparr>site_SSHHost := ''s1''\<rparr>]\<rparr>"

lemma doctor_read_only_witness:
  "list_all (harmless doctor_config ssh_Default)
     (added healthy_world (snd (doctor_RunWith doctor_config (CombinedOutput ssh_Default) healthy_world)))"
  using doctor_read_only[of doctor_config ssh_Default healthy_world] by (metis prod.collapse)

text \<open>C39. A clean bill of health means something: a report has one verdict per check, its three counts
  add up to them, and when it counts no failure the primary did answer, during the run, that the
  replication role may replicate and that its WAL level is replica or logical.\<close>

theorem doctor_clean_report:
  assumes "doctor_RunWith cfg (CombinedOutput c) w = (res, w')"
  shows "dr_Pass res + dr_Fail res + dr_Warn res = int (length (all_checks cfg (CombinedOutput c))) \<and>
    (dr_Fail res = 0 \<longrightarrow>
      (\<exists>w1. extends w w1 \<and> sql_reply w (trace w1) (DSN (site_Postgres (Primary cfg))) role_sql
          [pg_ReplicationUser (site_Postgres (Primary cfg))] = Inr (SqlBool True)) \<and>
      (\<exists>w1. extends w w1 \<and> sql_reply w (trace w1) (DSN (site_Postgres (Primary cfg))) wal_level_sql []
          \<in> {Inr (SqlText ''replica''), Inr (SqlText ''logical'')}))"
proof -
  let ?fs = "all_checks cfg (CombinedOutput c)" and ?pg = "site_Postgres (Primary cfg)"
  have R: "run_checks ?fs w = (dr_Checks res, w')" "dr_Fail res = count_status FAIL (dr_Checks res)"
    "dr_Pass res + dr_Fail res + dr_Warn res = int (length (dr_Checks res))"
    using RunWith_report[OF assms] count_status_total[of "dr_Checks res"] by simp_all
  have len: "length (dr_Checks res) = length ?fs"
    using run_checks_harmless[OF all_checks_harmless R(1)] by blast
  have mem: "\<exists>w1. extends w w1 \<and> dc_Status (fst (f w1)) \<noteq> FAIL" if "f \<in> set ?fs" "dr_Fail res = 0" for f
    using run_checks_mem[OF all_checks_harmless R(1) that(1)] that(2) R(2) no_fail by metis
  have in1: "pgReplicationRoleCheck primary_label ?pg \<in> set ?fs" "pgWalLevelCheck primary_label ?pg \<in> set ?fs"
    by (simp_all add: all_checks_def primary_checks_def Let_def)
  have lift: "\<exists>w1. extends w w1 \<and> P (sql_reply w (trace w1))"
    if "extends w w0" "\<exists>w1. extends w0 w1 \<and> P (sql_reply w0 (trace w1))" for w0 P
    using that extends_trans extends_env(3)[OF that(1)] by metis
  have "\<exists>w1. extends w w1 \<and> sql_reply w (trace w1) (DSN ?pg) role_sql [pg_ReplicationUser ?pg] = Inr (SqlBool True)"
    if "dr_Fail res = 0"
    using mem[OF in1(1) that] role_verdict lift[of _ "\<lambda>f. f (DSN ?pg) role_sql [pg_ReplicationUser ?pg] = Inr (SqlBool True)"]
    by blast
  moreover have "\<exists>w1. extends w w1 \<and> sql_reply w (trace w1) (DSN ?pg) wal_level_sql []
      \<in> {Inr (SqlText ''replica''), Inr (SqlText ''logical'')}" if "dr_Fail res = 0"
    using mem[OF in1(2) that] wal_level_verdict
      lift[of _ "\<lambda>f. f (DSN ?pg) wal_level_sql [] \<in> {Inr (SqlText ''replica''), Inr (SqlText ''logical'')}"]
    by blast
  ultimately show ?thesis using R(3) len by simp
qed

lemma healthy_report: "dr_Fail (fst (doctor_RunWith doctor_config (CombinedOutput ssh_Default) healthy_world)) = 0"
  by code_simp

theorem doctor_clean_report_witness:
  "\<exists>w1. extends healthy_world w1 \<and>
     sql_reply healthy_world (trace w1) (DSN (site_Postgres (Primary doctor_config))) role_sql
       [pg_ReplicationUser (site_Postgres (Primary doctor_config))] = Inr (SqlBool True)"
proof -
  obtain res w' where R: "doctor_RunWith doctor_config (CombinedOutput ssh_Default) healthy_world = (res, w')" by fastforce
  have "dr_Fail res = 0" using healthy_report R by simp
  then show ?thesis using doctor_clean_report[OF R] by blast
qed

end
