(* ===== verification/Pgsetup.thy ===== *)
theory Pgsetup
  imports Geo_World
begin

text \<open>
  \<open>internal/pgsetup/pgsetup.go\<close>: bootstrapping a standby with pg_basebackup and naming it in
  postgresql.auto.conf. The text of that file is computed by \<open>set_appname\<close>; the state is the
  world with its directories and files.
\<close>

section \<open>The code\<close>

record pg_options =
  po_PrimaryDSN :: string
  po_DataDir :: string
  po_SlotName :: string
  po_DryRun :: bool

definition buildBasebackupArgs :: "pg_options \<Rightarrow> string list" where
  "buildBasebackupArgs opts =
     [''-D'', po_DataDir opts, ''-d'', po_PrimaryDSN opts, ''-X'', ''stream'', ''-c'', ''fast'', ''-R'', ''-P''] @
     (if po_SlotName opts \<noteq> [] then [''-S'', po_SlotName opts, ''--create-slot''] else [])"

definition checkDataDir :: "string \<Rightarrow> world \<Rightarrow> string option" where
  "checkDataDir dir w =
     (case list_dir dir w of
        Some (x # xs) \<Rightarrow> Some (''data_dir '' @ dir @ '' is not empty (refusing to overwrite)'')
      | _ \<Rightarrow> None)"

abbreviation quote_char :: char where "quote_char \<equiv> CHR 0x27"
abbreviation newline :: char where "newline \<equiv> CHR 0x0A"

definition conninfo_prefix :: string where "conninfo_prefix = ''primary_conninfo = ''"

definition appname_key :: string where "appname_key = ''application_name=''"

definition injectAppName :: "string \<Rightarrow> string \<Rightarrow> string" where
  "injectAppName line appName =
     (case last_index line quote_char of
        None \<Rightarrow> line @ '' '' @ appname_key @ appName @ [quote_char]
      | Some idx \<Rightarrow> take idx line @ '' '' @ appname_key @ appName @ [quote_char])"

text \<open>The loop over the lines: the first setting decides, and the rest is left as it is.\<close>

fun update_lines :: "string \<Rightarrow> string list \<Rightarrow> string list \<times> bool" where
  "update_lines appName [] = ([], False)"
| "update_lines appName (line # lines) =
     (if has_prefix line conninfo_prefix
      then ((if str_contains line appname_key then line else injectAppName line appName) # lines, True)
      else (case update_lines appName lines of (lines', found) \<Rightarrow> (line # lines', found)))"

definition set_appname :: "string \<Rightarrow> string \<Rightarrow> string" where
  "set_appname content appName =
     (case update_lines appName (split_on newline content) of
        (lines, found) \<Rightarrow>
          (let lines' = (if found then lines
                         else lines @ [conninfo_prefix @ [quote_char] @ appname_key @ appName @ [quote_char]]);
               out = str_join [newline] lines'
           in if has_suffix out [newline] then out else out @ [newline]))"

definition auto_conf :: "string \<Rightarrow> string" where
  "auto_conf dataDir = path_join [dataDir, ''postgresql.auto.conf'']"

definition appendConnInfoAppname :: "string \<Rightarrow> string \<Rightarrow> step" where
  "appendConnInfoAppname dataDir appName w =
     (if appName = [] then (None, w)
      else (case read_path (auto_conf dataDir) w of
              Inl e \<Rightarrow> (Some (''read postgresql.auto.conf: '' @ e), w)
            | Inr content \<Rightarrow> write_path (auto_conf dataDir) (set_appname content appName) w))"

text \<open>The lines printed before and after the backup, and by a dry run.\<close>

definition running_line :: "pg_options \<Rightarrow> string" where
  "running_line opts = ''running pg_basebackup into '' @ po_DataDir opts @ '' ...''"

definition complete_line :: "pg_options \<Rightarrow> string" where
  "complete_line opts = ''standby bootstrap complete. data_dir='' @ po_DataDir opts"

definition dry_run_line :: "pg_options \<Rightarrow> string" where
  "dry_run_line opts = ''[dry-run] pg_basebackup '' @ str_join '' '' (buildBasebackupArgs opts)"

definition pgs_Run :: "pg_options \<Rightarrow> step" where
  "pgs_Run opts w =
     (if po_DataDir opts = [] then (Some ''data_dir is required'', w)
      else if po_PrimaryDSN opts = [] then (Some ''primary_dsn is required'', w)
      else (case checkDataDir (po_DataDir opts) w of
              Some e \<Rightarrow> (Some e, w)
            | None \<Rightarrow>
                if po_DryRun opts
                then (None, emit (Printed (dry_run_line opts)) w)
                else (case exec_cmd ''pg_basebackup'' (buildBasebackupArgs opts) []
                             (emit (Printed (running_line opts)) w) of
                        ((out, Some e), w1) \<Rightarrow> (Some (''pg_basebackup: '' @ e), w1)
                      | ((out, None), w1) \<Rightarrow>
                          (case appendConnInfoAppname (po_DataDir opts) (po_SlotName opts) w1 of
                             (Some e, w2) \<Rightarrow> (Some e, w2)
                           | (None, w2) \<Rightarrow>
                               (None, emit (Printed (complete_line opts)) w2)))))"

section \<open>Lemmas on the settings file\<close>

text \<open>A file whose first setting names the application and whose last line is ended.\<close>

definition settled :: "string \<Rightarrow> bool" where
  "settled s \<longleftrightarrow> has_suffix s [newline] \<and>
     (\<exists>pre line post. split_on newline s = pre @ line # post \<and> \<not> (\<exists>l \<in> set pre. has_prefix l conninfo_prefix) \<and>
        has_prefix line conninfo_prefix \<and> str_contains line appname_key)"

lemma update_lines_at:
  "\<not> (\<exists>l \<in> set pre. has_prefix l conninfo_prefix) \<Longrightarrow> has_prefix line conninfo_prefix \<Longrightarrow>
   update_lines a (pre @ line # post) =
     (pre @ (if str_contains line appname_key then line else injectAppName line a) # post, True)"
  by (induction pre) (auto simp del: has_prefix_Cons)

lemma update_lines_none:
  "\<not> (\<exists>l \<in> set ls. has_prefix l conninfo_prefix) \<Longrightarrow> update_lines a ls = (ls, False)"
  by (induction ls) (auto simp del: has_prefix_Cons)

lemma first_setting:
  obtains (none) "\<not> (\<exists>l \<in> set ls. has_prefix l conninfo_prefix)"
  | (first) pre line post where "ls = pre @ line # post" "\<not> (\<exists>l \<in> set pre. has_prefix l conninfo_prefix)"
      "has_prefix line conninfo_prefix"
proof (cases "\<exists>l \<in> set ls. has_prefix l conninfo_prefix")
  case True
  then obtain pre line post where "ls = pre @ line # post" "has_prefix line conninfo_prefix"
    "\<forall>l \<in> set pre. \<not> has_prefix l conninfo_prefix"
    using split_list_first_prop[OF True] by blast
  then show ?thesis using first by blast
qed (use none in blast)

lemma settled_unchanged: "settled s \<Longrightarrow> set_appname s b = s"
proof -
  assume "settled s"
  then obtain pre line post where s: "split_on newline s = pre @ line # post" "has_suffix s [newline]"
    and l: "\<not> (\<exists>l \<in> set pre. has_prefix l conninfo_prefix)" "has_prefix line conninfo_prefix"
      "str_contains line appname_key"
    unfolding settled_def by blast
  have "update_lines b (split_on newline s) = (split_on newline s, True)"
    unfolding s(1) update_lines_at[OF l(1,2)] using l(3) by simp
  then show ?thesis using s(2) by (simp add: set_appname_def)
qed

lemma split_on_head: "c \<notin> set p \<Longrightarrow> split_on c (p @ x) = (p @ hd (split_on c x)) # tl (split_on c x)"
  by (induction p) (auto split: list.splits)

lemma str_contains_append: "str_contains s t \<Longrightarrow> str_contains (s @ u) t"
  by (metis str_contains_iff append.assoc)

text \<open>The pieces of a join whose first parts hold no separator, up to a line that may go on.\<close>

lemma split_on_lines:
  assumes "\<forall>l \<in> set pre. c \<notin> set l" and "c \<notin> set p"
  shows "\<exists>q post. split_on c (str_join [c] (pre @ [p @ x]) @ y) = pre @ (p @ q) # post"
  using assms(1)
proof (induction pre)
  case Nil
  have "split_on c (p @ x @ y) = (p @ hd (split_on c (x @ y))) # tl (split_on c (x @ y))"
    by (rule split_on_head[OF assms(2)])
  then show ?case by auto
next
  case (Cons l pre)
  then obtain q post where "split_on c (str_join [c] (pre @ [p @ x]) @ y) = pre @ (p @ q) # post" by auto
  moreover have "split_on c (l @ c # s) = l # split_on c s" for s
    using split_on_append_sep[of c l s] split_on_id[of c l] Cons.prems by simp
  ultimately show ?case by (auto simp: str_join_Cons)
qed

lemma str_join_last: "str_join sep (pre @ l # post) = str_join sep (pre @ [l]) @ (if post = [] then [] else sep @ str_join sep post)"
proof (induction pre)
  case Nil
  then show ?case by (cases post) simp_all
next
  case (Cons x pre)
  then show ?case by (simp add: str_join_Cons)
qed

lemma settled_join:
  assumes "\<forall>l \<in> set pre. newline \<notin> set l" and "\<not> (\<exists>l \<in> set pre. has_prefix l conninfo_prefix)"
    and "newline \<notin> set p" and "has_prefix p conninfo_prefix" and "str_contains p appname_key"
    and "out = str_join [newline] (pre @ (p @ x) # post)"
  shows "settled (if has_suffix out [newline] then out else out @ [newline])"
proof -
  define t where "t = (if post = [] then [] else [newline] @ str_join [newline] post)"
  define y where "y = t @ (if has_suffix out [newline] then [] else [newline])"
  have "out = str_join [newline] (pre @ [p @ x]) @ t"
    unfolding assms(6) t_def by (rule str_join_last)
  then have s: "(if has_suffix out [newline] then out else out @ [newline]) = str_join [newline] (pre @ [p @ x]) @ y"
    by (simp add: y_def)
  obtain q post' where q: "split_on newline (str_join [newline] (pre @ [p @ x]) @ y) = pre @ (p @ q) # post'"
    using split_on_lines[OF assms(1,3)] by blast
  have "has_prefix (p @ q) conninfo_prefix" using assms(4) by (auto simp: has_prefix_iff)
  moreover have "str_contains (p @ q) appname_key" using assms(5) by (rule str_contains_append)
  moreover have "has_suffix (if has_suffix out [newline] then out else out @ [newline]) [newline]" by simp
  ultimately show ?thesis unfolding settled_def s using q assms(2) by blast
qed

lemma newline_free: "newline \<notin> set conninfo_prefix" "newline \<notin> set appname_key"
  "CHR 0x27 \<notin> set conninfo_prefix"
  by (simp_all add: conninfo_prefix_def appname_key_def)

lemma inject_shape:
  assumes "has_prefix line conninfo_prefix" and "newline \<notin> set line"
  shows "\<exists>p x. injectAppName line a = p @ x \<and> newline \<notin> set p \<and> has_prefix p conninfo_prefix \<and> str_contains p appname_key"
proof -
  define k where "k = (case last_index line quote_char of None \<Rightarrow> line | Some i \<Rightarrow> take i line)"
  have inj: "injectAppName line a = (k @ '' '' @ appname_key) @ a @ [quote_char]"
    by (auto simp: injectAppName_def k_def split: option.splits)
  obtain rest where r: "line = conninfo_prefix @ rest" using assms(1) by (auto simp: has_prefix_iff)
  have "has_prefix k conninfo_prefix"
  proof (cases "last_index line quote_char")
    case None
    then show ?thesis using assms(1) by (simp add: k_def)
  next
    case (Some i)
    have "line ! i = quote_char" "i < length line" using last_index_Some[OF Some] by auto
    then have "\<not> i < length conninfo_prefix"
      using newline_free(3) by (metis nth_append nth_mem r)
    then show ?thesis using Some by (simp add: k_def r)
  qed
  moreover have "newline \<notin> set k" using assms(2) by (auto simp: k_def dest: in_set_takeD split: option.splits)
  ultimately have "newline \<notin> set (k @ '' '' @ appname_key)" "has_prefix (k @ '' '' @ appname_key) conninfo_prefix"
    using newline_free(2) by (auto simp: has_prefix_iff)
  moreover have "str_contains (k @ '' '' @ appname_key) appname_key"
    unfolding str_contains_iff by (intro exI[of _ "k @ '' ''"] exI[of _ "[]"]) simp
  ultimately show ?thesis using inj by blast
qed

lemma set_appname_settled: "settled (set_appname s a)"
proof -
  have nl: "\<forall>l \<in> set (split_on newline s). newline \<notin> set l" using split_on_pieces by blast
  show ?thesis
  proof (cases rule: first_setting[of "split_on newline s"])
    case none
    let ?l = "conninfo_prefix @ [quote_char] @ appname_key"
    have "set_appname s a = (let out = str_join [newline] (split_on newline s @ (?l @ a @ [quote_char]) # []) in
        if has_suffix out [newline] then out else out @ [newline])"
      by (simp add: set_appname_def update_lines_none[OF none])
    moreover have l: "newline \<notin> set ?l" "has_prefix ?l conninfo_prefix" using newline_free by simp_all
    moreover have c: "str_contains ?l appname_key"
      unfolding str_contains_iff by (intro exI[of _ "conninfo_prefix @ [quote_char]"] exI[of _ "[]"]) simp
    ultimately show ?thesis using settled_join[OF nl none l c refl, of "a @ [quote_char]" "[]"] by (simp only: Let_def)
  next
    case (first pre line post)
    have l: "newline \<notin> set line" and pre: "\<forall>l \<in> set pre. newline \<notin> set l" using nl first(1) by auto
    obtain p x where p: "(if str_contains line appname_key then line else injectAppName line a) = p @ x"
      "newline \<notin> set p" "has_prefix p conninfo_prefix" "str_contains p appname_key"
    proof (cases "str_contains line appname_key")
      case True
      then show ?thesis using that[of line "[]"] l first(3) by simp
    next
      case False
      obtain p x where "injectAppName line a = p @ x" "newline \<notin> set p" "has_prefix p conninfo_prefix"
        "str_contains p appname_key" using inject_shape[OF first(3) l] by blast
      then show ?thesis using that[of p x] False by simp
    qed
    have "set_appname s a = (let out = str_join [newline] (pre @ (p @ x) # post) in
        if has_suffix out [newline] then out else out @ [newline])"
      by (simp add: set_appname_def first(1) update_lines_at[OF first(2,3)] p(1))
    then show ?thesis using settled_join[OF pre first(2) p(2-4) refl, of x post] by (simp only: Let_def)
  qed
qed

section \<open>Lemmas on a run\<close>

definition runs_basebackup :: "pg_options \<Rightarrow> world \<Rightarrow> bool" where
  "runs_basebackup opts w \<longleftrightarrow>
     po_DataDir opts \<noteq> [] \<and> po_PrimaryDSN opts \<noteq> [] \<and> \<not> po_DryRun opts \<and>
     (list_dir (po_DataDir opts) w = None \<or> list_dir (po_DataDir opts) w = Some [])"

lemma checkDataDir_None: "checkDataDir d w = None \<longleftrightarrow> list_dir d w = None \<or> list_dir d w = Some []"
  by (auto simp: checkDataDir_def split: option.splits list.splits)

text \<open>Where every file write of a stretch of events goes, and what it holds.\<close>

definition only_writes :: "string \<Rightarrow> (string \<Rightarrow> bool) \<Rightarrow> event list \<Rightarrow> bool" where
  "only_writes path P es \<longleftrightarrow> (\<forall>p c. WriteFile p c \<in> set es \<longrightarrow> p = path \<and> P c)"

lemma append_events:
  assumes "appendConnInfoAppname d a w = (r, w')"
  shows "extends w w' \<and> execs (added w w') = [] \<and> only_writes (auto_conf d) settled (added w w') \<and>
    (r = None \<longrightarrow> a \<noteq> [] \<longrightarrow> (\<exists>c. read_path (auto_conf d) w = Inr c \<and> added w w' = [WriteFile (auto_conf d) (set_appname c a)]))"
  using assms set_appname_settled
  by (auto simp: appendConnInfoAppname_def write_path_def only_writes_def split: if_splits sum.splits)

lemma Run_refused:
  assumes "\<not> runs_basebackup opts w" and "pgs_Run opts w = (r, w')"
  shows "extends w w' \<and> execs (added w w') = [] \<and> only_writes p P (added w w') \<and> (r = None \<longrightarrow> po_DryRun opts)"
proof -
  have "w' = w \<and> r \<noteq> None \<or> (\<exists>s. w' = emit (Printed s) w) \<and> po_DryRun opts"
  proof -
    consider (dir) "po_DataDir opts = []" | (dsn) "po_DataDir opts \<noteq> []" "po_PrimaryDSN opts = []"
      | (full) e where "po_DataDir opts \<noteq> []" "po_PrimaryDSN opts \<noteq> []" "checkDataDir (po_DataDir opts) w = Some e"
      | (dry) "po_DataDir opts \<noteq> []" "po_PrimaryDSN opts \<noteq> []" "checkDataDir (po_DataDir opts) w = None" "po_DryRun opts"
      using assms(1) checkDataDir_None[of "po_DataDir opts" w] unfolding runs_basebackup_def by blast
    then show ?thesis
    proof cases
      case dir
      then show ?thesis using assms(2) by (auto simp: pgs_Run_def)
    next
      case dsn
      then show ?thesis using assms(2) by (auto simp: pgs_Run_def)
    next
      case full
      then show ?thesis using assms(2) by (auto simp: pgs_Run_def)
    next
      case dry
      then show ?thesis using assms(2) by (auto simp: pgs_Run_def)
    qed
  qed
  then show ?thesis by (auto simp: only_writes_def)
qed

text \<open>The world once the backup has run, and the events of a whole successful run with a slot.\<close>

definition after_backup :: "pg_options \<Rightarrow> world \<Rightarrow> world" where
  "after_backup opts w =
     emit (Exec ''pg_basebackup'' (buildBasebackupArgs opts) []) (emit (Printed (running_line opts)) w)"

definition bootstrap_events :: "pg_options \<Rightarrow> string \<Rightarrow> event list" where
  "bootstrap_events opts c =
     [Printed (running_line opts), Exec ''pg_basebackup'' (buildBasebackupArgs opts) [],
      WriteFile (auto_conf (po_DataDir opts)) (set_appname c (po_SlotName opts)), Printed (complete_line opts)]"

lemma Run_events:
  assumes "runs_basebackup opts w" and "pgs_Run opts w = (r, w')"
  shows "extends w w' \<and> execs (added w w') = [(''pg_basebackup'', buildBasebackupArgs opts)] \<and>
    only_writes (auto_conf (po_DataDir opts)) settled (added w w') \<and>
    (r = None \<longrightarrow> po_SlotName opts \<noteq> [] \<longrightarrow>
       (\<exists>c. read_path (auto_conf (po_DataDir opts)) (after_backup opts w) = Inr c \<and>
          added w w' = bootstrap_events opts c))"
proof -
  define w0 where "w0 = emit (Printed (running_line opts)) w"
  define w1 where "w1 = emit (Exec ''pg_basebackup'' (buildBasebackupArgs opts) []) w0"
  have ab: "after_backup opts w = w1" by (simp add: after_backup_def w1_def w0_def)
  obtain out e where c: "exec_cmd ''pg_basebackup'' (buildBasebackupArgs opts) [] w0 = ((out, e), w1)"
    by (metis exec_cmd_def w1_def prod.collapse)
  have w1: "extends w w1" "execs (added w w1) = [(''pg_basebackup'', buildBasebackupArgs opts)]"
    "\<And>p c. WriteFile p c \<notin> set (added w w1)"
    by (auto simp: w1_def w0_def added_def intro: extends_emitI)
  have g: "po_DataDir opts \<noteq> []" "po_PrimaryDSN opts \<noteq> []" "\<not> po_DryRun opts"
    "checkDataDir (po_DataDir opts) w = None"
    using assms(1) by (simp_all add: runs_basebackup_def checkDataDir_None)
  have run: "(r, w') = (case e of Some e \<Rightarrow> (Some (''pg_basebackup: '' @ e), w1)
      | None \<Rightarrow> (case appendConnInfoAppname (po_DataDir opts) (po_SlotName opts) w1 of
           (Some e, w2) \<Rightarrow> (Some e, w2)
         | (None, w2) \<Rightarrow> (None, emit (Printed (complete_line opts)) w2)))"
    unfolding assms(2)[symmetric] using g c
    by (simp add: pgs_Run_def w0_def[symmetric] split: option.splits)
  show ?thesis
  proof (cases e)
    case (Some x)
    then show ?thesis using run w1 by (simp add: only_writes_def)
  next
    case None
    obtain r2 w2 where a: "appendConnInfoAppname (po_DataDir opts) (po_SlotName opts) w1 = (r2, w2)" by fastforce
    have A: "extends w1 w2" "execs (added w1 w2) = []"
      "only_writes (auto_conf (po_DataDir opts)) settled (added w1 w2)"
      "r2 = None \<longrightarrow> po_SlotName opts \<noteq> [] \<longrightarrow>
        (\<exists>c. read_path (auto_conf (po_DataDir opts)) w1 = Inr c \<and>
           added w1 w2 = [WriteFile (auto_conf (po_DataDir opts)) (set_appname c (po_SlotName opts))])"
      using append_events[OF a] by blast+
    have a2: "extends w w2" "added w w2 = added w w1 @ added w1 w2"
      using extends_trans[OF w1(1) A(1)] added_trans[OF w1(1) A(1)] by blast+
    have W: "only_writes (auto_conf (po_DataDir opts)) settled (added w w2)"
      unfolding a2(2) using A(3) w1(3) by (simp add: only_writes_def)
    have E: "execs (added w w2) = [(''pg_basebackup'', buildBasebackupArgs opts)]"
      unfolding a2(2) execs_simps w1(2) A(2) by (rule append_Nil2)
    have e1: "added w w1 = [Printed (running_line opts), Exec ''pg_basebackup'' (buildBasebackupArgs opts) []]"
      by (simp add: w1_def w0_def added_emitI extends_emitI)
    have r: "r = r2" "w' = (if r2 = None then emit (Printed (complete_line opts)) w2 else w2)"
      using run None a by (auto split: option.splits)
    have S: "\<exists>c. read_path (auto_conf (po_DataDir opts)) (after_backup opts w) = Inr c \<and> added w w' = bootstrap_events opts c"
      if n: "r = None" "po_SlotName opts \<noteq> []"
    proof -
      obtain c where c: "read_path (auto_conf (po_DataDir opts)) w1 = Inr c"
        "added w1 w2 = [WriteFile (auto_conf (po_DataDir opts)) (set_appname c (po_SlotName opts))]"
        using A(4) n r(1) by blast
      have "added w w' = bootstrap_events opts c"
        using r n(1) added_emitI[OF a2(1)] unfolding a2(2) e1 c(2) bootstrap_events_def by simp
      then show ?thesis using c(1) unfolding ab by blast
    qed
    have "extends w w'" using r a2(1) by (auto intro: extends_emitI)
    moreover have "execs (added w w') = [(''pg_basebackup'', buildBasebackupArgs opts)]"
      using r(2) E added_emitI[OF a2(1)] by (auto split: if_splits)
    moreover have "only_writes (auto_conf (po_DataDir opts)) settled (added w w')"
      using r(2) W added_emitI[OF a2(1)] by (auto simp: only_writes_def split: if_splits)
    ultimately show ?thesis using S by blast
  qed
qed

text \<open>Apart from the write of the settings file a bootstrap is only observing.\<close>

lemma Run_effects:
  assumes "pgs_Run opts w = (r, w')"
  shows "extends w w' \<and> (\<forall>e \<in> set (added w w'). observing e \<or>
    \<not> po_DryRun opts \<and> (\<exists>c. settled c \<and> e = WriteFile (auto_conf (po_DataDir opts)) c))"
  using assms set_appname_settled
  by (auto simp: pgs_Run_def appendConnInfoAppname_def write_path_def exec_cmd_def added_emitI extends_emitI
      split: if_splits option.splits prod.splits sum.splits)

section \<open>Properties\<close>

text \<open>C30. A standby bootstrap cannot clobber data: it runs pg_basebackup, once, exactly if it is no dry
  run, both settings are given and the data directory is empty or cannot be listed (as when it is
  absent); the only file it ever writes is the settings file of that directory, only after such a
  backup, and what it writes there names an application in its first connection setting; and when
  it succeeds for a replication slot, in no dry run, then all it did, in this order, was to tell of
  the backup, run it, write that file as the backup left it with the slot's name set, and tell so.\<close>

theorem pg_setup_guarded:
  assumes "pgs_Run opts w = (r, w')"
  shows "execs (added w w') = (if runs_basebackup opts w then [(''pg_basebackup'', buildBasebackupArgs opts)] else []) \<and>
    only_writes (auto_conf (po_DataDir opts)) (\<lambda>c. runs_basebackup opts w \<and> settled c) (added w w') \<and>
    (r = None \<and> po_SlotName opts \<noteq> [] \<longrightarrow> po_DryRun opts \<or>
       (\<exists>c. read_path (auto_conf (po_DataDir opts)) (after_backup opts w) = Inr c \<and>
          added w w' = bootstrap_events opts c))"
proof (cases "runs_basebackup opts w")
  case True
  then show ?thesis using Run_events[OF True assms] by (auto simp: only_writes_def)
next
  case False
  then show ?thesis using Run_refused[OF False assms] by auto
qed

definition sample_pgopts :: pg_options where
  "sample_pgopts = \<lparr>po_PrimaryDSN = ''host=p'', po_DataDir = ''/pg'', po_SlotName = ''us'', po_DryRun = False\<rparr>"

theorem pg_setup_guarded_witness:
  "execs (added (calm_world []) (snd (pgs_Run sample_pgopts (calm_world [])))) =
     [(''pg_basebackup'', buildBasebackupArgs sample_pgopts)] \<and>
   execs (added (calm_world []) (snd (pgs_Run sample_pgopts (calm_world []\<lparr>read_dir := (\<lambda>_ _. Some [''PG_VERSION''])\<rparr>)))) = []"
proof -
  let ?w = "calm_world []\<lparr>read_dir := (\<lambda>_ _. Some [''PG_VERSION''])\<rparr>"
  obtain r1 w1 where 1: "pgs_Run sample_pgopts (calm_world []) = (r1, w1)" by fastforce
  obtain r2 w2 where 2: "pgs_Run sample_pgopts ?w = (r2, w2)" by fastforce
  have "runs_basebackup sample_pgopts (calm_world [])" "\<not> runs_basebackup sample_pgopts ?w"
    by (simp_all add: runs_basebackup_def sample_pgopts_def list_dir_def calm_world_def)
  moreover have "added (calm_world []) w2 = added ?w w2" by (simp add: added_def calm_world_def)
  ultimately show ?thesis using pg_setup_guarded[OF 1] pg_setup_guarded[OF 2] 1 2 by simp
qed

text \<open>
  Naming the application is done once: the settings file that is written always has a
  primary_conninfo line with an application name before any other such line and ends its last
  line, and a second run, for whatever name, leaves it byte for byte as it is.
\<close>

lemma appname_set_once:
  "settled (set_appname s a) \<and> set_appname (set_appname s a) b = set_appname s a"
  using set_appname_settled settled_unchanged by blast

text \<open>The line pg_basebackup writes keeps its settings and gets the name before its closing quote.\<close>

lemma inject_quoted:
  assumes "quote_char \<notin> set rest"
  shows "injectAppName (conninfo_prefix @ [quote_char] @ v @ [quote_char] @ rest) a =
     conninfo_prefix @ [quote_char] @ v @ '' '' @ appname_key @ a @ [quote_char]"
proof -
  have "last_index (conninfo_prefix @ [quote_char] @ v @ [quote_char] @ rest) quote_char =
      Some (length (conninfo_prefix @ [quote_char] @ v))"
    using last_index_append[OF assms, of "conninfo_prefix @ [quote_char] @ v"] by simp
  then show ?thesis by (simp add: injectAppName_def)
qed

text \<open>
  Two edges of it: what follows the closing quote is dropped, as the lemma above shows, and a value
  without quotes gets a closing quote that nothing opens.
\<close>

lemma inject_unquoted:
  "injectAppName (conninfo_prefix @ ''host=p'') ''us'' = conninfo_prefix @ ''host=p application_name=us'' @ [quote_char]"
  by code_simp

text \<open>A dry run prints the arguments, the connection string with its password among them.\<close>

lemma dry_run_prints_dsn:
  "added (calm_world []) (snd (pgs_Run (sample_pgopts\<lparr>po_DryRun := True, po_PrimaryDSN := ''password=s3cret'', po_SlotName := []\<rparr>)
     (calm_world []))) = [Printed ''[dry-run] pg_basebackup -D /pg -d password=s3cret -X stream -c fast -R -P'']"
  by code_simp

end
