(* ===== verification/Logging.thy ===== *)
theory Logging
  imports Geo_Prelude
begin

text \<open>
  \<open>internal/logging/logging.go\<close>: reading the log level and format. Levels are ordered by severity
  as zerolog orders them; an event is written when its level is at least the global one.
\<close>

section \<open>Levels\<close>

datatype level = TraceLevel | DebugLevel | InfoLevel | WarnLevel | ErrorLevel | FatalLevel | PanicLevel

fun level_num :: "level \<Rightarrow> int" where
  "level_num TraceLevel = -1"
| "level_num DebugLevel = 0"
| "level_num InfoLevel = 1"
| "level_num WarnLevel = 2"
| "level_num ErrorLevel = 3"
| "level_num FatalLevel = 4"
| "level_num PanicLevel = 5"

lemma level_num_inj: "level_num a = level_num b \<Longrightarrow> a = b"
  by (cases a; cases b) simp_all

instantiation level :: linorder
begin

definition less_eq_level :: "level \<Rightarrow> level \<Rightarrow> bool" where
  "less_eq_level a b \<longleftrightarrow> level_num a \<le> level_num b"

definition less_level :: "level \<Rightarrow> level \<Rightarrow> bool" where
  "less_level a b \<longleftrightarrow> level_num a < level_num b"

instance
  by standard (auto simp: less_eq_level_def less_level_def intro: level_num_inj)

end

section \<open>The code\<close>

text \<open>
  \<open>strings.ToLower\<close> as far as a comparison with ASCII words can see it: the ASCII letters, and the
  two runes outside ASCII whose lower case is an ASCII letter, the dotted capital I and the
  Kelvin sign. Every other rune stays outside ASCII.
\<close>

definition lower_char :: "char \<Rightarrow> char" where
  "lower_char c = (if is_upper c then char_of (of_char c + 32 :: nat) else c)"

fun to_lower :: "string \<Rightarrow> string" where
  "to_lower [] = []"
| "to_lower (a # s) =
     (case s of
        b # t \<Rightarrow>
          if a = CHR 0xC4 \<and> b = CHR 0xB0 then CHR ''i'' # to_lower t
          else (case t of
                  c # u \<Rightarrow> if a = CHR 0xE2 \<and> b = CHR 0x84 \<and> c = CHR 0xAA then CHR ''k'' # to_lower u
                           else lower_char a # to_lower s
                | [] \<Rightarrow> lower_char a # to_lower s)
      | [] \<Rightarrow> [lower_char a])"

definition parseLevel :: "string \<Rightarrow> level" where
  "parseLevel s =
     (let t = to_lower (trim_space s) in
      if t = ''trace'' then TraceLevel
      else if t = ''debug'' then DebugLevel
      else if t = ''warn'' \<or> t = ''warning'' then WarnLevel
      else if t = ''error'' then ErrorLevel
      else if t = ''fatal'' then FatalLevel
      else if t = ''panic'' then PanicLevel
      else InfoLevel)"

datatype log_format = FormatJSON | FormatText

definition parseFormat :: "string \<Rightarrow> log_format" where
  "parseFormat s =
     (let t = to_lower (trim_space s) in
      if t = ''text'' \<or> t = ''console'' \<or> t = ''pretty'' then FormatText else FormatJSON)"

text \<open>The global logger: the level below which nothing is written, and the encoding.\<close>

record logger =
  lg_level :: level
  lg_format :: log_format

definition Configure :: "string \<Rightarrow> string \<Rightarrow> logger" where
  "Configure level format = \<lparr>lg_level = parseLevel level, lg_format = parseFormat format\<rparr>"

definition written :: "logger \<Rightarrow> level \<Rightarrow> bool" where
  "written lg l \<longleftrightarrow> lg_level lg \<le> l"

section \<open>Lemmas\<close>

fun level_name :: "level \<Rightarrow> string" where
  "level_name TraceLevel = ''trace''"
| "level_name DebugLevel = ''debug''"
| "level_name InfoLevel = ''info''"
| "level_name WarnLevel = ''warn''"
| "level_name ErrorLevel = ''error''"
| "level_name FatalLevel = ''fatal''"
| "level_name PanicLevel = ''panic''"

text \<open>Every level can be configured by its name, and a higher configured level writes less.\<close>

lemma parseLevel_name: "parseLevel (level_name l) = l"
proof -
  have "parseLevel ''trace'' = TraceLevel" "parseLevel ''debug'' = DebugLevel" "parseLevel ''info'' = InfoLevel"
    "parseLevel ''warn'' = WarnLevel" "parseLevel ''error'' = ErrorLevel" "parseLevel ''fatal'' = FatalLevel"
    "parseLevel ''panic'' = PanicLevel" by code_simp+
  then show ?thesis by (cases l) simp_all
qed

lemma written_antimono: "lg_level a \<le> lg_level b \<Longrightarrow> written b l \<Longrightarrow> written a l"
  by (simp add: written_def)

lemma errors_always_written: "lg_level (Configure s f) \<le> WarnLevel \<Longrightarrow> written (Configure s f) ErrorLevel"
  by (simp add: written_def less_eq_level_def)

lemma parseLevel_space_case: "parseLevel ('' WARNING '' @ [CHR 0x0A]) = WarnLevel" "parseLevel [] = InfoLevel"
  "parseLevel ''verbose'' = InfoLevel"
  by code_simp+

end
