(* ===== verification/Initcmd.thy ===== *)
theory Initcmd
  imports Geo_World Logging
begin

text \<open>
  \<open>internal/initcmd/initcmd.go\<close>: the wizard. It reads one line per question from its input, and
  writes a YAML file from the answers. The state of the dialogue is the rest of the input and the
  world it prints to.
\<close>

section \<open>Questions\<close>

record Answers =
  PrimaryName :: string
  PrimaryURL :: string
  PrimarySSHHost :: string
  PrimaryPGHost :: string
  PrimaryPGPort :: string
  PrimaryPGDB :: string
  PrimaryPGUser :: string
  PrimaryReplUser :: string
  PrimarySlot :: string
  PrimaryGitMode :: string
  PrimaryReposPath :: string
  SecondaryName :: string
  SecondaryURL :: string
  SecondarySSHHost :: string
  SecondaryPGHost :: string
  SecondaryPGPort :: string
  SecondaryReposPath :: string
  ObjectStorageBackend :: string
  S3Region :: string
  S3PrimaryBucket :: string
  S3ReplicaBucket :: string
  S3Endpoint :: string
  FailoverEnabled :: bool
  ReadOnlySecondary :: bool

type_synonym dialogue = "string \<times> world"

abbreviation lf :: char where "lf \<equiv> CHR 0x0A"

text \<open>\<open>ReadString\<close>: up to and including the delimiter, or all that is left.\<close>

definition read_string :: "string \<Rightarrow> string \<times> string" where
  "read_string inp =
     (let line = takeWhile (\<lambda>c. c \<noteq> lf) inp; rest = dropWhile (\<lambda>c. c \<noteq> lf) inp
      in case rest of [] \<Rightarrow> (line, []) | c # r \<Rightarrow> (line @ [c], r))"

definition say :: "string \<Rightarrow> dialogue \<Rightarrow> dialogue" where
  "say s = (\<lambda>(inp, w). (inp, emit (Printed s) w))"

definition prompt :: "string \<Rightarrow> string \<Rightarrow> dialogue \<Rightarrow> string \<times> dialogue" where
  "prompt label def st =
     (case say (if def \<noteq> [] then label @ '' ['' @ def @ '']: '' else label @ '': '') st of
        (inp, w) \<Rightarrow>
          (case read_string inp of
             (line, rest) \<Rightarrow>
               (let line = trim_space line in (if line = [] then def else line, (rest, w)))))"

definition confirm :: "string \<Rightarrow> bool \<Rightarrow> dialogue \<Rightarrow> bool \<times> dialogue" where
  "confirm label def st =
     (case say (label @ '' [y/n, default='' @ (if def then ''y'' else ''n'') @ '']: '') st of
        (inp, w) \<Rightarrow>
          (case read_string inp of
             (line, rest) \<Rightarrow>
               (let line = trim_space (to_lower line)
                in (if line = [] then def else line = ''y'' \<or> line = ''yes'', (rest, w)))))"

text \<open>A question: its label, the default, and the field its answer goes to.\<close>

type_synonym question = "string \<times> string \<times> ((string \<Rightarrow> string) \<Rightarrow> Answers \<Rightarrow> Answers)"

fun fill :: "question list \<Rightarrow> Answers \<times> dialogue \<Rightarrow> Answers \<times> dialogue" where
  "fill [] (a, st) = (a, st)"
| "fill ((label, def, upd) # qs) (a, st) =
     (case prompt label def st of (v, st') \<Rightarrow> fill qs (upd (\<lambda>_. v) a, st'))"

definition primary_questions :: "question list" where
  "primary_questions =
     [(''Primary site name'', ''primary'', PrimaryName_update),
      (''Primary external URL'', ''https://gitlab.primary.example.com'', PrimaryURL_update),
      (''Primary SSH host:port'', ''primary.example.com:22'', PrimarySSHHost_update),
      (''Primary PostgreSQL host'', ''10.0.0.10'', PrimaryPGHost_update),
      (''Primary PostgreSQL port'', ''5432'', PrimaryPGPort_update),
      (''Primary PostgreSQL database'', ''gitlabhq_production'', PrimaryPGDB_update),
      (''Primary PostgreSQL control user'', ''gitlab'', PrimaryPGUser_update),
      (''Primary PostgreSQL replication user'', ''gitlab_repl'', PrimaryReplUser_update),
      (''Replication slot name (blank for none)'', [], PrimarySlot_update),
      (''Git data sync mode (rsync|fetch)'', ''rsync'', PrimaryGitMode_update),
      (''Primary repos path'', ''/var/opt/gitlab/git-data/repositories'', PrimaryReposPath_update)]"

definition secondary_questions :: "question list" where
  "secondary_questions =
     [(''Secondary site name'', ''secondary'', SecondaryName_update),
      (''Secondary external URL'', ''https://gitlab.secondary.example.com'', SecondaryURL_update),
      (''Secondary SSH host:port'', ''secondary.example.com:22'', SecondarySSHHost_update),
      (''Secondary PostgreSQL host'', ''10.1.0.10'', SecondaryPGHost_update),
      (''Secondary PostgreSQL port'', ''5432'', SecondaryPGPort_update),
      (''Secondary repos path'', ''/var/opt/gitlab/git-data/repositories'', SecondaryReposPath_update)]"

definition backend_question :: "question list" where
  "backend_question = [(''Object storage backend (s3|fs)'', ''s3'', ObjectStorageBackend_update)]"

definition s3_questions :: "question list" where
  "s3_questions =
     [(''S3 region'', ''eu-west-1'', S3Region_update),
      (''S3 primary bucket'', ''gitlab-primary'', S3PrimaryBucket_update),
      (''S3 replica bucket'', ''gitlab-replica'', S3ReplicaBucket_update),
      (''S3 endpoint (blank for AWS, http://minio:9000 for MinIO)'', [], S3Endpoint_update)]"

definition no_answers :: Answers where
  "no_answers =
     \<lparr>PrimaryName = [], PrimaryURL = [], PrimarySSHHost = [], PrimaryPGHost = [], PrimaryPGPort = [], PrimaryPGDB = [],
      PrimaryPGUser = [], PrimaryReplUser = [], PrimarySlot = [], PrimaryGitMode = [], PrimaryReposPath = [],
      SecondaryName = [], SecondaryURL = [], SecondarySSHHost = [], SecondaryPGHost = [], SecondaryPGPort = [],
      SecondaryReposPath = [], ObjectStorageBackend = [], S3Region = [], S3PrimaryBucket = [], S3ReplicaBucket = [],
      S3Endpoint = [], FailoverEnabled = False, ReadOnlySecondary = False\<rparr>"

definition heading :: "string \<Rightarrow> dialogue \<Rightarrow> dialogue" where
  "heading s = say ([lf] @ ''--- '' @ s @ '' ---'' @ [lf])"

definition greeting :: "dialogue \<Rightarrow> dialogue" where
  "greeting st =
     say (''referenced as ${ENV_VAR} placeholders '' @ [CHR 0xE2, CHR 0x80, CHR 0x94] @ '' export them before running geoctl.'' @ [lf])
       (say (''This will generate a config.yaml. All secrets will be'' @ [lf])
         (say ([lf] @ ''=== gitlab-geo-sync configuration wizard ==='' @ [lf, lf]) st))"

definition RunWithInput :: "dialogue \<Rightarrow> Answers \<times> dialogue" where
  "RunWithInput st =
     (case fill primary_questions (no_answers, heading ''PRIMARY'' (greeting st)) of (a1, st1) \<Rightarrow>
      case fill secondary_questions (a1, heading ''SECONDARY'' st1) of (a2, st2) \<Rightarrow>
      case fill backend_question (a2, heading ''OBJECT STORAGE'' st2) of (a3, st3) \<Rightarrow>
      case (if ObjectStorageBackend a3 = ''s3'' then fill s3_questions (a3, st3) else (a3, st3)) of (a4, st4) \<Rightarrow>
      case confirm ''Enforce read-only mode on secondary?'' True (heading ''OPTIONS'' st4) of (ro, st5) \<Rightarrow>
      case confirm ''Enable failover controller?'' False st5 of (fo, st6) \<Rightarrow>
        (a4\<lparr>ReadOnlySecondary := ro, FailoverEnabled := fo\<rparr>, st6))"

section \<open>The file\<close>

definition show_bool :: "bool \<Rightarrow> string" where
  "show_bool b = (if b then ''true'' else ''false'')"

definition primary_yaml :: "Answers \<Rightarrow> string list" where
  "primary_yaml a =
     [''primary:'',
      ''  name: '' @ PrimaryName a,
      ''  external_url: '' @ PrimaryURL a,
      ''  ssh_host: '' @ PrimarySSHHost a,
      ''  postgres:'',
      ''    host: '' @ PrimaryPGHost a,
      ''    port: '' @ PrimaryPGPort a,
      ''    db: '' @ PrimaryPGDB a,
      ''    user: '' @ PrimaryPGUser a,
      ''    password: ${PG_CTRL_PASSWORD}'',
      ''    replication_user: '' @ PrimaryReplUser a,
      ''    replication_password: ${PG_REPL_PASSWORD}'',
      ''    sslmode: require''] @
     (if PrimarySlot a \<noteq> [] then [''    slot_name: '' @ PrimarySlot a] else []) @
     [''  git:'',
      ''    mode: '' @ PrimaryGitMode a,
      ''    repos_path: '' @ PrimaryReposPath a,
      ''    hashed_storage: true'',
      ''  object_storage:'',
      ''    backend: '' @ ObjectStorageBackend a] @
     (if ObjectStorageBackend a = ''s3''
      then [''    s3:'',
            ''      region: '' @ S3Region a,
            ''      primary_bucket: '' @ S3PrimaryBucket a,
            ''      replica_bucket: '' @ S3ReplicaBucket a,
            ''      access_key: ${S3_AK}'',
            ''      secret_key: ${S3_SK}''] @
           (if S3Endpoint a \<noteq> [] then [''      endpoint: '' @ S3Endpoint a] else [])
      else [''    fs_paths:'',
            ''      - /var/opt/gitlab/uploads'',
            ''      - /var/opt/gitlab/artifacts'',
            ''      - /var/opt/gitlab/packages'',
            ''      - /var/opt/gitlab/lfs-objects''])"

definition secondary_yaml :: "Answers \<Rightarrow> string list" where
  "secondary_yaml a =
     [[],
      ''secondaries:'',
      ''  - name: '' @ SecondaryName a,
      ''    external_url: '' @ SecondaryURL a,
      ''    ssh_host: '' @ SecondarySSHHost a,
      ''    postgres:'',
      ''      host: '' @ SecondaryPGHost a,
      ''      port: '' @ SecondaryPGPort a,
      ''      db: '' @ PrimaryPGDB a,
      ''      user: '' @ PrimaryPGUser a,
      ''      password: ${PG_CTRL_PASSWORD}'',
      ''      replication_user: '' @ PrimaryReplUser a,
      ''      replication_password: ${SEC_REPL_PASSWORD}'',
      ''    git:'',
      ''      mode: '' @ PrimaryGitMode a,
      ''      repos_path: '' @ SecondaryReposPath a,
      ''      hashed_storage: true'',
      ''    object_storage:'',
      ''      backend: '' @ ObjectStorageBackend a] @
     (if ObjectStorageBackend a = ''s3''
      then [''      s3:'',
            ''        region: '' @ S3Region a,
            ''        primary_bucket: '' @ S3PrimaryBucket a,
            ''        replica_bucket: '' @ S3ReplicaBucket a,
            ''        access_key: ${S3_AK}'',
            ''        secret_key: ${S3_SK}'']
      else [])"

definition options_yaml :: "Answers \<Rightarrow> string list" where
  "options_yaml a =
     [[],
      ''sync:'',
      ''  sweep_interval: 5m'',
      ''  lag_warning_threshold: 30s'',
      ''  lag_critical_threshold: 5m'',
      ''  failover_enabled: '' @ show_bool (FailoverEnabled a),
      ''  read_only_secondary: '' @ show_bool (ReadOnlySecondary a),
      ''  consistency_sample_pct: 0.01'',
      [],
      ''metrics:'',
      ''  addr: '' @ [CHR 0x22] @ '':9101'' @ [CHR 0x22],
      [],
      ''log:'',
      ''  level: info'',
      ''  format: json'',
      [],
      ''control_db: sqlite://data/geoctl.db'']"

text \<open>The builder receives whole lines.\<close>

definition yaml_lines :: "Answers \<Rightarrow> string list" where
  "yaml_lines a = primary_yaml a @ secondary_yaml a @ options_yaml a"

definition GenerateYAML :: "Answers \<Rightarrow> string" where
  "GenerateYAML a = concat (map (\<lambda>l. l @ [lf]) (yaml_lines a))"

section \<open>Lemmas on the answers\<close>

definition one_line :: "string \<Rightarrow> bool" where
  "one_line s \<longleftrightarrow> lf \<notin> set s"

lemma strip_any_suffix: "\<exists>d. s = d @ strip_any ps s"
proof (induction ps s rule: strip_any.induct)
  case (1 ps s)
  show ?case
  proof (cases "find (\<lambda>p. p \<noteq> [] \<and> has_prefix s p) ps")
    case None
    then show ?thesis by (subst strip_any.simps) simp
  next
    case (Some p)
    then obtain d where "drop (length p) s = d @ strip_any ps (drop (length p) s)" using 1 by blast
    then have "s = (take (length p) s @ d) @ strip_any ps (drop (length p) s)"
      by (metis append.assoc append_take_drop_id)
    moreover have "strip_any ps s = strip_any ps (drop (length p) s)" using Some by (subst strip_any.simps) simp
    ultimately show ?thesis by metis
  qed
qed

lemma strip_any_done: "find (\<lambda>p. p \<noteq> [] \<and> has_prefix (strip_any ps s) p) ps = None"
proof (induction ps s rule: strip_any.induct)
  case (1 ps s)
  show ?case
  proof (cases "find (\<lambda>p. p \<noteq> [] \<and> has_prefix s p) ps")
    case None
    then show ?thesis by (subst strip_any.simps) simp
  next
    case (Some p)
    then have "strip_any ps s = strip_any ps (drop (length p) s)" by (subst strip_any.simps) simp
    then show ?thesis using 1 Some by simp
  qed
qed

text \<open>A trimmed line holds no line feed if only its end did.\<close>

lemma trim_line:
  assumes "line = t \<or> line = t @ [lf]" and "lf \<notin> set t"
  shows "one_line (trim_space line)"
proof -
  let ?y = "strip_any space_runes line" and ?z = "strip_any (map rev space_runes) (rev (strip_any space_runes line))"
  obtain d where d: "line = d @ ?y" using strip_any_suffix by blast
  obtain e where "rev ?y = e @ ?z" using strip_any_suffix by blast
  then have e: "?y = rev ?z @ rev e" by (metis rev_append rev_rev_ident)
  have z: "\<not> has_prefix ?z [lf]"
    using strip_any_done[of "map rev space_runes" "rev ?y"] by (auto simp: find_None_iff space_runes_def)
  have l: "line = d @ rev ?z @ rev e" using d e by metis
  have "lf \<notin> set ?z"
  proof
    assume m: "lf \<in> set ?z"
    then have "lf \<in> set line" using l by (metis Un_iff set_append set_rev)
    then have t: "d @ rev ?z @ rev e = t @ [lf]" using assms l by metis
    show False
    proof (cases "rev e")
      case Nil
      have ne: "rev ?z \<noteq> []" using m by auto
      have "last (d @ rev ?z) = lf" using t Nil by simp
      then have "last (rev ?z) = lf" unfolding last_appendR[OF ne] .
      then show False using z ne by (cases ?z) (auto simp: last_rev)
    next
      case (Cons x xs)
      then have "d @ rev ?z @ butlast (rev e) = t" using t by (metis append.assoc butlast_append butlast_snoc list.distinct(1))
      then have "set ?z \<subseteq> set t" by auto
      then show False using m assms(2) by blast
    qed
  qed
  then show ?thesis by (simp add: one_line_def trim_space_def)
qed

lemma prompt_one_line:
  assumes "prompt label def st = (v, st')" and "one_line def"
  shows "one_line v"
proof -
  obtain inp w where s: "say (if def \<noteq> [] then label @ '' ['' @ def @ '']: '' else label @ '': '') st = (inp, w)" by fastforce
  obtain line rest where r: "read_string inp = (line, rest)" by fastforce
  have v: "v = (if trim_space line = [] then def else trim_space line)"
    using assms(1) unfolding prompt_def s r prod.case Let_def by simp
  have "line = takeWhile (\<lambda>c. c \<noteq> lf) inp \<or> line = takeWhile (\<lambda>c. c \<noteq> lf) inp @ [lf]"
  proof (cases "dropWhile (\<lambda>c. c \<noteq> lf) inp")
    case Nil
    then show ?thesis using r unfolding read_string_def Let_def Nil by simp
  next
    case (Cons c q)
    then have "c = lf" by (simp add: dropWhile_eq_Cons_conv)
    then show ?thesis using r unfolding read_string_def Let_def Cons by simp
  qed
  moreover have "lf \<notin> set (takeWhile (\<lambda>c. c \<noteq> lf) inp)" by (auto dest: set_takeWhileD)
  ultimately show ?thesis using trim_line v assms(2) by auto
qed

definition clean :: "Answers \<Rightarrow> bool" where
  "clean a \<longleftrightarrow> list_all one_line
     [PrimaryName a, PrimaryURL a, PrimarySSHHost a, PrimaryPGHost a, PrimaryPGPort a, PrimaryPGDB a, PrimaryPGUser a,
      PrimaryReplUser a, PrimarySlot a, PrimaryGitMode a, PrimaryReposPath a, SecondaryName a, SecondaryURL a,
      SecondarySSHHost a, SecondaryPGHost a, SecondaryPGPort a, SecondaryReposPath a, ObjectStorageBackend a,
      S3Region a, S3PrimaryBucket a, S3ReplicaBucket a, S3Endpoint a]"

definition clean_question :: "question \<Rightarrow> bool" where
  "clean_question q \<longleftrightarrow> one_line (fst (snd q)) \<and> (\<forall>v a. one_line v \<longrightarrow> clean a \<longrightarrow> clean (snd (snd q) (\<lambda>_. v) a))"

lemma fill_clean:
  "list_all clean_question qs \<Longrightarrow> clean a \<Longrightarrow> fill qs (a, st) = (a', st') \<Longrightarrow> clean a'"
proof (induction qs arbitrary: a st)
  case Nil
  then show ?case by simp
next
  case (Cons q qs)
  obtain label def upd where q: "q = (label, def, upd)" by (metis prod.collapse)
  obtain v st1 where p: "prompt label def st = (v, st1)" by (cases "prompt label def st") simp
  have "one_line v" using prompt_one_line[OF p] Cons.prems(1) by (simp add: q clean_question_def)
  then have "clean (upd (\<lambda>_. v) a)" using Cons.prems(1,2) by (simp add: q clean_question_def)
  then show ?case using Cons p by (simp add: q)
qed

lemma questions_clean:
  "list_all clean_question primary_questions" "list_all clean_question secondary_questions"
  "list_all clean_question backend_question" "list_all clean_question s3_questions"
  by (simp_all add: primary_questions_def secondary_questions_def backend_question_def s3_questions_def
      clean_question_def clean_def one_line_def)

lemma RunWithInput_clean:
  assumes "RunWithInput st = (a, st')"
  shows "clean a"
proof -
  obtain a1 st1 where 1: "fill primary_questions (no_answers, heading ''PRIMARY'' (greeting st)) = (a1, st1)"
    by (metis prod.collapse)
  obtain a2 st2 where 2: "fill secondary_questions (a1, heading ''SECONDARY'' st1) = (a2, st2)" by (metis prod.collapse)
  obtain a3 st3 where 3: "fill backend_question (a2, heading ''OBJECT STORAGE'' st2) = (a3, st3)" by (metis prod.collapse)
  obtain a4 st4 where 4: "(if ObjectStorageBackend a3 = ''s3'' then fill s3_questions (a3, st3) else (a3, st3)) = (a4, st4)"
    by (metis prod.collapse)
  obtain ro st5 where 5: "confirm ''Enforce read-only mode on secondary?'' True (heading ''OPTIONS'' st4) = (ro, st5)"
    by (metis prod.collapse)
  obtain fo st6 where 6: "confirm ''Enable failover controller?'' False st5 = (fo, st6)" by (metis prod.collapse)
  have a: "a = a4\<lparr>ReadOnlySecondary := ro, FailoverEnabled := fo\<rparr>"
    using assms unfolding RunWithInput_def 1 prod.case 2 3 4 5 6 by simp
  have "clean no_answers" by (simp add: clean_def no_answers_def one_line_def)
  then have "clean a1" using fill_clean[OF questions_clean(1) _ 1] by blast
  then have "clean a2" using fill_clean[OF questions_clean(2) _ 2] by blast
  then have c3: "clean a3" using fill_clean[OF questions_clean(3) _ 3] by blast
  have "clean a4"
  proof (cases "ObjectStorageBackend a3 = ''s3''")
    case True
    then show ?thesis using fill_clean[OF questions_clean(4) c3] 4 by simp
  next
    case False
    then show ?thesis using c3 4 by simp
  qed
  then show ?thesis by (simp add: a clean_def)
qed

section \<open>Lemmas on the file\<close>

lemma split_concat_lines: "list_all one_line ls \<Longrightarrow> split_on lf (concat (map (\<lambda>l. l @ [lf]) ls)) = ls @ [[]]"
proof (induction ls)
  case Nil
  then show ?case by simp
next
  case (Cons l ls)
  then show ?case
    using split_on_append_sep[of lf l "concat (map (\<lambda>l. l @ [lf]) ls)"] split_on_id[of lf l]
    by (simp add: one_line_def)
qed

lemma one_line_append [simp]: "one_line (s @ t) \<longleftrightarrow> one_line s \<and> one_line t"
  by (auto simp: one_line_def)

lemma one_line_Cons: "one_line (c # s) \<longleftrightarrow> c \<noteq> lf \<and> one_line s" "one_line []"
  by (auto simp: one_line_def)

lemma show_bool_line: "one_line (show_bool b)"
  by (simp add: one_line_def show_bool_def)

lemma yaml_one_line:
  assumes "clean a"
  shows "list_all one_line (yaml_lines a)"
proof -
  have "list_all one_line (primary_yaml a)"
    using assms by (simp add: primary_yaml_def clean_def one_line_Cons)
  moreover have "list_all one_line (secondary_yaml a)"
    using assms by (simp add: secondary_yaml_def clean_def one_line_Cons)
  moreover have "list_all one_line (options_yaml a)"
    by (simp add: options_yaml_def one_line_Cons show_bool_line)
  ultimately show ?thesis by (simp add: yaml_lines_def)
qed

text \<open>A line that sets a secret: its key, after the indentation, is one of four.\<close>

definition sets_secret :: "string \<Rightarrow> bool" where
  "sets_secret l \<longleftrightarrow>
     (let k = dropWhile (\<lambda>c. c = CHR '' '') l
      in has_prefix k ''password:'' \<or> has_prefix k ''replication_password:'' \<or> has_prefix k ''access_key:'' \<or>
         has_prefix k ''secret_key:'')"

text \<open>The value of such a line: what follows the first colon and space.\<close>

definition line_value :: "string \<Rightarrow> string" where
  "line_value l = drop 2 (dropWhile (\<lambda>c. c \<noteq> CHR '':'') l)"

definition env_refs :: "string list" where
  "env_refs = [''${PG_CTRL_PASSWORD}'', ''${PG_REPL_PASSWORD}'', ''${SEC_REPL_PASSWORD}'', ''${S3_AK}'', ''${S3_SK}'']"

definition secret_by_reference :: "string \<Rightarrow> bool" where
  "secret_by_reference l = (if sets_secret l then line_value l \<in> set env_refs else True)"

lemma secrets_by_reference: "list_all secret_by_reference (yaml_lines a)"
proof -
  have "list_all secret_by_reference (primary_yaml a)"
    by (simp add: primary_yaml_def secret_by_reference_def sets_secret_def line_value_def env_refs_def Let_def)
  moreover have "list_all secret_by_reference (secondary_yaml a)"
    by (simp add: secondary_yaml_def secret_by_reference_def sets_secret_def line_value_def env_refs_def Let_def)
  moreover have "list_all secret_by_reference (options_yaml a)"
    by (simp add: options_yaml_def secret_by_reference_def sets_secret_def line_value_def env_refs_def Let_def)
  ultimately show ?thesis by (simp add: yaml_lines_def)
qed

text \<open>
  The endpoint that was asked for is written for the primary only; the client of the replica bucket
  is built from the secondary's block, so for a store other than AWS it looks in the wrong place.
\<close>

definition sets_endpoint :: "string \<Rightarrow> bool" where
  "sets_endpoint l \<longleftrightarrow> has_prefix (dropWhile (\<lambda>c. c = CHR '' '') l) ''endpoint:''"

lemma endpoint_for_primary_only:
  assumes "ObjectStorageBackend a = ''s3''" and "S3Endpoint a \<noteq> []"
  shows "list_ex sets_endpoint (primary_yaml a) \<and> \<not> list_ex sets_endpoint (secondary_yaml a)"
proof
  show "list_ex sets_endpoint (primary_yaml a)"
    using assms by (simp add: primary_yaml_def sets_endpoint_def)
  show "\<not> list_ex sets_endpoint (secondary_yaml a)"
    using assms by (simp add: secondary_yaml_def sets_endpoint_def)
qed

section \<open>The conversation\<close>

text \<open>It only prints.\<close>

definition talks :: "world \<Rightarrow> world \<Rightarrow> bool" where
  "talks w w' \<longleftrightarrow> extends w w' \<and> (\<forall>e \<in> set (added w w'). \<exists>s. e = Printed s)"

lemma talks_refl [simp]: "talks w w"
  by (simp add: talks_def)

lemma talks_say: "talks w (snd st) \<Longrightarrow> talks w (snd (say s st))"
  by (auto simp: talks_def say_def added_emitI extends_emitI split: prod.splits)

lemma say_pair: "say s st = (inp, w') \<Longrightarrow> talks w (snd st) \<Longrightarrow> talks w w'"
  using talks_say[of w st s] by simp

lemma talks_prompt: "talks w (snd st) \<Longrightarrow> talks w (snd (snd (prompt l d st)))"
  unfolding prompt_def Let_def by (auto split: prod.splits dest: say_pair)

lemma talks_confirm: "talks w (snd st) \<Longrightarrow> talks w (snd (snd (confirm l d st)))"
  unfolding confirm_def Let_def by (auto split: prod.splits dest: say_pair)

lemma talks_fill: "talks w (snd st) \<Longrightarrow> talks w (snd (snd (fill qs (a, st))))"
proof (induction qs "(a, st)" arbitrary: a st rule: fill.induct)
  case (2 label def upd qs a st)
  then show ?case using talks_prompt[of w st label def] by (auto split: prod.splits)
qed simp

lemma RunWithInput_talks:
  assumes "RunWithInput (inp, w) = (a, (rest, w'))"
  shows "talks w w'"
proof -
  obtain a1 st1 where 1: "fill primary_questions (no_answers, heading ''PRIMARY'' (greeting (inp, w))) = (a1, st1)"
    by (metis prod.collapse)
  obtain a2 st2 where 2: "fill secondary_questions (a1, heading ''SECONDARY'' st1) = (a2, st2)" by (metis prod.collapse)
  obtain a3 st3 where 3: "fill backend_question (a2, heading ''OBJECT STORAGE'' st2) = (a3, st3)" by (metis prod.collapse)
  obtain a4 st4 where 4: "(if ObjectStorageBackend a3 = ''s3'' then fill s3_questions (a3, st3) else (a3, st3)) = (a4, st4)"
    by (metis prod.collapse)
  obtain ro st5 where 5: "confirm ''Enforce read-only mode on secondary?'' True (heading ''OPTIONS'' st4) = (ro, st5)"
    by (metis prod.collapse)
  obtain fo st6 where 6: "confirm ''Enable failover controller?'' False st5 = (fo, st6)" by (metis prod.collapse)
  have w': "w' = snd st6" using assms unfolding RunWithInput_def 1 prod.case 2 3 4 5 6 by auto
  have h: "talks w (snd (heading s st))" if "talks w (snd st)" for s st
    unfolding heading_def using that by (rule talks_say)
  have "talks w (snd (greeting (inp, w)))" unfolding greeting_def by (intro talks_say) simp
  from talks_fill[OF h[OF this], of primary_questions no_answers "''PRIMARY''"]
  have "talks w (snd st1)" using 1 by simp
  from talks_fill[OF h[OF this], of secondary_questions a1 "''SECONDARY''"]
  have "talks w (snd st2)" using 2 by simp
  from talks_fill[OF h[OF this], of backend_question a2 "''OBJECT STORAGE''"]
  have 3: "talks w (snd st3)" using 3 by simp
  from talks_fill[OF this, of s3_questions a3] have "talks w (snd st4)" using 3 4 by (auto split: if_splits)
  from talks_confirm[OF h[OF this], of "''Enforce read-only mode on secondary?''" True "''OPTIONS''"]
  have "talks w (snd st5)" using 5 by simp
  from talks_confirm[OF this, of "''Enable failover controller?''" False] show ?thesis using 6 w' by simp
qed

section \<open>Properties\<close>

text \<open>C40. No answer can break out of its line, and no secret is written: whatever is typed at the wizard,
  the file it generates consists of exactly the lines of the template, one per line of text, and
  every line that sets a password or a key holds a reference to an environment variable.\<close>

theorem wizard_file_lines:
  assumes "RunWithInput st = (a, st')"
  shows "split_on lf (GenerateYAML a) = yaml_lines a @ [[]] \<and> list_all secret_by_reference (yaml_lines a)"
  using split_concat_lines[OF yaml_one_line[OF RunWithInput_clean[OF assms]]] secrets_by_reference
  by (simp add: GenerateYAML_def)

theorem wizard_file_lines_witness:
  "split_on lf (GenerateYAML (fst (RunWithInput (''eu'' @ [lf] @ ''https://eu'', calm_world [])))) =
     yaml_lines (fst (RunWithInput (''eu'' @ [lf] @ ''https://eu'', calm_world []))) @ [[]]"
  using wizard_file_lines by (metis prod.collapse)

end
