(* ===== verification/Sla.thy ===== *)
theory Sla
  imports Durations
begin

text \<open>
  \<open>internal/sla/sla.go\<close>: the report over the gathered metric families. Gathering is the work of the
  Prometheus library, so the families are an argument; gauge and counter values are the
  rationals their floats stand for.
\<close>

section \<open>The code\<close>

text \<open>A metric may carry a gauge or a counter, or neither.\<close>

record metric_point =
  mp_gauge :: "rat option"
  mp_counter :: "rat option"
  mp_labels :: "(string \<times> string) list"

record metric_family =
  mf_name :: string
  mf_metrics :: "metric_point list"

record sla_report =
  PGLagCurrent :: int
  PGLagPeak :: int
  LastSweepAge :: int
  DriftCount :: int
  ComponentsHealthy :: int
  ComponentsTotal :: int

text \<open>\<open>Duration.Seconds\<close> as a float, and back.\<close>

definition duration_seconds :: "int \<Rightarrow> rat" where
  "duration_seconds d =
     f64_round (of_int (sgn d * (\<bar>d\<bar> div 10 ^ 9)) + f64_round (of_int (sgn d * (\<bar>d\<bar> mod 10 ^ 9)) / 10 ^ 9))"

definition seconds_duration :: "rat \<Rightarrow> int" where
  "seconds_duration v = f64_trunc (f64_mul v (10 ^ 9))"

definition lag_point :: "metric_point \<Rightarrow> sla_report \<Rightarrow> sla_report" where
  "lag_point m r =
     (case mp_gauge m of
        None \<Rightarrow> r
      | Some v \<Rightarrow>
          (let cur = (if v > duration_seconds (PGLagCurrent r) then seconds_duration v else PGLagCurrent r)
           in r\<lparr>PGLagCurrent := cur, PGLagPeak := cur,
                ComponentsHealthy := ComponentsHealthy r + (if v \<ge> 0 then 1 else 0)\<rparr>))"

definition component_labels :: "metric_point \<Rightarrow> string set" where
  "component_labels m = set (map snd (filter (\<lambda>l. fst l = ''component'') (mp_labels m)))"

definition drift_point :: "metric_point \<Rightarrow> sla_report \<times> string set \<Rightarrow> sla_report \<times> string set" where
  "drift_point m = (\<lambda>(r, cs).
     case mp_counter m of
       None \<Rightarrow> (r, cs)
     | Some v \<Rightarrow> (r\<lparr>DriftCount := DriftCount r + f64_trunc v\<rparr>, cs \<union> component_labels m))"

text \<open>\<open>now\<close> is the clock in nanoseconds since the epoch.\<close>

definition sync_point :: "int \<Rightarrow> metric_point \<Rightarrow> sla_report \<times> string set \<Rightarrow> sla_report \<times> string set" where
  "sync_point now m = (\<lambda>(r, cs).
     case mp_gauge m of
       None \<Rightarrow> (r, cs)
     | Some ts \<Rightarrow>
         if ts > 0
         then (let age = now - f64_trunc ts * 10 ^ 9
               in (if age > LastSweepAge r then r\<lparr>LastSweepAge := age\<rparr> else r, cs \<union> {''last_sync''}))
         else (r, cs))"

definition lag_name :: string where "lag_name = ''geo_sync_pg_replay_lag_seconds''"
definition drift_name :: string where "drift_name = ''geo_sync_drift_total''"
definition sync_name :: string where "sync_name = ''geo_sync_last_sync_timestamp_seconds''"

definition family :: "int \<Rightarrow> metric_family \<Rightarrow> sla_report \<times> string set \<Rightarrow> sla_report \<times> string set" where
  "family now mf = (\<lambda>(r, cs).
     if mf_name mf = lag_name then (fold lag_point (mf_metrics mf) r, cs)
     else if mf_name mf = drift_name then fold drift_point (mf_metrics mf) (r, cs)
     else if mf_name mf = sync_name then fold (sync_point now) (mf_metrics mf) (r, cs)
     else (r, cs))"

definition sla_report_of :: "int \<Rightarrow> metric_family list \<Rightarrow> sla_report" where
  "sla_report_of now mfs =
     (case fold (family now) mfs
             (\<lparr>PGLagCurrent = 0, PGLagPeak = 0, LastSweepAge = 0, DriftCount = 0, ComponentsHealthy = 0,
               ComponentsTotal = 0\<rparr>, {}) of
        (r, cs) \<Rightarrow> r\<lparr>ComponentsTotal := (if card cs = 0 then 1 else int (card cs))\<rparr>)"

definition nl :: string where "nl = [CHR 0x0A]"

definition sla_lines :: "sla_report \<Rightarrow> string list" where
  "sla_lines r =
     [''=== gitlab-geo-sync SLA Report ==='' @ nl @ nl,
      ''PostgreSQL Replay Lag:'' @ nl,
      ''  Current: '' @ duration_str (PGLagCurrent r) @ nl,
      ''  Peak:    '' @ duration_str (PGLagPeak r) @ nl,
      nl @ ''Last Sync Age (oldest component): '' @ duration_str (LastSweepAge r) @ nl,
      nl @ ''Drift Events (cumulative): '' @ itoa (DriftCount r) @ nl,
      ''Components Healthy: '' @ itoa (ComponentsHealthy r) @ ''/'' @ itoa (ComponentsTotal r) @ nl,
      nl @ ''RPO Estimate: '' @ duration_str (PGLagCurrent r) @ '' (PG replay lag)'' @ nl,
      ''RTO Estimate: ~2-5 min (pg_ctl promote + gitlab-ctl restart)'' @ nl,
      nl @ ''Note: RPO for in-flight Sidekiq jobs is ~last dequeue time.'' @ nl]"

definition sla_Generate :: "string + metric_family list \<Rightarrow> int \<Rightarrow> string option \<times> string list" where
  "sla_Generate gathered now =
     (case gathered of
        Inl e \<Rightarrow> (Some (''gather metrics: '' @ e), [])
      | Inr mfs \<Rightarrow> (None, sla_lines (sla_report_of now mfs)))"

section \<open>Lemmas\<close>

text \<open>What one family does to the fields of a report.\<close>

definition gauges :: "metric_family \<Rightarrow> rat list" where
  "gauges mf = (if mf_name mf = lag_name then List.map_filter mp_gauge (mf_metrics mf) else [])"

definition counters :: "metric_family \<Rightarrow> rat list" where
  "counters mf = (if mf_name mf = drift_name then List.map_filter mp_counter (mf_metrics mf) else [])"

lemma names_differ: "lag_name \<noteq> drift_name" "lag_name \<noteq> sync_name" "drift_name \<noteq> sync_name"
  by (simp_all add: lag_name_def drift_name_def sync_name_def)

lemma fold_lag:
  "PGLagPeak r = PGLagCurrent r \<Longrightarrow> PGLagPeak (fold lag_point ms r) = PGLagCurrent (fold lag_point ms r)"
  "ComponentsHealthy (fold lag_point ms r) = ComponentsHealthy r + int (length (filter (\<lambda>v. v \<ge> 0) (List.map_filter mp_gauge ms)))"
  "DriftCount (fold lag_point ms r) = DriftCount r"
proof (induction ms arbitrary: r)
  case Nil
  { case 1 then show ?case by simp next case 2 then show ?case by (simp add: map_filter_def)
    next case 3 then show ?case by simp }
next
  case (Cons m ms)
  { case 1 then show ?case using Cons.IH(1)[of "lag_point m r"]
      by (cases "mp_gauge m") (simp_all add: lag_point_def Let_def)
    next case 2 then show ?case using Cons.IH(2)[of "lag_point m r"]
      by (cases "mp_gauge m") (simp_all add: lag_point_def Let_def map_filter_def)
    next case 3 then show ?case using Cons.IH(3)[of "lag_point m r"]
      by (cases "mp_gauge m") (simp_all add: lag_point_def Let_def) }
qed

lemma fold_drift:
  "fold drift_point ms (r, cs) = (r', cs') \<Longrightarrow>
   PGLagPeak r' = PGLagPeak r \<and> PGLagCurrent r' = PGLagCurrent r \<and> ComponentsHealthy r' = ComponentsHealthy r \<and>
   DriftCount r' = DriftCount r + sum_list (map f64_trunc (List.map_filter mp_counter ms))"
proof (induction ms arbitrary: r cs)
  case Nil
  then show ?case by (simp add: map_filter_def)
next
  case (Cons m ms)
  show ?case
  proof (cases "mp_counter m")
    case None
    then show ?thesis using Cons.prems Cons.IH[of r cs] by (simp add: drift_point_def map_filter_def)
  next
    case (Some v)
    then show ?thesis
      using Cons.prems Cons.IH[of "r\<lparr>DriftCount := DriftCount r + f64_trunc v\<rparr>" "cs \<union> component_labels m"]
      by (simp add: drift_point_def map_filter_def)
  qed
qed

lemma fold_sync:
  "fold (sync_point now) ms (r, cs) = (r', cs') \<Longrightarrow>
   PGLagPeak r' = PGLagPeak r \<and> PGLagCurrent r' = PGLagCurrent r \<and> ComponentsHealthy r' = ComponentsHealthy r \<and>
   DriftCount r' = DriftCount r"
proof (induction ms arbitrary: r cs)
  case Nil
  then show ?case by simp
next
  case (Cons m ms)
  obtain r1 cs1 where p: "sync_point now m (r, cs) = (r1, cs1)" by fastforce
  have "PGLagPeak r1 = PGLagPeak r \<and> PGLagCurrent r1 = PGLagCurrent r \<and> ComponentsHealthy r1 = ComponentsHealthy r \<and>
      DriftCount r1 = DriftCount r"
    using p by (auto simp: sync_point_def Let_def split: option.splits if_splits)
  then show ?case using Cons.IH[of r1 cs1] Cons.prems p by simp
qed

lemma family_step:
  assumes "family now mf (r, cs) = (r', cs')"
  shows "(PGLagPeak r = PGLagCurrent r \<longrightarrow> PGLagPeak r' = PGLagCurrent r') \<and>
    ComponentsHealthy r' = ComponentsHealthy r + int (length (filter (\<lambda>v. v \<ge> 0) (gauges mf))) \<and>
    DriftCount r' = DriftCount r + sum_list (map f64_trunc (counters mf))"
proof -
  consider (lag) "mf_name mf = lag_name" | (drift) "mf_name mf = drift_name" | (sync) "mf_name mf = sync_name"
    | (other) "mf_name mf \<notin> {lag_name, drift_name, sync_name}" by auto
  then show ?thesis
  proof cases
    case lag
    then show ?thesis using assms names_differ fold_lag[where r = r] by (auto simp: family_def gauges_def counters_def)
  next
    case drift
    then show ?thesis using assms names_differ fold_drift[of "mf_metrics mf" r cs r' cs']
      by (auto simp: family_def gauges_def counters_def)
  next
    case sync
    then show ?thesis using assms names_differ fold_sync[of now "mf_metrics mf" r cs r' cs']
      by (auto simp: family_def gauges_def counters_def)
  next
    case other
    then show ?thesis using assms by (auto simp: family_def gauges_def counters_def)
  qed
qed

lemma fold_family:
  "fold (family now) mfs (r, cs) = (r', cs') \<Longrightarrow> PGLagPeak r = PGLagCurrent r \<Longrightarrow>
   PGLagPeak r' = PGLagCurrent r' \<and>
   ComponentsHealthy r' = ComponentsHealthy r + int (length (filter (\<lambda>v. v \<ge> 0) (concat (map gauges mfs)))) \<and>
   DriftCount r' = DriftCount r + sum_list (map f64_trunc (concat (map counters mfs)))"
proof (induction mfs arbitrary: r cs)
  case Nil
  then show ?case by simp
next
  case (Cons mf mfs)
  obtain r1 cs1 where p: "family now mf (r, cs) = (r1, cs1)" by fastforce
  show ?case using family_step[OF p] Cons.IH[of r1 cs1] Cons.prems p by simp
qed

section \<open>Properties\<close>

text \<open>What the report counts: the components it calls healthy are the secondaries whose lag gauge is
  not negative, the drift events are the sum of the drift counters, the total is at least one,
  and the peak lag it prints is always the current lag, whatever was measured before.\<close>

lemma sla_counts:
  "ComponentsHealthy (sla_report_of now mfs) = int (length (filter (\<lambda>v. v \<ge> 0) (concat (map gauges mfs)))) \<and>
   DriftCount (sla_report_of now mfs) = sum_list (map f64_trunc (concat (map counters mfs))) \<and>
   1 \<le> ComponentsTotal (sla_report_of now mfs) \<and>
   PGLagPeak (sla_report_of now mfs) = PGLagCurrent (sla_report_of now mfs)"
proof -
  let ?r0 = "\<lparr>PGLagCurrent = 0, PGLagPeak = 0, LastSweepAge = 0, DriftCount = 0, ComponentsHealthy = 0, ComponentsTotal = 0\<rparr>"
  obtain r cs where f: "fold (family now) mfs (?r0, {}) = (r, cs)" by fastforce
  show ?thesis using fold_family[OF f] f by (simp add: sla_report_of_def)
qed

text \<open>The two counts are of different things, so more components can be healthy than there are.\<close>

lemma healthy_exceeds_total:
  "let r = sla_report_of 0 [\<lparr>mf_name = lag_name, mf_metrics =
       [\<lparr>mp_gauge = Some 0, mp_counter = None, mp_labels = [(''secondary'', ''a'')]\<rparr>,
        \<lparr>mp_gauge = Some 0, mp_counter = None, mp_labels = [(''secondary'', ''b'')]\<rparr>]\<rparr>]
   in ComponentsHealthy r = 2 \<and> ComponentsTotal r = 1"
  by (simp add: sla_report_of_def family_def lag_point_def Let_def)

text \<open>
  The sla command runs in a process of its own, in which no component has reported: the families
  it gathers hold no point, and the report is the same whatever the state of replication.
\<close>

lemma sla_without_points:
  assumes "\<forall>mf \<in> set mfs. mf_metrics mf = []"
  shows "sla_report_of now mfs =
    \<lparr>PGLagCurrent = 0, PGLagPeak = 0, LastSweepAge = 0, DriftCount = 0, ComponentsHealthy = 0, ComponentsTotal = 1\<rparr>"
proof -
  have "fold (family now) mfs st = st" for st
    using assms by (induction mfs arbitrary: st) (auto simp: family_def split: prod.splits)
  then show ?thesis by (simp add: sla_report_of_def)
qed

end
