(* ===== verification/Geoctl.thy ===== *)
theory Geoctl
  imports Detector Rsync GitFetch PgRepl Consistency ObjectStorage Registry ApiValidator Webhook
    Doctor Pgsetup Initcmd Sla Logging
begin

text \<open>
  \<open>cmd/geoctl/main.go\<close>: the commands, and how they put the other packages together: which sync
  components a configuration builds and with what, and the receiver wired to the fetch component.
  The signal handling is library code: a signal or a timeout shows as the context's cancellation.
  The running process of the serve command is in the theory Serve, the other commands, given the
  flags they read, are in Commands, and the command line itself is in Cli.
\<close>

section \<open>Flags, configuration and exit\<close>

record global_flags =
  gl_configPath :: string
  gl_logLevel :: string
  gl_logFormat :: string
  gl_dryRun :: bool

definition default_flags :: global_flags where
  "default_flags = \<lparr>gl_configPath = ''config.yaml'', gl_logLevel = [], gl_logFormat = [], gl_dryRun = False\<rparr>"

definition logger_of :: "global_flags \<Rightarrow> Config \<Rightarrow> logger" where
  "logger_of g cfg =
     (let lvl = (if gl_logLevel g = [] then Log_Level cfg else gl_logLevel g);
          fmt = (if gl_logFormat g = [] then Log_Format cfg else gl_logFormat g)
      in Configure lvl fmt)"

datatype exit =
    ExitOk
  | ExitErr string
  | ExitLoad load_error
  | ExitFailover fo_result
  | ExitPanic string

definition loadConfig ::
    "(string \<Rightarrow> string + string) \<Rightarrow> (string \<Rightarrow> string + Config) \<Rightarrow> environment \<Rightarrow> global_flags \<Rightarrow>
     exit + Config \<times> logger" where
  "loadConfig read_file yaml_decode env g =
     (case Load read_file yaml_decode env (gl_configPath g) of
        Done (Inr cfg) \<Rightarrow> Inr (cfg, logger_of g cfg)
      | Done (Inl e) \<Rightarrow> Inl (ExitLoad e)
      | Failed e \<Rightarrow> Inl (ExitErr e)
      | Panicked p \<Rightarrow> Inl (ExitPanic p))"

text \<open>The status the process ends with; a panic ends it with 2.\<close>

fun exit_status :: "exit \<Rightarrow> int" where
  "exit_status ExitOk = 0"
| "exit_status (ExitFailover r) = (case r of Completed \<Rightarrow> 0 | Crashed p \<Rightarrow> 2 | _ \<Rightarrow> 1)"
| "exit_status (ExitPanic p) = 2"
| "exit_status (ExitErr e) = 1"
| "exit_status (ExitLoad e) = 1"

definition print_all :: "string list \<Rightarrow> world \<Rightarrow> world" where
  "print_all ls w = fold (\<lambda>l. emit (Printed l)) ls w"

definition findSecondary :: "Config \<Rightarrow> string \<Rightarrow> string + SiteConfig" where
  "findSecondary cfg name =
     (case find (\<lambda>s. site_Name s = name) (Secondaries cfg) of
        Some s \<Rightarrow> Inr s
      | None \<Rightarrow> Inl (''secondary '' @ go_quote name @ '' not found in config''))"

section \<open>Building the components\<close>

datatype sync_component =
    PostgresC pg_reconciler
  | GitRsyncC git_rsync
  | GitFetchC git_fetch
  | ObjectStorageC object_storage
  | FsStorageC fs_storage
  | RegistryC registry
  | ConsistencyC consistency
  | ApiValidatorC api_validator

definition av_name :: string where "av_name = ''api_validator''"

fun component_name :: "sync_component \<Rightarrow> string" where
  "component_name (PostgresC r) = pg_name"
| "component_name (GitRsyncC r) = gr_name"
| "component_name (GitFetchC r) = gf_name"
| "component_name (ObjectStorageC r) = os_name"
| "component_name (FsStorageC r) = fs_name"
| "component_name (RegistryC r) = rg_name"
| "component_name (ConsistencyC r) = cs_name"
| "component_name (ApiValidatorC r) = av_name"

fun component_run :: "reg_json \<Rightarrow> sync_component \<Rightarrow> reconcile" where
  "component_run js (PostgresC r) = graph_of (pg_Reconcile r)"
| "component_run js (GitRsyncC r) = graph_of (gr_Reconcile r)"
| "component_run js (GitFetchC r) = gf_Reconcile r"
| "component_run js (ObjectStorageC r) = graph_of (os_Reconcile r)"
| "component_run js (FsStorageC r) = graph_of (fs_Reconcile r)"
| "component_run js (RegistryC r) = rg_Reconcile js r"
| "component_run js (ConsistencyC r) = graph_of (cs_Reconcile r)"
| "component_run js (ApiValidatorC r) = graph_of (av_Reconcile r)"

definition component_obj :: "reg_json \<Rightarrow> sync_component \<Rightarrow> reconciler_obj" where
  "component_obj js c = \<lparr>rec_name = component_name c, rec_run = component_run js c\<rparr>"

text \<open>
  The parts of \<open>buildReconcilers\<close> for the first secondary \<open>s\<close>. \<open>aws\<close> says whether a client can be
  built for an S3 configuration. A nil pool of the consistency sweep would panic at its first
  query; it is told here as a panic of the construction, and never happens.
\<close>

definition git_part :: "Config \<Rightarrow> SiteConfig \<Rightarrow> bool \<Rightarrow> pg_reconciler \<Rightarrow> sync_component list" where
  "git_part cfg s dryRun pg =
     (let p = Primary cfg; mode = git_Mode (site_Git p)
      in if mode = ''rsync'' then [GitRsyncC (gr_New p s dryRun (SSHExecConfig cfg))]
         else if mode = ''fetch''
         then [GitFetchC (gf_New (site_SSHHost p) (git_ReposPath (site_Git s)) (site_Name s) (pg_primary pg) dryRun
                 (SSHExecConfig cfg))]
         else [])"

definition storage_part ::
    "(S3Config \<Rightarrow> string option) \<Rightarrow> Config \<Rightarrow> SiteConfig \<Rightarrow> bool \<Rightarrow> string + sync_component list" where
  "storage_part aws cfg s dryRun =
     (let p = Primary cfg; backend = os_Backend (site_ObjectStore p)
      in if backend = ''s3''
         then (case os_New aws (os_S3 (site_ObjectStore p)) (os_S3 (site_ObjectStore s)) of
                 Inl e \<Rightarrow> Inl (''object storage reconciler: '' @ e)
               | Inr r \<Rightarrow> Inr [ObjectStorageC r])
         else if backend = ''fs'' then Inr [FsStorageC (fs_New p s dryRun (SSHExecConfig cfg))]
         else Inr [])"

definition registry_part :: "Config \<Rightarrow> SiteConfig \<Rightarrow> bool \<Rightarrow> sync_component list" where
  "registry_part cfg s dryRun =
     (if site_Registry (Primary cfg) \<noteq> None then [RegistryC (rg_New (Primary cfg) s dryRun)] else [])"

definition consistency_part :: "Config \<Rightarrow> SiteConfig \<Rightarrow> pg_reconciler \<Rightarrow> sync_component list outcome" where
  "consistency_part cfg s pg =
     (case SecondaryPool pg (site_Name s) of
        Some pool \<Rightarrow>
          Done [ConsistencyC (cs_New (pg_primary pg) pool (site_Name s) (git_ReposPath (site_Git s))
                  (sync_ConsistencySamplePct (Sync cfg)))]
      | None \<Rightarrow> Panicked ''nil pool'')"

definition api_part :: "Config \<Rightarrow> sync_component list outcome" where
  "api_part cfg =
     (case APIValidator cfg of
        Some a \<Rightarrow>
          if api_Enabled a
          then (case av_New cfg of Some r \<Rightarrow> Done [ApiValidatorC r] | None \<Rightarrow> Panicked ''index out of range'')
          else Done []
      | None \<Rightarrow> Done [])"

text \<open>
  The components and the monitor whose pools the clean-up closes. When the object storage cannot be
  built, the pools are closed at once.
\<close>

definition buildReconcilers ::
    "(S3Config \<Rightarrow> string option) \<Rightarrow> Config \<Rightarrow> bool \<Rightarrow> world \<Rightarrow>
     (sync_component list \<times> pg_reconciler) outcome \<times> world" where
  "buildReconcilers aws cfg dryRun w =
     (case NewWithFactory cfg w of
        (Inl e, w1) \<Rightarrow> (Failed (''postgres reconciler: '' @ e), w1)
      | (Inr pg, w1) \<Rightarrow>
          (case Secondaries cfg of
             [] \<Rightarrow> (Done ([PostgresC pg], pg), w1)
           | s # _ \<Rightarrow>
               (case storage_part aws cfg s dryRun of
                  Inl e \<Rightarrow> (Failed e, pg_Close pg w1)
                | Inr storage \<Rightarrow>
                    (case (consistency_part cfg s pg, api_part cfg) of
                       (Done cons, Done api) \<Rightarrow>
                         (Done ([PostgresC pg] @ git_part cfg s dryRun pg @ storage @
                                registry_part cfg s dryRun @ cons @ api, pg), w1)
                     | (Panicked p, _) \<Rightarrow> (Panicked p, w1)
                     | (_, Panicked p) \<Rightarrow> (Panicked p, w1)
                     | (Failed e, _) \<Rightarrow> (Failed e, w1)
                     | (_, Failed e) \<Rightarrow> (Failed e, w1)))))"

section \<open>The webhook receiver\<close>

fun fetcher_of :: "sync_component list \<Rightarrow> git_fetch option" where
  "fetcher_of [] = None"
| "fetcher_of (c # cs) = (case c of GitFetchC gf \<Rightarrow> Some gf | _ \<Rightarrow> fetcher_of cs)"

text \<open>The text of a fetch error is only logged; its detail is left out.\<close>

fun show_fetch_error :: "fetch_error \<Rightarrow> string" where
  "show_fetch_error (InvalidPath pe) = ''invalid project path''"
| "show_fetch_error (FetchFailed p) = ''git fetch failed for '' @ p"

definition trigger_fetch :: "git_fetch option \<Rightarrow> string \<Rightarrow> string \<Rightarrow> step" where
  "trigger_fetch fetcher projectPath eventType w =
     (case fetcher of
        Some gf \<Rightarrow>
          (case FetchProject gf projectPath w of
             (Some e, w1) \<Rightarrow> (Some (show_fetch_error e), w1)
           | (None, w1) \<Rightarrow> (None, w1))
      | None \<Rightarrow>
          (None, emit (Logged ''info'' (''webhook received but no gitfetch reconciler; next sweep will sync: '' @
                         projectPath)) w))"

text \<open>
  Through the trigger manager: a call is given up while it waits for the debounce, with the error
  of its context, or it runs the trigger. Who cancels whom is the manager's own model.
\<close>

definition managed :: "(string \<Rightarrow> string \<Rightarrow> step) \<Rightarrow> trigger_func" where
  "managed trig p ev w r w' \<longleftrightarrow> (\<exists>ce. r = Some ce \<and> w' = w) \<or> trig p ev w = (r, w')"

definition buildWebhookServer ::
    "WebhookConfig \<Rightarrow> sync_component list \<Rightarrow> string + wh_server \<times> trigger_func" where
  "buildWebhookServer wc recs =
     (case NewServer (wh_Addr wc) (wh_SecretToken wc) of
        Inl e \<Rightarrow> Inl e
      | Inr srv \<Rightarrow> Inr (srv, managed (trigger_fetch (fetcher_of recs))))"

section \<open>Lemmas on the components\<close>

text \<open>The commands each component may run; every one meets the contract the sweep relies on.\<close>

fun component_calls :: "sync_component \<Rightarrow> (string \<times> string list) set" where
  "component_calls (GitRsyncC r) = {(''rsync'', gr_args r)}"
| "component_calls (GitFetchC r) = fetch_calls r"
| "component_calls (FsStorageC r) = (\<lambda>p. (''rsync'', fs_args r p)) ` set (fs_pathPairs r)"
| "component_calls (ConsistencyC r) = fsck_calls r"
| "component_calls _ = {}"

lemma component_confined: "confined_reconciler (component_run js c) (component_calls c)"
proof (cases c)
  case (PostgresC r)
  then show ?thesis using postgres_confined.confined_reconciler_axioms by simp
next
  case (GitRsyncC r)
  then show ?thesis using git_rsync_confined.confined_reconciler_axioms by simp
next
  case (GitFetchC r)
  then show ?thesis using git_fetch_confined.confined_reconciler_axioms by simp
next
  case (ObjectStorageC r)
  then show ?thesis using object_storage_confined.confined_reconciler_axioms by simp
next
  case (FsStorageC r)
  then show ?thesis using fs_storage_confined.confined_reconciler_axioms by simp
next
  case (RegistryC r)
  then show ?thesis using registry_confined.confined_reconciler_axioms by simp
next
  case (ConsistencyC r)
  then show ?thesis using consistency_confined.confined_reconciler_axioms by simp
next
  case (ApiValidatorC r)
  then show ?thesis using api_validator_confined.confined_reconciler_axioms by simp
qed

lemma component_reconciler: "reconciler (component_run js c)"
  by (rule confined_reconciler.axioms(1)[OF component_confined])

lemma components_confined:
  assumes "\<Union> (component_calls ` set recs) \<subseteq> M"
  shows "\<forall>rc \<in> set (map (component_obj js) recs). \<exists>m \<subseteq> M. confined_reconciler (rec_run rc) m"
proof
  fix rc
  assume "rc \<in> set (map (component_obj js) recs)"
  then obtain c where c: "c \<in> set recs" "rec_run rc = component_run js c" by (auto simp: component_obj_def)
  then have "component_calls c \<subseteq> M" using assms by auto
  then show "\<exists>m \<subseteq> M. confined_reconciler (rec_run rc) m"
    unfolding c(2) using component_confined by blast
qed

text \<open>None of them writes a file or a database.\<close>

lemma component_reads: "reading_reconciler (component_run js c)"
proof (cases c)
  case (PostgresC r)
  then show ?thesis using postgres_reads.reading_reconciler_axioms by simp
next
  case (GitRsyncC r)
  then show ?thesis using git_rsync_reads.reading_reconciler_axioms by simp
next
  case (GitFetchC r)
  then show ?thesis using git_fetch_reads.reading_reconciler_axioms by simp
next
  case (ObjectStorageC r)
  then show ?thesis using object_storage_reads.reading_reconciler_axioms by simp
next
  case (FsStorageC r)
  then show ?thesis using fs_storage_reads.reading_reconciler_axioms by simp
next
  case (RegistryC r)
  then show ?thesis using registry_reads.reading_reconciler_axioms by simp
next
  case (ConsistencyC r)
  then show ?thesis using consistency_reads.reading_reconciler_axioms by simp
next
  case (ApiValidatorC r)
  then show ?thesis using api_validator_reads.reading_reconciler_axioms by simp
qed

lemma components_read: "\<forall>rc \<in> set (map (component_obj js) recs). reading_reconciler (rec_run rc)"
  using component_reads by (auto simp: component_obj_def)

lemma buildReconcilers_observes: "buildReconcilers aws cfg dry w = (res, w') \<Longrightarrow> observes w w'"
proof -
  assume b: "buildReconcilers aws cfg dry w = (res, w')"
  obtain r w1 where n: "NewWithFactory cfg w = (r, w1)" by fastforce
  have 1: "observes w w1" by (rule NewWithFactory_observes[OF n])
  have "observes w (pg_Close pg w1)" for pg
    unfolding pg_Close_def by (rule observes_trans[OF 1 close_all_observes])
  then show ?thesis
    using b n 1 by (auto simp: buildReconcilers_def split: sum.splits list.splits outcome.splits)
qed

lemma trigger_fetch_observes: "managed (trigger_fetch f) p ev w r w' \<Longrightarrow> observes w w'"
  by (auto simp: managed_def trigger_fetch_def observes_emits dest: FetchProject_observes
      split: option.splits prod.splits)

section \<open>Lemmas on the construction\<close>

definition site_dsns :: "Config \<Rightarrow> string list" where
  "site_dsns cfg = map (\<lambda>s. DSN (site_Postgres s)) (Primary cfg # Secondaries cfg)"

lemma NewWithFactory_Inr:
  assumes "NewWithFactory cfg w = (Inr pg, w')"
  shows "extends w w'" "added w w' = map Connect (site_dsns cfg)" "pg_primary pg = DSN (site_Postgres (Primary cfg))"
    "map sc_pool (pg_secondaries pg) = map (\<lambda>s. DSN (site_Postgres s)) (Secondaries cfg)"
    "map sc_name (pg_secondaries pg) = map site_Name (Secondaries cfg)"
proof -
  let ?p = "DSN (site_Postgres (Primary cfg))"
  let ?w1 = "emit (Connect ?p) w"
  obtain r0 where c: "connect ?p w = (r0, ?w1)" by (simp add: connect_def)
  then have r0: "r0 = None" using assms by (cases r0) (auto simp: NewWithFactory_def Let_def)
  obtain rs w2 where o: "open_secondaries ?p [] (Secondaries cfg) ?w1 = (rs, w2)" by fastforce
  then obtain scs where s: "rs = Inr scs" "pg = \<lparr>pg_primary = ?p, pg_secondaries = scs\<rparr>" "w' = w2"
    using assms c r0 by (cases rs) (auto simp: NewWithFactory_def Let_def)
  have S: "extends ?w1 w2" "map sc_pool scs = map (\<lambda>s. DSN (site_Postgres s)) (Secondaries cfg)"
    "map sc_name scs = map site_Name (Secondaries cfg)"
    "added ?w1 w2 = map (\<lambda>s. Connect (DSN (site_Postgres s))) (Secondaries cfg)"
    using open_secondaries_spec[OF o] s(1) by simp_all
  show "extends w w'" using extends_trans[OF extends_emit S(1)] s(3) by simp
  show "added w w' = map Connect (site_dsns cfg)"
    using added_trans[OF extends_emit S(1)] S(4) s(3) by (simp add: site_dsns_def)
  show "pg_primary pg = ?p" "map sc_pool (pg_secondaries pg) = map (\<lambda>s. DSN (site_Postgres s)) (Secondaries cfg)"
    "map sc_name (pg_secondaries pg) = map site_Name (Secondaries cfg)"
    using s(2) S by simp_all
qed

lemma NewWithFactory_Inl:
  assumes "NewWithFactory cfg w = (Inl e, w')"
  shows "\<exists>k \<le> length (site_dsns cfg). added w w' =
    map Connect (take (Suc k) (site_dsns cfg)) @ map CloseConn (take k (site_dsns cfg))"
proof -
  let ?d = "map (\<lambda>s. DSN (site_Postgres s)) (Secondaries cfg)"
  from pg_pools_balanced[OF assms] consider (p) "added w w' = [Connect (DSN (site_Postgres (Primary cfg)))]"
    | (s) k where "k < length ?d" "added w w' = map Connect (DSN (site_Postgres (Primary cfg)) # take (Suc k) ?d) @
        map CloseConn (DSN (site_Postgres (Primary cfg)) # take k ?d)"
    by (auto simp: Let_def)
  then show ?thesis
  proof cases
    case p
    then show ?thesis by (intro exI[of _ 0]) (simp add: site_dsns_def)
  next
    case s
    then show ?thesis by (intro exI[of _ "Suc k"]) (simp add: site_dsns_def)
  qed
qed

lemma pg_Close_events:
  assumes "NewWithFactory cfg w = (Inr pg, w1)"
  shows "extends w' (pg_Close pg w')" "added w' (pg_Close pg w') = map CloseConn (site_dsns cfg)"
  using close_all_spec NewWithFactory_Inr[OF assms] by (simp_all add: pg_Close_def site_dsns_def)

text \<open>The constructor always finds the pool of the first secondary.\<close>

lemma first_pool:
  assumes "NewWithFactory cfg w = (Inr pg, w1)" and "Secondaries cfg = s # ss"
  shows "SecondaryPool pg (site_Name s) = Some (DSN (site_Postgres s))"
proof -
  obtain c cs where "pg_secondaries pg = c # cs" "sc_name c = site_Name s" "sc_pool c = DSN (site_Postgres s)"
    using NewWithFactory_Inr(4,5)[OF assms(1)] assms(2) by (cases "pg_secondaries pg") auto
  then show ?thesis by (simp add: SecondaryPool_def)
qed

definition api_enabled :: "Config \<Rightarrow> bool" where
  "api_enabled cfg \<longleftrightarrow> (case APIValidator cfg of Some a \<Rightarrow> api_Enabled a | None \<Rightarrow> False)"

lemma api_part_built:
  assumes "Secondaries cfg \<noteq> []"
  shows "\<exists>api. api_part cfg = Done api \<and> map component_name api = (if api_enabled cfg then [av_name] else []) \<and>
    \<Union> (component_calls ` set api) = {} \<and> fetcher_of api = None"
proof (cases "APIValidator cfg")
  case None
  then show ?thesis by (simp add: api_part_def api_enabled_def)
next
  case (Some a)
  then obtain r where "av_New cfg = Some r" using assms by (cases "Secondaries cfg") (simp_all add: av_New_def)
  then show ?thesis using Some by (cases "api_Enabled a") (simp_all add: api_part_def api_enabled_def)
qed

text \<open>What a successful construction consists of, for a configuration with a first secondary.\<close>

lemma build_cases:
  assumes "buildReconcilers aws cfg dry w = (res, w')"
  obtains (pools) e where "NewWithFactory cfg w = (Inl e, w')" "res = Failed (''postgres reconciler: '' @ e)"
  | (alone) pg where "NewWithFactory cfg w = (Inr pg, w')" "Secondaries cfg = []" "res = Done ([PostgresC pg], pg)"
  | (storage) pg w1 s ss e where "NewWithFactory cfg w = (Inr pg, w1)" "Secondaries cfg = s # ss"
      "storage_part aws cfg s dry = Inl e" "res = Failed e" "w' = pg_Close pg w1"
  | (built) pg s ss stor api where "NewWithFactory cfg w = (Inr pg, w')" "Secondaries cfg = s # ss"
      "storage_part aws cfg s dry = Inr stor" "map component_name api = (if api_enabled cfg then [av_name] else [])"
      "\<Union> (component_calls ` set api) = {}" "fetcher_of api = None"
      "res = Done ([PostgresC pg] @ git_part cfg s dry pg @ stor @ registry_part cfg s dry @
         [ConsistencyC (cs_New (pg_primary pg) (DSN (site_Postgres s)) (site_Name s) (git_ReposPath (site_Git s))
            (sync_ConsistencySamplePct (Sync cfg)))] @ api, pg)"
proof -
  obtain r1 w1 where n: "NewWithFactory cfg w = (r1, w1)" by fastforce
  show thesis
  proof (cases r1)
    case (Inl e)
    then show thesis using assms n pools by (simp add: buildReconcilers_def)
  next
    case (Inr pg)
    show thesis
    proof (cases "Secondaries cfg")
      case Nil
      then show thesis using assms n Inr alone by (simp add: buildReconcilers_def)
    next
      case (Cons s ss)
      show thesis
      proof (cases "storage_part aws cfg s dry")
        case (Inl e)
        then show thesis using assms n Inr Cons storage by (simp add: buildReconcilers_def)
      next
        case stor: (Inr stor)
        have c: "consistency_part cfg s pg = Done [ConsistencyC (cs_New (pg_primary pg) (DSN (site_Postgres s))
            (site_Name s) (git_ReposPath (site_Git s)) (sync_ConsistencySamplePct (Sync cfg)))]"
          using first_pool n Inr Cons by (simp add: consistency_part_def)
        have ne: "Secondaries cfg \<noteq> []" using Cons by simp
        obtain api where a: "api_part cfg = Done api" "map component_name api = (if api_enabled cfg then [av_name] else [])"
          "\<Union> (component_calls ` set api) = {}" "fetcher_of api = None"
          using api_part_built[OF ne] by blast
        show thesis
          using assms n Inr Cons stor c a(1) by (intro built[OF _ Cons stor a(2-4), of pg]) (simp_all add: buildReconcilers_def)
      qed
    qed
  qed
qed

section \<open>What is built\<close>

definition expected_names :: "Config \<Rightarrow> string list" where
  "expected_names cfg =
     [pg_name] @
     (if Secondaries cfg = [] then []
      else (if git_Mode (site_Git (Primary cfg)) = ''rsync'' then [gr_name]
            else if git_Mode (site_Git (Primary cfg)) = ''fetch'' then [gf_name] else []) @
           (if os_Backend (site_ObjectStore (Primary cfg)) = ''s3'' then [os_name]
            else if os_Backend (site_ObjectStore (Primary cfg)) = ''fs'' then [fs_name] else []) @
           (if site_Registry (Primary cfg) \<noteq> None then [rg_name] else []) @
           [cs_name] @ (if api_enabled cfg then [av_name] else []))"

lemma storage_names:
  "storage_part aws cfg s dry = Inr stor \<Longrightarrow> map component_name stor =
     (if os_Backend (site_ObjectStore (Primary cfg)) = ''s3'' then [os_name]
      else if os_Backend (site_ObjectStore (Primary cfg)) = ''fs'' then [fs_name] else [])"
  by (auto simp: storage_part_def Let_def split: if_splits sum.splits)

lemma build_names:
  assumes "buildReconcilers aws cfg dry w = (Done (recs, pg), w')"
  shows "map component_name recs = expected_names cfg" and "NewWithFactory cfg w = (Inr pg, w')"
proof -
  have "map component_name recs = expected_names cfg \<and> NewWithFactory cfg w = (Inr pg, w')"
    using assms
  proof (cases rule: build_cases)
    case (built pg' s ss stor api)
    have "map component_name (git_part cfg s dry pg') =
      (if git_Mode (site_Git (Primary cfg)) = ''rsync'' then [gr_name]
       else if git_Mode (site_Git (Primary cfg)) = ''fetch'' then [gf_name] else [])"
      by (simp add: git_part_def Let_def)
    moreover have "map component_name (registry_part cfg s dry) = (if site_Registry (Primary cfg) \<noteq> None then [rg_name] else [])"
      by (simp add: registry_part_def)
    ultimately show ?thesis
      using built storage_names[OF built(3)] by (simp add: expected_names_def)
  qed (simp_all add: expected_names_def)
  then show "map component_name recs = expected_names cfg" and "NewWithFactory cfg w = (Inr pg, w')" by simp_all
qed

section \<open>Properties\<close>

text \<open>C8. The construction is exact and leaks nothing: it never panics; when it succeeds, one pool per
  site was opened, the clean-up closes exactly these, and the components are those the
  configuration asks for, each once and in the order of the code; when it fails at the k-th pool, or
  at the object storage after all of them, exactly the pools opened so far are closed again.\<close>

theorem build_reconcilers_exact:
  assumes "buildReconcilers aws cfg dry w = (res, w')"
  shows "case res of
      Done (recs, pg) \<Rightarrow> map component_name recs = expected_names cfg \<and> added w w' = map Connect (site_dsns cfg) \<and>
        added w' (pg_Close pg w') = map CloseConn (site_dsns cfg)
    | Failed e \<Rightarrow> (\<exists>k \<le> length (site_dsns cfg). added w w' =
        map Connect (take (Suc k) (site_dsns cfg)) @ map CloseConn (take k (site_dsns cfg)))
    | Panicked p \<Rightarrow> False"
proof -
  have ok: ?thesis if "res = Done (recs, pg)" for recs pg
  proof -
    have n: "NewWithFactory cfg w = (Inr pg, w')" "map component_name recs = expected_names cfg"
      using assms build_names unfolding that by blast+
    show ?thesis using n(2) NewWithFactory_Inr(2)[OF n(1)] pg_Close_events(2)[OF n(1)] that by simp
  qed
  show ?thesis
    using assms
  proof (cases rule: build_cases)
    case (pools e)
    then show ?thesis using NewWithFactory_Inl by simp
  next
    case (storage pg w1 s ss e)
    have "added w w' = map Connect (site_dsns cfg) @ map CloseConn (site_dsns cfg)"
      using added_trans[OF NewWithFactory_Inr(1)[OF storage(1)] pg_Close_events(1)[OF storage(1)]]
        NewWithFactory_Inr(2)[OF storage(1)] pg_Close_events(2)[OF storage(1)] storage(5) by simp
    then show ?thesis using storage(4) by (simp, intro exI[of _ "length (site_dsns cfg)"]) simp
  next
    case (alone pg)
    then show ?thesis using ok by blast
  next
    case (built pg s ss stor api)
    then show ?thesis using ok by blast
  qed
qed

definition built_names :: "(sync_component list \<times> pg_reconciler) outcome \<Rightarrow> string list" where
  "built_names r = (case r of Done (recs, pg) \<Rightarrow> map component_name recs | _ \<Rightarrow> [])"

theorem build_reconcilers_exact_witness:
  "built_names (fst (buildReconcilers (\<lambda>_. None) sample_config False (calm_world []))) =
     [''postgres'', ''git_fetch'', ''fs_storage'', ''consistency_sweep'']"
proof -
  obtain res w' where B: "buildReconcilers (\<lambda>_. None) sample_config False (calm_world []) = (res, w')" by fastforce
  have "built_names (fst (buildReconcilers (\<lambda>_. None) sample_config False (calm_world []))) \<noteq> []" by code_simp
  then obtain recs pg where r: "res = Done (recs, pg)" using B by (cases res) (auto simp: built_names_def)
  have "map component_name recs = expected_names sample_config"
    using build_reconcilers_exact[OF B] unfolding r by simp
  moreover have "expected_names sample_config = [''postgres'', ''git_fetch'', ''fs_storage'', ''consistency_sweep'']"
    by code_simp
  ultimately show ?thesis unfolding B r by (simp only: built_names_def fst_conv outcome.case prod.case)
qed

end
