(* ===== verification/Metrics.thy ===== *)
theory Metrics
  imports Sla Config
begin

text \<open>
  \<open>internal/metrics/metrics.go\<close>: the collectors, their registration, and the server that shows
  them. The Prometheus client is a library: a registry is a parameter, given by what registering
  one collector in it does; a vector of collectors is known by what it was made with. What the
  components do to the collectors are the metric events of \<open>Geo_World\<close>.
\<close>

section \<open>The collectors\<close>

text \<open>A histogram's buckets are exponential: the first one, the factor and their number.\<close>

datatype collector_kind = GaugeVec | CounterVec | HistogramVec rat rat nat

record collector =
  co_Namespace :: string
  co_Name :: string
  co_Help :: string
  co_kind :: collector_kind
  co_labels :: "string list"

definition PGReplayLagSeconds :: collector where
  "PGReplayLagSeconds =
     \<lparr>co_Namespace = ''geo_sync'', co_Name = ''pg_replay_lag_seconds'',
      co_Help = ''PostgreSQL streaming replication replay lag in seconds, per secondary.'',
      co_kind = GaugeVec, co_labels = [''secondary'']\<rparr>"

definition SyncDurationSeconds :: collector where
  "SyncDurationSeconds =
     \<lparr>co_Namespace = ''geo_sync'', co_Name = ''sync_duration_seconds'',
      co_Help = ''Duration of a sync reconciler run.'',
      co_kind = HistogramVec (f64_round (1 / 10)) 2 12, co_labels = [''component'', ''result'']\<rparr>"

definition DriftTotal_vec :: collector where
  "DriftTotal_vec =
     \<lparr>co_Namespace = ''geo_sync'', co_Name = ''drift_total'',
      co_Help = ''Total number of detected drifts, by component and severity.'',
      co_kind = CounterVec, co_labels = [''component'', ''severity'']\<rparr>"

definition LastSyncTimestamp :: collector where
  "LastSyncTimestamp =
     \<lparr>co_Namespace = ''geo_sync'', co_Name = ''last_sync_timestamp_seconds'',
      co_Help = ''Unix timestamp of the last successful sync, per component.'',
      co_kind = GaugeVec, co_labels = [''component'']\<rparr>"

text \<open>The name a collector is shown under.\<close>

definition fq_name :: "collector \<Rightarrow> string" where
  "fq_name c = co_Namespace c @ ''_'' @ co_Name c"

text \<open>\<open>MustRegister\<close> registers one after the other and panics at the first error.\<close>

fun MustRegister :: "(collector \<Rightarrow> 'r \<Rightarrow> string + 'r) \<Rightarrow> collector list \<Rightarrow> 'r \<Rightarrow> 'r outcome" where
  "MustRegister reg [] r = Done r"
| "MustRegister reg (c # cs) r = (case reg c r of Inl e \<Rightarrow> Panicked e | Inr r' \<Rightarrow> MustRegister reg cs r')"

definition Register :: "(collector \<Rightarrow> 'r \<Rightarrow> string + 'r) \<Rightarrow> 'r \<Rightarrow> 'r outcome" where
  "Register reg r = MustRegister reg [PGReplayLagSeconds, SyncDurationSeconds, DriftTotal_vec, LastSyncTimestamp] r"

section \<open>The server\<close>

text \<open>The routes: the library's handler, given by its answer, and the health check.\<close>

definition metrics_route :: "int \<times> string \<Rightarrow> string \<Rightarrow> int \<times> string" where
  "metrics_route promhttp path =
     (if path = ''/metrics'' then promhttp
      else if path = ''/healthz'' then (200, ''ok'' @ nl)
      else (404, ''404 page not found'' @ nl))"

text \<open>The timeouts of the server, in nanoseconds.\<close>

record http_server =
  hs_Addr :: string
  hs_ReadHeaderTimeout :: int
  hs_ReadTimeout :: int
  hs_WriteTimeout :: int
  hs_IdleTimeout :: int

definition http_server_of :: "string \<Rightarrow> http_server" where
  "http_server_of addr =
     \<lparr>hs_Addr = addr, hs_ReadHeaderTimeout = 10 * 10 ^ 9, hs_ReadTimeout = 30 * 10 ^ 9,
      hs_WriteTimeout = 30 * 10 ^ 9, hs_IdleTimeout = 120 * 10 ^ 9\<rparr>"

text \<open>
  What \<open>Start\<close> of \<open>metrics.Server\<close> or of \<open>webhook.Server\<close> returns when it ends: at the context's
  cancellation, or when \<open>ListenAndServe\<close> returns.
\<close>

datatype listener_end = ContextDone | ListenerClosed | ListenerFailed string

fun Start_result :: "listener_end \<Rightarrow> string option" where
  "Start_result ContextDone = None"
| "Start_result ListenerClosed = None"
| "Start_result (ListenerFailed e) = Some e"

definition metrics_Start :: "string \<Rightarrow> listener_end \<Rightarrow> step" where
  "metrics_Start addr l w =
     (Start_result l, emit (Logged ''info'' (''metrics server listening: '' @ hs_Addr (http_server_of addr))) w)"

section \<open>Lemmas\<close>

text \<open>The SLA report looks for the families under the names the collectors are shown under.\<close>

lemma sla_names:
  "lag_name = fq_name PGReplayLagSeconds" "drift_name = fq_name DriftTotal_vec" "sync_name = fq_name LastSyncTimestamp"
  by (simp_all add: lag_name_def drift_name_def sync_name_def fq_name_def PGReplayLagSeconds_def DriftTotal_vec_def
      LastSyncTimestamp_def)

text \<open>
  In a registry that refuses a second collector of one name, registering works once, since the
  names differ, and a second time panics.
\<close>

definition by_name :: "collector \<Rightarrow> string set \<Rightarrow> string + string set" where
  "by_name c names =
     (if fq_name c \<in> names then Inl ''duplicate metrics collector registration attempted'' else Inr (insert (fq_name c) names))"

lemma registered_once:
  "\<exists>names. Register by_name {} = Done names \<and> card names = 4 \<and>
     Register by_name names = Panicked ''duplicate metrics collector registration attempted''"
proof -
  let ?cs = "[PGReplayLagSeconds, SyncDurationSeconds, DriftTotal_vec, LastSyncTimestamp]"
  have d: "distinct (map fq_name ?cs)"
    by (simp add: fq_name_def PGReplayLagSeconds_def SyncDurationSeconds_def DriftTotal_vec_def LastSyncTimestamp_def)
  then have "Register by_name {} = Done (set (map fq_name ?cs))"
    by (auto simp: Register_def by_name_def insert_commute)
  moreover have "card (set (map fq_name ?cs)) = 4" using distinct_card[OF d] by simp
  moreover have "Register by_name (set (map fq_name ?cs)) = Panicked ''duplicate metrics collector registration attempted''"
    by (simp add: Register_def by_name_def)
  ultimately show ?thesis by blast
qed

text \<open>
  Every metric event is for one collector, with as many label values as the collector has labels;
  with any other number the client panics.
\<close>

fun collector_of :: "metric \<Rightarrow> collector" where
  "collector_of (DriftTotal c s) = DriftTotal_vec"
| "collector_of (PGReplayLag s v) = PGReplayLagSeconds"
| "collector_of (SyncDuration c r) = SyncDurationSeconds"
| "collector_of (LastSync c) = LastSyncTimestamp"

fun label_values :: "metric \<Rightarrow> string list" where
  "label_values (DriftTotal c s) = [c, s]"
| "label_values (PGReplayLag s v) = [s]"
| "label_values (SyncDuration c r) = [c, r]"
| "label_values (LastSync c) = [c]"

lemma labels_fit: "length (label_values m) = length (co_labels (collector_of m))"
  by (cases m) (simp_all add: PGReplayLagSeconds_def SyncDurationSeconds_def DriftTotal_vec_def LastSyncTimestamp_def)

end
