(* ===== verification/Serve.thy ===== *)
theory Serve
  imports Geoctl Metrics
begin

text \<open>
  The serve command of \<open>cmd/geoctl/main.go\<close>: its start, and the running process as one transition
  system over the sweeps of the runner, the requests and jobs of the webhook receiver, and the
  rounds of the failover monitor. The process runs them side by side; here each sweep, each
  handled request, each finished job and each round is one step, so the steps interleave in every
  order but do not cut each other open.
\<close>

section \<open>The start\<close>

record serving =
  sv_runner :: runner
  sv_webhook :: "(wh_server \<times> trigger_func) option"
  sv_monitor :: "controller option"
  sv_pools :: pg_reconciler

fun enable_secondaries :: "bool \<Rightarrow> SiteConfig list \<Rightarrow> step" where
  "enable_secondaries dryRun [] w = (None, w)"
| "enable_secondaries dryRun (s # ss) w =
     (case Enable (site_SSHHost s) dryRun w of
        (Some e, w1) \<Rightarrow> (Some (''enable readonly on '' @ site_Name s @ '': '' @ e), w1)
      | (None, w1) \<Rightarrow> enable_secondaries dryRun ss w1)"

definition webhook_of :: "Config \<Rightarrow> sync_component list \<Rightarrow> string + (wh_server \<times> trigger_func) option" where
  "webhook_of cfg recs =
     (case Webhook cfg of
        None \<Rightarrow> Inr None
      | Some wc \<Rightarrow>
          (case buildWebhookServer wc recs of Inl e \<Rightarrow> Inl (''webhook server: '' @ e) | Inr s \<Rightarrow> Inr (Some s)))"

definition monitor_of :: "Config \<Rightarrow> bool \<Rightarrow> controller option" where
  "monitor_of cfg dryRun =
     (if sync_FailoverEnabled (Sync cfg) \<and> Failover cfg \<noteq> None then Some (New cfg dryRun) else None)"

text \<open>
  The runner is started before the webhook receiver is built; a receiver that cannot be built ends
  the command, and the short life of the runner before that is told in \<open>Cli\<close> only.
\<close>

definition serve_start ::
    "reg_json \<Rightarrow> (S3Config \<Rightarrow> string option) \<Rightarrow> Config \<Rightarrow> bool \<Rightarrow> world \<Rightarrow> serving outcome \<times> world" where
  "serve_start js aws cfg dryRun w =
     (case buildReconcilers aws cfg dryRun w of
        (Failed e, w1) \<Rightarrow> (Failed (''build reconcilers: '' @ e), w1)
      | (Panicked p, w1) \<Rightarrow> (Panicked p, w1)
      | (Done (recs, pg), w1) \<Rightarrow>
          (case (if sync_ReadOnlySecondary (Sync cfg) then enable_secondaries dryRun (Secondaries cfg) w1
                 else (None, w1)) of
             (Some e, w2) \<Rightarrow> (Failed e, pg_Close pg w2)
           | (None, w2) \<Rightarrow>
               (case webhook_of cfg recs of
                  Inl e \<Rightarrow> (Failed e, pg_Close pg w2)
                | Inr wh \<Rightarrow>
                    (Done \<lparr>sv_runner = NewRunner (sync_SweepInterval (Sync cfg)) (map (component_obj js) recs),
                           sv_webhook = wh, sv_monitor = monitor_of cfg dryRun, sv_pools = pg\<rparr>, w2))))"

section \<open>The process\<close>

text \<open>The jobs of the receiver, the controller of the monitor, and the world.\<close>

type_synonym process = "job list \<times> controller option \<times> world"

inductive serve_step ::
    "(string \<Rightarrow> string + string) \<Rightarrow> serving \<Rightarrow> process \<Rightarrow> process \<Rightarrow> bool" for um s where
  serve_sweep: "sweep (ru_reconcilers (sv_runner s)) w w' \<Longrightarrow> serve_step um s (jobs, c, w) (jobs, c, w')"
| serve_hook: "sv_webhook s = Some (srv, trig) \<Longrightarrow> server_step um trig srv (jobs, w) (jobs', w') \<Longrightarrow>
    serve_step um s (jobs, c, w) (jobs', c, w')"
| serve_health: "check c w = Done (c', w') \<Longrightarrow> serve_step um s (jobs, Some c, w) (jobs, Some c', w')"

inductive serve_reach :: "(string \<Rightarrow> string + string) \<Rightarrow> serving \<Rightarrow> world \<Rightarrow> process \<Rightarrow> bool" for um s w0 where
  serve_begin: "serve_reach um s w0 ([], sv_monitor s, w0)"
| serve_next: "serve_reach um s w0 st \<Longrightarrow> serve_step um s st st' \<Longrightarrow> serve_reach um s w0 st'"

section \<open>The end\<close>

text \<open>
  The first thing the command hears: a signal, or what one of its goroutines sends on the error
  channel. After a nil it waits for the signal, whatever is sent later.
\<close>

datatype heard = Signalled | Sent "string option"

fun serve_result :: "heard \<Rightarrow> exit" where
  "serve_result Signalled = ExitOk"
| "serve_result (Sent (Some e)) = ExitErr e"
| "serve_result (Sent None) = ExitOk"

text \<open>
  The whole command: it ends in its start, or, after any run of the process, with what it hears;
  the deferred clean-up then closes the pools.
\<close>

inductive serve_cmd ::
    "reg_json \<Rightarrow> (S3Config \<Rightarrow> string option) \<Rightarrow> (string \<Rightarrow> string + string) \<Rightarrow> Config \<Rightarrow> bool \<Rightarrow> world \<Rightarrow>
     exit \<Rightarrow> world \<Rightarrow> bool" for js aws um cfg dryRun w where
  serve_not_started: "serve_start js aws cfg dryRun w = (Failed e, w1) \<Longrightarrow>
    serve_cmd js aws um cfg dryRun w (ExitErr e) w1"
| serve_panics: "serve_start js aws cfg dryRun w = (Panicked p, w1) \<Longrightarrow>
    serve_cmd js aws um cfg dryRun w (ExitPanic p) w1"
| serve_ends: "serve_start js aws cfg dryRun w = (Done s, w1) \<Longrightarrow> serve_reach um s w1 (jobs, c, w2) \<Longrightarrow>
    serve_cmd js aws um cfg dryRun w (serve_result h) (pg_Close (sv_pools s) w2)"

inductive_cases serve_cmdE: "serve_cmd js aws um cfg dryRun w x w'"

section \<open>What a mirroring process may run\<close>

definition mirrored_paths :: "Config \<Rightarrow> SiteConfig \<Rightarrow> (string \<times> string) set" where
  "mirrored_paths cfg s =
     {(git_ReposPath (site_Git (Primary cfg)), git_ReposPath (site_Git s))} \<union>
     {(p, p) |p. p \<in> set (os_FSPaths (site_ObjectStore (Primary cfg)))} \<union>
     {(Src p, Dst p) |p. p \<in> set (registry_pair (Primary cfg) s)}"

text \<open>
  An rsync from the primary between the configured paths, with the configured ssh options and the
  dry-run flag; a fetch into the first secondary's repositories, in fetch mode and no dry run; or
  an fsck of a repository found below them.
\<close>

definition mirror_call :: "Config \<Rightarrow> bool \<Rightarrow> string \<times> string list \<Rightarrow> bool" where
  "mirror_call cfg dry x \<longleftrightarrow>
     (\<exists>s ss. Secondaries cfg = s # ss \<and>
        ((\<exists>(src, dst) \<in> mirrored_paths cfg s.
            x = (''rsync'', rsync_args (SSHExecConfig cfg) dry (site_SSHHost (Primary cfg)) src dst)) \<or>
         (\<not> dry \<and> git_Mode (site_Git (Primary cfg)) = ''fetch'' \<and>
            (\<exists>p. x = (''git'', git_args (gf_New (site_SSHHost (Primary cfg)) (git_ReposPath (site_Git s)) (site_Name s)
                     (DSN (site_Postgres (Primary cfg))) dry (SSHExecConfig cfg)) p))) \<or>
         (\<exists>t. \<exists>p \<in> set (fst (walk_repos (git_ReposPath (site_Git s)) t)).
            x = (''git'', [''-C'', p, ''fsck'', ''--no-dangling'']))))"

text \<open>The fetch component of a configuration, if it is built.\<close>

definition the_fetcher :: "Config \<Rightarrow> SiteConfig \<Rightarrow> bool \<Rightarrow> git_fetch" where
  "the_fetcher cfg s dry =
     gf_New (site_SSHHost (Primary cfg)) (git_ReposPath (site_Git s)) (site_Name s)
       (DSN (site_Postgres (Primary cfg))) dry (SSHExecConfig cfg)"

lemma git_part_calls:
  assumes "Secondaries cfg = s # ss" and "pg_primary pg = DSN (site_Postgres (Primary cfg))"
    and "c \<in> set (git_part cfg s dry pg)" and "x \<in> component_calls c"
  shows "mirror_call cfg dry x"
  using assms
  by (auto simp: mirror_call_def git_part_def Let_def gr_args_def gr_New_def mirrored_paths_def fetch_calls_def
      gf_New_def split: if_splits)

lemma storage_part_calls:
  assumes "Secondaries cfg = s # ss" and "storage_part aws cfg s dry = Inr stor"
    and "c \<in> set stor" and "x \<in> component_calls c"
  shows "mirror_call cfg dry x"
proof -
  have "c = FsStorageC (fs_New (Primary cfg) s dry (SSHExecConfig cfg)) \<or> component_calls c = {}"
    using assms(2,3) by (auto simp: storage_part_def Let_def split: if_splits sum.splits)
  then obtain p where p: "p \<in> set (fs_pathPairs (fs_New (Primary cfg) s dry (SSHExecConfig cfg)))"
    "x = (''rsync'', fs_args (fs_New (Primary cfg) s dry (SSHExecConfig cfg)) p)"
    using assms(4) by auto
  have "(Src p, Dst p) \<in> mirrored_paths cfg s" using p(1) by (auto simp: fs_New_def mirrored_paths_def)
  moreover have "x = (''rsync'', rsync_args (SSHExecConfig cfg) dry (site_SSHHost (Primary cfg)) (Src p) (Dst p))"
    using p(2) by (simp add: fs_args_def fs_New_def)
  ultimately show ?thesis using assms(1) unfolding mirror_call_def by blast
qed

lemma consistency_calls:
  assumes "Secondaries cfg = s # ss"
    and "x \<in> component_calls (ConsistencyC (cs_New p q (site_Name s) (git_ReposPath (site_Git s)) pct))"
  shows "mirror_call cfg dry x"
  using assms unfolding mirror_call_def fsck_calls_def cs_New_def component_calls.simps by fastforce

lemma built_calls:
  assumes "buildReconcilers aws cfg dry w = (Done (recs, pg), w')"
  shows "\<Union> (component_calls ` set recs) \<subseteq> Collect (mirror_call cfg dry)"
  using assms
proof (cases rule: build_cases)
  case (built pg' s ss stor api)
  note p = NewWithFactory_Inr(3)[OF built(1)]
  show ?thesis
  proof
    fix x
    assume "x \<in> \<Union> (component_calls ` set recs)"
    then obtain c where c: "c \<in> set recs" "x \<in> component_calls c" by blast
    have e: "component_calls (PostgresC pg') = {}" "\<forall>c \<in> set (registry_part cfg s dry). component_calls c = {}"
      "\<forall>c \<in> set api. component_calls c = {}"
      using built(5) by (auto simp: registry_part_def)
    let ?cc = "ConsistencyC (cs_New (pg_primary pg') (DSN (site_Postgres s)) (site_Name s) (git_ReposPath (site_Git s))
            (sync_ConsistencySamplePct (Sync cfg)))"
    have "recs = [PostgresC pg'] @ git_part cfg s dry pg' @ stor @ registry_part cfg s dry @ [?cc] @ api"
      using built(7) by simp
    then consider "c \<in> set (git_part cfg s dry pg')" | "c \<in> set stor" | "c = ?cc" | "component_calls c = {}"
      using c(1) e by auto
    then show "x \<in> Collect (mirror_call cfg dry)"
      using git_part_calls[OF built(2) p] storage_part_calls[OF built(2,3)] consistency_calls[OF built(2)] c(2)
      by cases auto
  qed
qed (simp_all)

section \<open>The webhook's fetches\<close>

lemma fetcher_of_append: "fetcher_of (xs @ ys) = (case fetcher_of xs of Some f \<Rightarrow> Some f | None \<Rightarrow> fetcher_of ys)"
  by (induction xs) (auto split: sync_component.splits)

text \<open>The receiver is wired to the fetch component exactly in fetch mode.\<close>

lemma fetcher_built:
  assumes "buildReconcilers aws cfg dry w = (Done (recs, pg), w')"
  shows "fetcher_of recs =
    (case Secondaries cfg of
       s # _ \<Rightarrow> if git_Mode (site_Git (Primary cfg)) = ''fetch'' then Some (the_fetcher cfg s dry) else None
     | [] \<Rightarrow> None)"
  using assms
proof (cases rule: build_cases)
  case (built pg' s ss stor api)
  note p = NewWithFactory_Inr(3)[OF built(1)]
  have "fetcher_of (git_part cfg s dry pg') =
      (if git_Mode (site_Git (Primary cfg)) = ''fetch'' then Some (the_fetcher cfg s dry) else None)"
    by (simp add: git_part_def Let_def the_fetcher_def p)
  moreover have "fetcher_of stor = None"
    using built(3) by (auto simp: storage_part_def Let_def split: if_splits sum.splits)
  moreover have "fetcher_of (registry_part cfg s dry) = None" by (simp add: registry_part_def)
  ultimately show ?thesis using built by (simp add: fetcher_of_append)
qed simp_all

lemma FetchProject_calls:
  assumes "FetchProject gf p w = (e, w')"
  shows "extends w w' \<and> set (execs (added w w')) \<subseteq> fetch_calls gf"
proof (cases "Validate p")
  case None
  obtain ok w1 where f: "fetchOne gf \<lparr>ID = 0, RepoPath = p @ ''.git''\<rparr> w = (ok, w1)" by fastforce
  then have "w' = w1" using assms None by (auto simp: FetchProject_def split: bool.splits)
  then show ?thesis using fetchOne_calls[OF f] by simp
next
  case (Some pe)
  then show ?thesis using assms by (simp add: FetchProject_def)
qed

lemma trigger_fetch_cases:
  assumes "managed (trigger_fetch f) p ev w r w'"
  obtains (quiet) "extends w w'" "execs (added w w') = []"
  | (fetched) gf e where "f = Some gf" "FetchProject gf p w = (e, w')"
proof (cases f)
  case None
  have "extends w w' \<and> execs (added w w') = []"
    using assms None by (auto simp: managed_def trigger_fetch_def)
  then show thesis using quiet by blast
next
  case (Some gf)
  obtain e w1 where "FetchProject gf p w = (e, w1)" by fastforce
  then show thesis
    using assms Some quiet fetched by (cases e) (auto simp: managed_def trigger_fetch_def)
qed

lemma trigger_fetch_calls:
  assumes "managed (trigger_fetch f) p ev w r w'"
  shows "extends w w' \<and> set (execs (added w w')) \<subseteq> (case f of Some gf \<Rightarrow> fetch_calls gf | None \<Rightarrow> {})"
  using assms
proof (cases rule: trigger_fetch_cases)
  case quiet
  then show ?thesis by simp
next
  case (fetched gf e)
  then show ?thesis using FetchProject_calls[OF fetched(2)] by simp
qed

lemma the_fetcher_calls:
  assumes "Secondaries cfg = s # ss" "git_Mode (site_Git (Primary cfg)) = ''fetch''" "x \<in> fetch_calls (the_fetcher cfg s dry)"
  shows "mirror_call cfg dry x"
  using assms by (auto simp: mirror_call_def fetch_calls_def the_fetcher_def gf_New_def split: if_splits)

lemma built_trigger_calls:
  assumes "buildReconcilers aws cfg dry w0 = (Done (recs, pg), w1)"
    and "managed (trigger_fetch (fetcher_of recs)) p ev w r w'"
  shows "extends w w' \<and> (\<forall>x \<in> set (execs (added w w')). mirror_call cfg dry x)"
  using trigger_fetch_calls[OF assms(2)] the_fetcher_calls
  unfolding fetcher_built[OF assms(1)] by (auto split: list.splits if_splits)

section \<open>One step of the process\<close>

lemma auto_promote_ssh:
  assumes "auto_promote c w = Done (c', w')" and "x \<in> set (execs (added w w'))"
  shows "\<exists>h cmd. x = ssh_call (fc_sshCfg c) h cmd"
proof -
  let ?w1 = "emit (Logged ''error'' ''primary declared down; auto-failover triggered'') w"
  obtain s ss where s: "Secondaries (fc_cfg c) = s # ss"
    using assms(1) by (cases "Secondaries (fc_cfg c)") (auto simp: auto_promote_def)
  obtain r w2 where P: "Promote c (site_Name s) ?w1 = (r, w2)" by fastforce
  have 2: "extends ?w1 w2" using Promote_summary[OF P] by blast
  then have e: "execs (added w w2) = execs (added ?w1 w2)" "extends w w2"
    by (auto simp: added_trans[of w ?w1 w2] intro: extends_trans[OF extends_emit])
  have "w' = w2 \<or> (\<exists>e. w' = emit (Logged ''error'' e) w2)"
    using assms(1) s P by (auto simp: auto_promote_def split: fo_result.splits)
  then have "x \<in> set (execs (added ?w1 w2))" using assms(2) e by (auto simp: added_emitI)
  then show ?thesis using Promote_summary[OF P] by fastforce
qed

lemma check_ssh:
  assumes "check c w = Done (c', w')" and "x \<in> set (execs (added w w'))"
  shows "\<exists>h cmd. x = ssh_call (fc_sshCfg c) h cmd"
proof -
  obtain n w1 where p: "poll_all (fc_healthURLs c) w = (n, w1)" by fastforce
  have 1: "extends w w1" "execs (added w w1) = []" using poll_all_events[of w "fc_healthURLs c"] p by auto
  let ?w2 = "emit (Logged ''warn'' ''primary health check failed'') w1"
  let ?c1 = "c\<lparr>consecutiveFails := consecutiveFails c + 1, primaryDown := True\<rparr>"
  have 2: "extends w ?w2" "execs (added w ?w2) = []" using 1 by (auto simp: added_emitI intro: extends_emitI)
  consider (down) "auto_promote ?c1 ?w2 = Done (c', w')" | (other) "w' = w1 \<or> w' = ?w2 \<or> (\<exists>e. w' = emit (Logged ''error'' e) ?w2)"
    using assms(1) p by (auto simp: check_def Let_def split: if_splits)
  then show ?thesis
  proof cases
    case down
    have "extends ?w2 w'" using auto_promote_execs[OF down] by blast
    then have "x \<in> set (execs (added ?w2 w'))" using assms(2) 2 by (simp add: added_trans[of w ?w2 w'])
    then show ?thesis using auto_promote_ssh[OF down] by simp
  next
    case other
    then show ?thesis using assms(2) 1 2 by (auto simp: added_emitI)
  qed
qed

text \<open>A command the monitor may send: only with automatic failover enabled, and no dry run.\<close>

definition failover_call :: "Config \<Rightarrow> bool \<Rightarrow> string \<times> string list \<Rightarrow> bool" where
  "failover_call cfg dry x \<longleftrightarrow>
     \<not> dry \<and> sync_FailoverEnabled (Sync cfg) \<and> (\<exists>f. Failover cfg = Some f \<and> fo_AutoFailover f) \<and>
     (\<exists>h cmd. x = ssh_call (SSHExecConfig cfg) h cmd)"

lemma round_calls:
  assumes "monitor cfg dry c w h" and "check c w = Done (c', w')" and "x \<in> set (execs (added w w'))"
  shows "failover_call cfg dry x"
proof -
  have ne: "execs (added w w') \<noteq> []" using assms(3) by auto
  note m = monitor_config[OF assms(1)]
  have "fc_autoFailover (New cfg dry)" "\<not> dry" "sync_FailoverEnabled (Sync cfg)"
    using check_execs[OF assms(2)] ne m by auto
  moreover from this have "\<exists>f. Failover cfg = Some f \<and> fo_AutoFailover f"
    by (auto simp: New_def Let_def split: option.splits)
  ultimately show ?thesis using check_ssh[OF assms(2,3)] m by (auto simp: failover_call_def)
qed

lemma server_step_grows:
  assumes "server_step um trig srv (jobs, w) (jobs', w')"
    and "\<And>p ev w r w'. trig p ev w r w' \<Longrightarrow> extends w w' \<and> (\<forall>x \<in> set (execs (added w w')). Q x)"
  shows "extends w w' \<and> (\<forall>x \<in> set (execs (added w w')). Q x) \<and> length jobs' \<le> max (length jobs) (sv_cap srv)"
  using assms(1)
proof (cases rule: server_step.cases)
  case (arrives req code)
  then show ?thesis using handle_cases[OF arrives(1)] by (auto split: if_splits)
next
  case (finishes j r v pre post)
  have 1: "extends w v" "\<forall>x \<in> set (execs (added w v)). Q x" using assms(2) finishes by blast+
  have 2: "extends v w'" "execs (added v w') = []" using finishJob_world finishes by simp_all
  have "execs (added w w') = execs (added w v)" "extends w w'"
    using 2(2) extends_trans[OF 1(1) 2(1)] by (simp_all add: added_trans[OF 1(1) 2(1)])
  then show ?thesis using 1(2) finishes by auto
qed

lemma enable_secondaries_observes: "enable_secondaries dry ss v = (r, v') \<Longrightarrow> observes v v'"
proof (induction ss arbitrary: v)
  case (Cons x ss)
  obtain r1 v1 where e: "Enable (site_SSHHost x) dry v = (r1, v1)" by fastforce
  have "observes v v1" using readonly_observes(1)[of v "site_SSHHost x" dry ssh_Default] e by (simp add: Enable_def)
  then show ?case using Cons e observes_trans[of v v1 v'] by (auto split: option.splits)
qed simp

lemma serve_start_observes: "serve_start js aws cfg dry w = (res, w') \<Longrightarrow> observes w w'"
proof -
  assume s: "serve_start js aws cfg dry w = (res, w')"
  obtain rb w1 where b: "buildReconcilers aws cfg dry w = (rb, w1)" by fastforce
  have 1: "observes w w1" by (rule buildReconcilers_observes[OF b])
  obtain r w2 where e: "(if sync_ReadOnlySecondary (Sync cfg) then enable_secondaries dry (Secondaries cfg) w1
      else (None, w1)) = (r, w2)" by fastforce
  have 2: "observes w w2" using e enable_secondaries_observes[of dry "Secondaries cfg" w1 r w2] 1 by (auto split: if_splits intro: observes_trans)
  have 3: "observes w (pg_Close pg w2)" for pg
    unfolding pg_Close_def by (rule observes_trans[OF 2 close_all_observes])
  show ?thesis
    using s b e 1 2 3 by (auto simp: serve_start_def split: outcome.splits option.splits sum.splits)
qed

section \<open>The process from its start\<close>

lemma enable_calls:
  assumes "enable_secondaries dry ss w = (r, w')"
  shows "extends w w' \<and> (\<forall>x \<in> set (execs (added w w')). \<not> dry \<and>
    (\<exists>s \<in> set ss. \<exists>cmd \<in> set enable_cmds. x = ssh_call ssh_Default (site_SSHHost s) cmd))"
  using assms
proof (induction ss arbitrary: w)
  case Nil
  then show ?case by simp
next
  case (Cons s ss)
  obtain r1 w1 where e: "Enable (site_SSHHost s) dry w = (r1, w1)" by fastforce
  have run: "run_steps (map (runSSH (site_SSHHost s) dry ssh_Default) enable_cmds) w = (r1, w1)"
    using e by (simp add: Enable_def EnableWithConfig_def)
  have 1: "extends w w1" using readonly_extends(1)[of w "site_SSHHost s" dry ssh_Default] e by (simp add: Enable_def)
  have x1: "\<not> dry \<and> (\<exists>cmd \<in> set enable_cmds. x = ssh_call ssh_Default (site_SSHHost s) cmd)"
    if x: "x \<in> set (execs (added w w1))" for x
  proof (cases dry)
    case True
    have "silent (run_steps (map (runSSH (site_SSHHost s) True ssh_Default) enable_cmds))"
      by (rule run_steps_silent) (auto simp: silent_def runSSH_def split: option.splits)
    then have "execs (added w w1) = []" using run True unfolding silent_def by (metis snd_conv)
    then show ?thesis using x by simp
  next
    case False
    have ne: "enable_cmds \<noteq> []" by (simp add: enable_cmds_def)
    obtain k where "added w w1 = map (ssh_event ssh_Default (site_SSHHost s)) (take k enable_cmds)"
      using site_cmds_run[of "site_SSHHost s" ssh_Default enable_cmds w r1 w1] run ne False by auto
    then show ?thesis using x False by (auto simp: execs_ssh dest: in_set_takeD)
  qed
  show ?case
  proof (cases r1)
    case (Some m)
    then show ?thesis using Cons.prems e 1 x1 by auto
  next
    case None
    then have "enable_secondaries dry ss w1 = (r, w')" using Cons.prems e by simp
    from Cons.IH[OF this] have 2: "extends w1 w'" and x2: "\<forall>x \<in> set (execs (added w1 w')). \<not> dry \<and>
      (\<exists>s \<in> set ss. \<exists>cmd \<in> set enable_cmds. x = ssh_call ssh_Default (site_SSHHost s) cmd)" by auto
    have "execs (added w w') = execs (added w w1) @ execs (added w1 w')" by (simp add: added_trans[OF 1 2])
    then show ?thesis using extends_trans[OF 1 2] x1 x2 by auto
  qed
qed

lemma serve_start_Done:
  assumes "serve_start js aws cfg dry w0 = (Done s, w1)"
  obtains recs pg wb wh where "buildReconcilers aws cfg dry w0 = (Done (recs, pg), wb)"
    "extends wb w1" "\<forall>x \<in> set (execs (added wb w1)). sync_ReadOnlySecondary (Sync cfg) \<and> \<not> dry \<and>
      (\<exists>sc \<in> set (Secondaries cfg). \<exists>cmd \<in> set enable_cmds. x = ssh_call ssh_Default (site_SSHHost sc) cmd)"
    "webhook_of cfg recs = Inr wh"
    "s = \<lparr>sv_runner = NewRunner (sync_SweepInterval (Sync cfg)) (map (component_obj js) recs),
      sv_webhook = wh, sv_monitor = monitor_of cfg dry, sv_pools = pg\<rparr>"
proof -
  obtain res wb where b: "buildReconcilers aws cfg dry w0 = (res, wb)" by fastforce
  then obtain recs pg where r: "res = Done (recs, pg)"
    using assms by (cases res) (auto simp: serve_start_def)
  obtain e w2 where en: "(if sync_ReadOnlySecondary (Sync cfg) then enable_secondaries dry (Secondaries cfg) wb
      else (None, wb)) = (e, w2)" by fastforce
  have g: "extends wb w2 \<and> (\<forall>x \<in> set (execs (added wb w2)). sync_ReadOnlySecondary (Sync cfg) \<and> \<not> dry \<and>
      (\<exists>sc \<in> set (Secondaries cfg). \<exists>cmd \<in> set enable_cmds. x = ssh_call ssh_Default (site_SSHHost sc) cmd))"
  proof (cases "sync_ReadOnlySecondary (Sync cfg)")
    case True
    then show ?thesis using enable_calls[of dry "Secondaries cfg" wb e w2] en by simp
  next
    case False
    then show ?thesis using en by simp
  qed
  have none: "e = None" using assms b r en by (cases e) (simp_all add: serve_start_def)
  obtain wh where wh: "webhook_of cfg recs = Inr wh"
    using assms b r en none by (cases "webhook_of cfg recs") (simp_all add: serve_start_def)
  have "w1 = w2" "s = \<lparr>sv_runner = NewRunner (sync_SweepInterval (Sync cfg)) (map (component_obj js) recs),
      sv_webhook = wh, sv_monitor = monitor_of cfg dry, sv_pools = pg\<rparr>"
    using assms b r en none wh by (simp_all add: serve_start_def)
  then show thesis using that b r g wh by blast
qed

definition process_ok :: "Config \<Rightarrow> bool \<Rightarrow> world \<Rightarrow> process \<Rightarrow> bool" where
  "process_ok cfg dry w1 st \<longleftrightarrow>
     (case st of (jobs, ctl, w) \<Rightarrow>
        extends w1 w \<and> length jobs \<le> 8 \<and>
        (\<forall>x \<in> set (execs (added w1 w)). mirror_call cfg dry x \<or> failover_call cfg dry x) \<and>
        (case ctl of Some c \<Rightarrow> \<exists>h. monitor cfg dry c w h | None \<Rightarrow> True))"

lemma process_ok_grows:
  assumes "process_ok cfg dry w1 (jobs, ctl, w)" and "extends w w'"
    and "\<forall>x \<in> set (execs (added w w')). mirror_call cfg dry x \<or> failover_call cfg dry x" and "length jobs' \<le> 8"
  shows "process_ok cfg dry w1 (jobs', ctl, w')"
proof -
  have x: "extends w1 w" using assms(1) by (simp add: process_ok_def)
  have "\<forall>x \<in> set (execs (added w1 w')). mirror_call cfg dry x \<or> failover_call cfg dry x"
    using assms(1,3) by (auto simp: process_ok_def added_trans[OF x assms(2)])
  moreover have "extends w1 w'" by (rule extends_trans[OF x assms(2)])
  moreover have "case ctl of Some c \<Rightarrow> \<exists>h. monitor cfg dry c w' h | None \<Rightarrow> True"
    using assms(1) monitor_waits[OF _ assms(2)] by (cases ctl) (auto simp: process_ok_def, blast)
  ultimately show ?thesis using assms(4) by (simp add: process_ok_def)
qed

lemma webhook_of_Some:
  assumes "webhook_of cfg recs = Inr (Some (srv, trig))"
  shows "sv_cap srv = 8 \<and> trig = managed (trigger_fetch (fetcher_of recs))"
  using assms by (auto simp: webhook_of_def buildWebhookServer_def NewServer_def split: option.splits sum.splits if_splits)

lemma serve_step_ok:
  assumes start: "serve_start js aws cfg dry w0 = (Done s, w1)"
    and ok: "process_ok cfg dry v st" and step: "serve_step um s st st'"
  shows "process_ok cfg dry v st'"
  using start
proof (rule serve_start_Done)
  fix recs pg wb wh
  assume b: "buildReconcilers aws cfg dry w0 = (Done (recs, pg), wb)" and wh: "webhook_of cfg recs = Inr wh"
    and s: "s = \<lparr>sv_runner = NewRunner (sync_SweepInterval (Sync cfg)) (map (component_obj js) recs),
      sv_webhook = wh, sv_monitor = monitor_of cfg dry, sv_pools = pg\<rparr>"
  show ?thesis
    using step
  proof (cases rule: serve_step.cases)
    case (serve_sweep w w' jobs c)
    have "sweep (map (component_obj js) recs) w w'" using serve_sweep s by (simp add: NewRunner_def)
    from sweep_confined[OF this components_confined[OF built_calls[OF b]]]
    have "extends w w'" "\<forall>x \<in> set (execs (added w w')). mirror_call cfg dry x" by auto
    then show ?thesis using process_ok_grows[of cfg dry v jobs c w w' jobs] ok serve_sweep by (simp add: process_ok_def)
  next
    case (serve_hook srv trig jobs w jobs' w' c)
    have t: "sv_cap srv = 8" "trig = managed (trigger_fetch (fetcher_of recs))"
      using webhook_of_Some[of cfg recs srv trig] wh serve_hook s by simp_all
    have "extends w w' \<and> (\<forall>x \<in> set (execs (added w w')). mirror_call cfg dry x) \<and> length jobs' \<le> max (length jobs) (sv_cap srv)"
      using serve_hook(4) unfolding t(2) by (rule server_step_grows) (rule built_trigger_calls[OF b])
    then show ?thesis
      using process_ok_grows[of cfg dry v jobs c w w' jobs'] ok serve_hook t(1) by (simp add: process_ok_def)
  next
    case (serve_health c w c' w' jobs)
    obtain h where m: "monitor cfg dry c w h" using ok serve_health by (auto simp: process_ok_def)
    have "process_ok cfg dry v (jobs, None, w')"
      using process_ok_grows[of cfg dry v jobs None w w' jobs] ok serve_health check_execs[OF serve_health(3)]
        round_calls[OF m serve_health(3)] by (simp add: process_ok_def)
    moreover have "\<exists>h. monitor cfg dry c' w' h" using monitor_tick[OF m serve_health(3)] by blast
    ultimately show ?thesis using serve_health by (simp add: process_ok_def)
  qed
qed

lemma serve_reach_ok:
  assumes "serve_start js aws cfg dry w0 = (Done s, w1)" and "serve_reach um s w1 st"
  shows "process_ok cfg dry w1 st"
  using assms(2)
proof (induction rule: serve_reach.induct)
  case serve_begin
  have "sv_monitor s = monitor_of cfg dry" using assms(1) by (elim serve_start_Done) simp
  then show ?case using monitor_start by (auto simp: process_ok_def monitor_of_def split: option.splits)
next
  case (serve_next st st')
  then show ?case using serve_step_ok[OF assms(1)] by blast
qed

lemma serve_start_Failed:
  assumes "serve_start js aws cfg dry w0 = (Failed e, w1)"
  obtains e' where "buildReconcilers aws cfg dry w0 = (Failed e', w1)"
  | recs pg wb w2 where "buildReconcilers aws cfg dry w0 = (Done (recs, pg), wb)" "extends wb w2" "w1 = pg_Close pg w2"
proof -
  obtain res wb where b: "buildReconcilers aws cfg dry w0 = (res, wb)" by fastforce
  obtain r w2 where en: "(if sync_ReadOnlySecondary (Sync cfg) then enable_secondaries dry (Secondaries cfg) wb
      else (None, wb)) = (r, w2)" by fastforce
  have x: "extends wb w2"
    using en enable_calls[of dry "Secondaries cfg" wb r w2] by (cases "sync_ReadOnlySecondary (Sync cfg)") auto
  show thesis
  proof (cases res)
    case (Done rp)
    then show thesis
      using assms b en x that(2)[of "fst rp" "snd rp" wb w2]
      by (cases rp; cases r; cases "webhook_of cfg (fst rp)") (auto simp: serve_start_def)
  next
    case (Failed e')
    then show thesis using assms b that(1) by (simp add: serve_start_def)
  next
    case (Panicked p)
    then show thesis using assms b by (simp add: serve_start_def)
  qed
qed

text \<open>
  However a started or half-started serve command ends, the last it does is to close every pool
  that its construction opened.
\<close>

lemma serve_cmd_closes_pools:
  assumes "serve_cmd js aws um cfg dry w x w'" and "buildReconcilers aws cfg dry w = (Done (recs, pg), wb)"
  shows "\<exists>es. added w w' = map Connect (site_dsns cfg) @ es @ map CloseConn (site_dsns cfg)"
proof -
  note n = NewWithFactory_Inr[OF build_names(2)[OF assms(2)]]
  have close: ?thesis if "extends wb w2" "w' = pg_Close pg w2" for w2
  proof -
    note c = pg_Close_events[OF build_names(2)[OF assms(2)], of w2]
    have "added w w' = added w wb @ added wb w2 @ added w2 w'"
      unfolding that(2) by (simp add: added_trans[OF n(1) extends_trans[OF that(1) c(1)]] added_trans[OF that(1) c(1)])
    then show ?thesis using n(2) c(2) that(2) by auto
  qed
  show ?thesis
    using assms(1)
  proof (rule serve_cmdE)
    fix e
    assume "serve_start js aws cfg dry w = (Failed e, w')"
    then show ?thesis by (rule serve_start_Failed) (use assms(2) close in auto)
  next
    fix p
    assume "serve_start js aws cfg dry w = (Panicked p, w')"
    then show ?thesis
      using assms(2) by (auto simp: serve_start_def split: prod.splits option.splits sum.splits if_splits)
  next
    fix s w1 jobs c w2 h
    assume st: "serve_start js aws cfg dry w = (Done s, w1)" and re: "serve_reach um s w1 (jobs, c, w2)"
      and w': "w' = pg_Close (sv_pools s) w2"
    have "extends w1 w2" using serve_reach_ok[OF st re] by (simp add: process_ok_def)
    moreover from st have "sv_pools s = pg \<and> extends wb w1" by (rule serve_start_Done) (use assms(2) in auto)
    ultimately show ?thesis using close[of w2] w' extends_trans by blast
  qed
qed

text \<open>The failed construction runs no command.\<close>

lemma build_failed_quiet:
  assumes "buildReconcilers aws cfg dry w = (Failed e, w')"
  shows "execs (added w w') = []"
proof -
  have q: "execs (map Connect ds) = []" "execs (map CloseConn ds) = []" for ds by (induction ds) auto
  show ?thesis
    using assms
  proof (cases rule: build_cases)
    case (pools e')
    then show ?thesis using NewWithFactory_Inl[OF pools(1)] q by auto
  next
    case (storage pg w1 s ss e')
    then show ?thesis
      using added_trans[OF NewWithFactory_Inr(1)[OF storage(1)] pg_Close_events(1)[OF storage(1)]]
        NewWithFactory_Inr(2)[OF storage(1)] pg_Close_events(2)[OF storage(1)] q by simp
  qed simp_all
qed

lemma enable_fails:
  "enable_secondaries dry ss w = (Some e, w') \<Longrightarrow>
   \<exists>before sc after e'. ss = before @ sc # after \<and> e = ''enable readonly on '' @ site_Name sc @ '': '' @ e' \<and>
     enable_secondaries dry (before @ [sc]) w = (Some e, w')"
proof (induction ss arbitrary: w)
  case (Cons s ss)
  obtain r w1 where r: "Enable (site_SSHHost s) dry w = (r, w1)" by fastforce
  show ?case
  proof (cases r)
    case (Some e1)
    then show ?thesis using Cons.prems r by (intro exI[of _ "[]"] exI[of _ s] exI[of _ ss] exI[of _ e1]) simp
  next
    case None
    then have "enable_secondaries dry ss w1 = (Some e, w')" using Cons.prems r by simp
    from Cons.IH[OF this] obtain before sc after e' where "ss = before @ sc # after"
      "e = ''enable readonly on '' @ site_Name sc @ '': '' @ e'" "enable_secondaries dry (before @ [sc]) w1 = (Some e, w')"
      by blast
    then show ?thesis using None r by (intro exI[of _ "s # before"] exI[of _ sc] exI[of _ after] exI[of _ e']) simp
  qed
qed simp

lemma webhook_of_Inl:
  "webhook_of cfg recs = Inl e \<longleftrightarrow>
     (\<exists>wc. Webhook cfg = Some wc \<and> wh_SecretToken wc = [] \<and>
        e = ''webhook server: webhook secret_token must not be empty'')"
  by (auto simp: webhook_of_def buildWebhookServer_def NewServer_def split: option.splits sum.splits)

text \<open>The causes of a start that fails after the construction.\<close>

lemma serve_start_causes:
  assumes "serve_start js aws cfg dry w0 = (Failed e, w1)" and "buildReconcilers aws cfg dry w0 = (Done (recs, pg), wb)"
  obtains (read_only) before sc after e' w2 where "sync_ReadOnlySecondary (Sync cfg)" "Secondaries cfg = before @ sc # after"
      "e = ''enable readonly on '' @ site_Name sc @ '': '' @ e'"
      "enable_secondaries dry (before @ [sc]) wb = (Some e, w2)" "w1 = pg_Close pg w2"
  | (webhook) wc where "Webhook cfg = Some wc" "wh_SecretToken wc = []"
      "e = ''webhook server: webhook secret_token must not be empty''"
proof -
  obtain r w2 where en: "(if sync_ReadOnlySecondary (Sync cfg) then enable_secondaries dry (Secondaries cfg) wb
      else (None, wb)) = (r, w2)" by fastforce
  show thesis
  proof (cases r)
    case (Some e1)
    then have ro: "sync_ReadOnlySecondary (Sync cfg)" "enable_secondaries dry (Secondaries cfg) wb = (Some e1, w2)"
      using en by (auto split: if_splits)
    have "e = e1" "w1 = pg_Close pg w2" using assms en Some by (auto simp: serve_start_def)
    then show thesis using enable_fails[OF ro(2)] ro(1) read_only by blast
  next
    case None
    then obtain e' where "webhook_of cfg recs = Inl e'" "e = e'"
      using assms en by (cases "webhook_of cfg recs") (auto simp: serve_start_def)
    then show thesis using webhook unfolding webhook_of_Inl by blast
  qed
qed

section \<open>Properties\<close>

text \<open>
  Starting the process runs only the read-only commands; from then on every command is a mirror
  command, or, with automatic failover, an ssh command of the monitor; at most eight jobs run.
\<close>

lemma serve_confined:
  assumes "serve_start js aws cfg dry w0 = (Done s, w1)" and "serve_reach um s w1 (jobs, ctl, w2)"
  shows "(\<forall>x \<in> set (execs (added w0 w1)). sync_ReadOnlySecondary (Sync cfg) \<and> \<not> dry \<and>
      (\<exists>sc \<in> set (Secondaries cfg). \<exists>cmd \<in> set enable_cmds. x = ssh_call ssh_Default (site_SSHHost sc) cmd)) \<and>
    (\<forall>x \<in> set (execs (added w1 w2)). mirror_call cfg dry x \<or> failover_call cfg dry x) \<and> length jobs \<le> 8"
proof -
  obtain recs pg wb where b: "buildReconcilers aws cfg dry w0 = (Done (recs, pg), wb)" and x: "extends wb w1"
    and e: "\<forall>x \<in> set (execs (added wb w1)). sync_ReadOnlySecondary (Sync cfg) \<and> \<not> dry \<and>
      (\<exists>sc \<in> set (Secondaries cfg). \<exists>cmd \<in> set enable_cmds. x = ssh_call ssh_Default (site_SSHHost sc) cmd)"
    using assms(1) by (elim serve_start_Done) blast
  note n = NewWithFactory_Inr[OF build_names(2)[OF b]]
  have "execs (map Connect ds) = []" for ds by (induction ds) auto
  then have "execs (added w0 w1) = execs (added wb w1)" using n(2) by (simp add: added_trans[OF n(1) x])
  then show ?thesis using e serve_reach_ok[OF assms] by (simp add: process_ok_def)
qed

lemma serve_confined_witness:
  "\<exists>js s w1 w2. serve_start js (\<lambda>_. None) sample_config True (calm_world []) = (Done s, w1) \<and>
     sweep (ru_reconcilers (sv_runner s)) w1 w2 \<and>
     list_all (\<lambda>x. mirror_call sample_config True x \<or> failover_call sample_config True x) (execs (added w1 w2))"
proof -
  let ?js = "\<lparr>dec_catalog = (\<lambda>_. Inr []), dec_tags = (\<lambda>_. Inr [])\<rparr>"
  obtain res w1 where B: "buildReconcilers (\<lambda>_. None) sample_config True (calm_world []) = (res, w1)" by fastforce
  have "built_names (fst (buildReconcilers (\<lambda>_. None) sample_config True (calm_world []))) \<noteq> []" by code_simp
  then obtain rp where r: "res = Done rp" using B by (cases res) (auto simp: built_names_def)
  have c: "\<not> sync_ReadOnlySecondary (Sync sample_config)" "Webhook sample_config = None"
    by (simp_all add: sample_config_def)
  obtain s where s: "serve_start ?js (\<lambda>_. None) sample_config True (calm_world []) = (Done s, w1)"
    using B r c by (cases rp) (simp add: serve_start_def webhook_of_def)
  obtain recs where "ru_reconcilers (sv_runner s) = map (component_obj ?js) recs"
    using s by (elim serve_start_Done) (simp add: NewRunner_def)
  then have "\<forall>rc \<in> set (ru_reconcilers (sv_runner s)). reconciler (rec_run rc)"
    using component_reconciler by (auto simp: component_obj_def)
  then obtain w2 where w2: "sweep (ru_reconcilers (sv_runner s)) w1 w2" using sweep_returns by blast
  have "serve_reach (\<lambda>_. Inl []) s w1 ([], sv_monitor s, w2)"
    by (rule serve_next[OF serve_begin serve_sweep[OF w2]])
  from serve_confined[OF s this] have "\<forall>x \<in> set (execs (added w1 w2)).
      mirror_call sample_config True x \<or> failover_call sample_config True x" by blast
  then show ?thesis using s w2 unfolding list_all_iff by blast
qed


definition push_request :: wh_request where
  "push_request =
     \<lparr>rq_Method = ''POST'', rq_Token = ''tok'', rq_Event = ''push'', rq_Body = ''group/app'', rq_BodyErr = None\<rparr>"




end
