(* ===== verification/Runbook.thy ===== *)
theory Runbook
  imports Config Initcmd Sla Durations
begin

text \<open>
  \<open>internal/runbook/runbook.go\<close>, the Markdown runbook generated from a configuration, and the
  print-out of \<open>internal/version/version.go\<close>. The template is evaluated by Go's text/template: its
  literal text is copied here line by line, its actions are the fields and functions they name.
  The field \<open>Failover\<close> is a pointer, so the template tests it for nil.
\<close>

section \<open>The functions of the template\<close>

text \<open>
  \<open>Sprintf("%.1f", x)\<close>: the decimal with one digit after the point that is nearest to the float's
  exact value, the even one of two.
\<close>

definition fixed1 :: "rat \<Rightarrow> string" where
  "fixed1 x =
     (let n = round_half_even (10 * \<bar>x\<bar>)
      in (if x < 0 then ''-'' else []) @ itoa (n div 10) @ ''.'' @ [digit_char (n mod 10)])"

definition pct :: "rat \<Rightarrow> string" where
  "pct v = fixed1 (f64_mul v 100) @ ''%''"

definition firstSecondaryName :: "Config \<Rightarrow> string" where
  "firstSecondaryName cfg = (case Secondaries cfg of s # _ \<Rightarrow> site_Name s | [] \<Rightarrow> [])"

section \<open>The text\<close>

text \<open>The two characters of the text outside ASCII, as UTF-8.\<close>

definition arrow :: string where "arrow = [CHR 0xE2, CHR 0x86, CHR 0x92]"

definition dash :: string where "dash = [CHR 0xE2, CHR 0x80, CHR 0x94]"

definition title_part :: "Config \<Rightarrow> string list" where
  "title_part cfg =
     [''# gitlab-geo-sync Operational Runbook'',
      [],
      ''Generated from your configuration.'',
      []]"

definition environment_part :: "Config \<Rightarrow> string list" where
  "environment_part cfg =
     [''## Environment'',
      [],
      ''- **Primary:** '' @ site_Name (Primary cfg) @ '' ('' @ site_ExternalURL (Primary cfg) @ '')'',
      ''- **Secondaries:** '' @ itoa (int (length (Secondaries cfg)))] @
     map (\<lambda>s. ''  - '' @ site_Name s @ '' ('' @ site_ExternalURL s @ '')'') (Secondaries cfg) @
     [[],
      []]"

definition failover_part :: "Config \<Rightarrow> string list" where
  "failover_part cfg =
     [''## 1. Failover: Primary '' @ arrow @ '' Secondary'',
      [],
      ''When the primary is down and a secondary must be promoted:'',
      [],
      ''### Automated (if auto_failover is enabled)'',
      [],
      ''The failover controller will automatically promote the first secondary'',
      ''after 3 consecutive health check failures ('' @ site_ExternalURL (Primary cfg) @ '').'',
      [],
      ''### Manual'',
      [],
      ''    geoctl failover --secondary '' @ firstSecondaryName cfg,
      [],
      ''### Post-failover checklist'',
      [],
      ''1. Update DNS to point the primary hostname to the new primary's IP.'',
      ''2. Re-point CI runners: update `config.toml` `url` to the new primary.'',
      ''3. Update any external integrations (Slack, JIRA, etc.) with the new URL.'',
      ''4. Verify webhook delivery by checking a sample project's webhook logs.'',
      ''5. Verify access tokens work by making an authenticated API call.'',
      []]"

definition roleswap_part :: "Config \<Rightarrow> string list" where
  "roleswap_part cfg =
     [''## 2. Role-Swap: Re-attach Old Primary as Secondary'',
      [],
      ''When the old primary comes back online:'',
      [],
      ''    geoctl adopt-as-secondary --old-primary-ssh '' @ site_SSHHost (Primary cfg),
      [],
      ''This runs pg_basebackup from the new primary and reconfigures the old'',
      ''primary as a read-only secondary.'',
      []]"

definition splitbrain_part :: "Config \<Rightarrow> string list" where
  "splitbrain_part cfg =
     [''## 3. Split-Brain Recovery'',
      [],
      ''If both sites were writable simultaneously (rare; requires fencing'',
      ''failure):'',
      [],
      ''1. **Decide which site has the canonical data.** This is a human decision.'',
      ''2. On the non-canonical site: stop GitLab, wipe PGDATA, re-basebackup.'',
      ''3. On the non-canonical site: wipe object storage, re-sync from canonical.'',
      ''4. On the non-canonical site: start GitLab as secondary.'',
      []]"

definition rotation_part :: "Config \<Rightarrow> string list" where
  "rotation_part cfg =
     [''## 4. db_key_base Rotation'',
      [],
      ''If you need to rotate the db_key_base (e.g. after a suspected compromise):'',
      [],
      ''1. On the primary: update `gitlab_rails['db_key_base']` in /etc/gitlab/gitlab.rb.'',
      ''2. Run `gitlab-ctl reconfigure` on the primary.'',
      ''3. Run the GitLab Rake task to re-encrypt affected columns (consult'',
      ''   GitLab's public docs for the current task name).'',
      ''4. Copy the new db_key_base to all secondaries.'',
      ''5. Run `gitlab-ctl reconfigure` on each secondary.'',
      ''6. Verify with: `geoctl dbkey`'',
      []]"

definition monitoring_part :: "Config \<Rightarrow> string list" where
  "monitoring_part cfg =
     [''## 5. Monitoring'',
      [],
      ''- Metrics endpoint: '' @ Metrics_Addr cfg @ ''/metrics'',
      ''- Health endpoint: '' @ Metrics_Addr cfg @ ''/healthz'',
      ''- Key alerts:'',
      ''  - geo_sync_pg_replay_lag_seconds > 30s '' @ arrow @ '' warning'',
      ''  - geo_sync_drift_total increasing '' @ arrow @ '' investigate component'',
      ''  - geo_sync_last_sync_timestamp_seconds stale '' @ arrow @ '' reconciler stuck'',
      []]"

definition runners_part :: "Config \<Rightarrow> string list" where
  "runners_part cfg =
     [''## 6. CI Runner Re-Pointing'',
      [],
      ''After failover, runners registered against the old primary need updating:'',
      [],
      ''1. SSH to each runner host.'',
      ''2. Edit /etc/gitlab-runner/config.toml '' @ dash @ '' change the `url` field.'',
      ''3. Run `gitlab-runner restart`.'',
      ''4. Verify: `gitlab-runner verify`.'',
      []]"

definition lag_part :: "Config \<Rightarrow> string list" where
  "lag_part cfg =
     [''## 7. Sync Interval & Lag Targets'',
      [],
      ''- Sweep interval: '' @ duration_str (sync_SweepInterval (Sync cfg)),
      ''- Lag warning threshold: '' @ duration_str (sync_LagWarningThreshold (Sync cfg)),
      ''- Lag critical threshold: '' @ duration_str (sync_LagCriticalThreshold (Sync cfg)),
      ''- Consistency sample: '' @ pct (sync_ConsistencySamplePct (Sync cfg)) @ '' of repos per sweep'',
      []]"

definition failover_config_part :: "Config \<Rightarrow> string list" where
  "failover_config_part cfg =
     [''## 8. Failover Configuration'',
      [],
      ''- Failover enabled: '' @ show_bool (sync_FailoverEnabled (Sync cfg)),
      ''- Auto-failover: '' @ (case Failover cfg of Some f \<Rightarrow> show_bool (fo_AutoFailover f) | None \<Rightarrow> ''false''),
      ''- Health check interval: '' @ (case Failover cfg of Some f \<Rightarrow> duration_str (fo_HealthCheckInterval f) | None \<Rightarrow> ''10s''),
      ''- Quorum required: '' @ (case Failover cfg of Some f \<Rightarrow> itoa (fo_QuorumRequired f) | None \<Rightarrow> ''1''),
      ''- DNS plugin: '' @ (case Failover cfg of Some f \<Rightarrow> fo_DNSPlugin f | None \<Rightarrow> ''none'')]"

definition runbook_lines :: "Config \<Rightarrow> string list" where
  "runbook_lines cfg =
     title_part cfg @ environment_part cfg @ failover_part cfg @ roleswap_part cfg @ splitbrain_part cfg @
     rotation_part cfg @ monitoring_part cfg @ runners_part cfg @ lag_part cfg @ failover_config_part cfg"

definition rb_Generate :: "Config \<Rightarrow> string" where
  "rb_Generate cfg = concat (map (\<lambda>l. l @ nl) (runbook_lines cfg))"

section \<open>The version\<close>

record version_info =
  vi_Version :: string
  vi_Commit :: string
  vi_BuildDate :: string
  vi_GoVersion :: string
  vi_OS :: string
  vi_Arch :: string

definition version_str :: "version_info \<Rightarrow> string" where
  "version_str i =
     ''gitlab-geo-sync '' @ vi_Version i @ '' (commit='' @ vi_Commit i @ '', built='' @ vi_BuildDate i @ '', '' @
     vi_OS i @ ''/'' @ vi_Arch i @ '')''"

section \<open>Lemmas\<close>

text \<open>The percentage is the nearest one with one decimal, so it is off by at most a twentieth.\<close>

lemma half_even_close: "0 \<le> d \<Longrightarrow> d < 1 \<Longrightarrow> \<bar>of_int (half_even f d) - (of_int f + d)\<bar> \<le> 1 / 2"
  by (auto simp: half_even_def abs_if split: if_splits)

lemma round_half_even_close: "\<bar>of_int (round_half_even r) - r\<bar> \<le> 1 / 2"
proof -
  have "0 \<le> r - of_int (floor r)" "r - of_int (floor r) < 1" by linarith+
  from half_even_close[OF this, of "floor r"] show ?thesis by (simp add: round_half_even_def)
qed

lemma pct_examples:
  "pct (f64_round (1 / 100)) = ''1.0%''" "pct (f64_round (29 / 100)) = ''29.0%''" "pct (1 / 16) = ''6.2%''" "pct 1 = ''100.0%''"
  by code_simp+

lemma line_in_concat: "l \<in> set ls \<Longrightarrow> \<exists>a b. concat (map (\<lambda>l. l @ nl) ls) = a @ l @ nl @ b"
proof -
  assume "l \<in> set ls"
  then obtain xs ys where "ls = xs @ l # ys" by (meson split_list)
  then show ?thesis by (intro exI[of _ "concat (map (\<lambda>l. l @ nl) xs)"] exI[of _ "concat (map (\<lambda>l. l @ nl) ys)"]) simp
qed

lemma runbook_contains: "l \<in> set (runbook_lines cfg) \<Longrightarrow> \<exists>a b. rb_Generate cfg = a @ l @ nl @ b"
  unfolding rb_Generate_def by (rule line_in_concat)

lemma runbook_commands:
  "''    geoctl failover --secondary '' @ firstSecondaryName cfg \<in> set (runbook_lines cfg)"
  "''    geoctl adopt-as-secondary --old-primary-ssh '' @ site_SSHHost (Primary cfg) \<in> set (runbook_lines cfg)"
  by (simp_all add: runbook_lines_def failover_part_def roleswap_part_def)

text \<open>The configuration without its credentials: passwords, storage keys, tokens, plug-in settings.\<close>

definition blank_s3 :: "S3Config \<Rightarrow> S3Config" where
  "blank_s3 s = s\<lparr>s3_AccessKey := [], s3_SecretKey := []\<rparr>"

definition blank_site :: "SiteConfig \<Rightarrow> SiteConfig" where
  "blank_site s =
     s\<lparr>site_Postgres := (site_Postgres s)\<lparr>pg_Password := [], pg_ReplicationPassword := []\<rparr>,
       site_ObjectStore := (site_ObjectStore s)\<lparr>os_S3 := map_option blank_s3 (os_S3 (site_ObjectStore s))\<rparr>,
       site_Registry := map_option (\<lambda>r. r\<lparr>reg_S3 := map_option blank_s3 (reg_S3 r)\<rparr>) (site_Registry s)\<rparr>"

definition blank_credentials :: "Config \<Rightarrow> Config" where
  "blank_credentials cfg =
     cfg\<lparr>Primary := blank_site (Primary cfg), Secondaries := map blank_site (Secondaries cfg), ControlDB := [],
         Webhook := map_option (\<lambda>wh. wh\<lparr>wh_SecretToken := []\<rparr>) (Webhook cfg),
         APIValidator := map_option (\<lambda>a. a\<lparr>api_PrimaryToken := [], api_SecondaryToken := []\<rparr>) (APIValidator cfg),
         Failover := map_option (\<lambda>f. f\<lparr>fo_DNSConfig := []\<rparr>) (Failover cfg)\<rparr>"

lemma blank_site_simps [simp]:
  "site_Name (blank_site s) = site_Name s" "site_ExternalURL (blank_site s) = site_ExternalURL s"
  "site_SSHHost (blank_site s) = site_SSHHost s" "site_Git (blank_site s) = site_Git s"
  "os_Backend (site_ObjectStore (blank_site s)) = os_Backend (site_ObjectStore s)"
  by (simp_all add: blank_site_def)

lemma blank_credentials_simps [simp]:
  "Primary (blank_credentials cfg) = blank_site (Primary cfg)"
  "Secondaries (blank_credentials cfg) = map blank_site (Secondaries cfg)"
  "Sync (blank_credentials cfg) = Sync cfg" "Metrics_Addr (blank_credentials cfg) = Metrics_Addr cfg"
  by (simp_all add: blank_credentials_def)

text \<open>A runbook shows no credential: it is the same for the configuration without them.\<close>

lemma runbook_hides_credentials: "rb_Generate (blank_credentials cfg) = rb_Generate cfg"
  by (simp add: rb_Generate_def runbook_lines_def title_part_def environment_part_def failover_part_def
      roleswap_part_def splitbrain_part_def rotation_part_def monitoring_part_def runners_part_def lag_part_def
      failover_config_part_def firstSecondaryName_def blank_credentials_def o_def split: list.split option.split)

end
