(* ===== verification/Commands.thy ===== *)
theory Commands
  imports Serve Runbook
begin

text \<open>
  The other commands of \<open>cmd/geoctl/main.go\<close>, from the loaded configuration on: config-validate,
  sync, dbkey, failover, adopt-as-secondary, pg setup, pg status, runbook, sla, doctor and init; and
  the version command. Standard output takes what is written to it.
\<close>

section \<open>Configuration summary\<close>

definition summary_lines :: "Config \<Rightarrow> string list" where
  "summary_lines cfg =
     [''primary: '' @ site_Name (Primary cfg) @ '' ('' @ site_ExternalURL (Primary cfg) @ '')'' @ nl,
      ''secondaries: '' @ itoa (int (length (Secondaries cfg))) @ nl] @
     map (\<lambda>s. ''  - '' @ site_Name s @ '' ('' @ site_ExternalURL s @ '')'' @ nl) (Secondaries cfg) @
     [''git mode: '' @ git_Mode (site_Git (Primary cfg)) @ nl,
      ''object storage backend: '' @ os_Backend (site_ObjectStore (Primary cfg)) @ nl,
      ''sweep interval: '' @ duration_str (sync_SweepInterval (Sync cfg)) @ nl,
      ''failover enabled: '' @ show_bool (sync_FailoverEnabled (Sync cfg)) @ nl,
      ''read-only secondary: '' @ show_bool (sync_ReadOnlySecondary (Sync cfg)) @ nl] @
     (case APIValidator cfg of Some a \<Rightarrow> [''api validator: enabled='' @ show_bool (api_Enabled a) @ nl] | None \<Rightarrow> []) @
     (case Webhook cfg of Some wh \<Rightarrow> [''webhook receiver: '' @ wh_Addr wh @ nl] | None \<Rightarrow> []) @
     (case Failover cfg of
        Some f \<Rightarrow> [''failover: auto='' @ show_bool (fo_AutoFailover f) @ '' quorum='' @ itoa (fo_QuorumRequired f) @
                   '' dns='' @ fo_DNSPlugin f @ nl]
      | None \<Rightarrow> []) @
     [''metrics addr: '' @ Metrics_Addr cfg @ nl, ''control db: '' @ ControlDB cfg @ nl]"

definition validate_cmd :: "Config \<Rightarrow> world \<Rightarrow> exit \<times> world" where
  "validate_cmd cfg w = (ExitOk, print_all (summary_lines cfg) w)"

section \<open>sync and pg status\<close>

definition sync_line :: "string \<Rightarrow> result \<Rightarrow> string" where
  "sync_line name r =
     ''['' @ (if OK r then ''OK'' else ''DRIFT'') @ ''] '' @ name @ '': '' @ Detail r @ '' (lag='' @
     duration_str (Lag r) @ '', repaired='' @ itoa (Repaired r) @ '', remaining='' @ itoa (Remaining r) @ '')'' @ nl"

text \<open>The loop, with the results it printed, in order. A cancellation does not end it.\<close>

inductive sync_loop :: "reconciler_obj list \<Rightarrow> world \<Rightarrow> (string \<times> result) list \<Rightarrow> world \<Rightarrow> bool" where
  sync_end: "sync_loop [] w [] w"
| sync_next: "rec_run rc w res w1 \<Longrightarrow>
    sync_loop rcs (emit (Printed (sync_line (rec_name rc) res)) w1) lg w' \<Longrightarrow>
    sync_loop (rc # rcs) w ((rec_name rc, res) # lg) w'"

inductive sync_cmd ::
    "reg_json \<Rightarrow> (S3Config \<Rightarrow> string option) \<Rightarrow> Config \<Rightarrow> bool \<Rightarrow> world \<Rightarrow> (string \<times> result) list \<Rightarrow> exit \<Rightarrow>
     world \<Rightarrow> bool" for js aws cfg dryRun w where
  sync_not_built: "buildReconcilers aws cfg dryRun w = (Failed e, w1) \<Longrightarrow>
    sync_cmd js aws cfg dryRun w [] (ExitErr e) w1"
| sync_panics: "buildReconcilers aws cfg dryRun w = (Panicked p, w1) \<Longrightarrow>
    sync_cmd js aws cfg dryRun w [] (ExitPanic p) w1"
| sync_ran: "buildReconcilers aws cfg dryRun w = (Done (recs, pg), w1) \<Longrightarrow>
    sync_loop (map (component_obj js) recs) w1 lg w2 \<Longrightarrow>
    sync_cmd js aws cfg dryRun w lg ExitOk (pg_Close pg w2)"

inductive_cases sync_cmdE: "sync_cmd js aws cfg dryRun w lg x w'"

definition status_lines :: "result \<Rightarrow> string list" where
  "status_lines r =
     [''postgres sync: ok='' @ show_bool (OK r) @ '' lag='' @ duration_str (Lag r) @ '' remaining='' @
        itoa (Remaining r) @ nl,
      ''detail: '' @ Detail r @ nl]"

definition pg_status_cmd :: "Config \<Rightarrow> world \<Rightarrow> exit \<times> world" where
  "pg_status_cmd cfg w =
     (case NewWithFactory cfg w of
        (Inl e, w1) \<Rightarrow> (ExitErr e, w1)
      | (Inr pg, w1) \<Rightarrow>
          (case pg_Reconcile pg w1 of (r, w2) \<Rightarrow> (ExitOk, pg_Close pg (print_all (status_lines r) w2))))"

section \<open>The commands on sites\<close>

definition of_error :: "string option \<Rightarrow> exit" where
  "of_error r = (case r of Some e \<Rightarrow> ExitErr e | None \<Rightarrow> ExitOk)"

definition pg_setup_cmd :: "Config \<Rightarrow> bool \<Rightarrow> string \<Rightarrow> string \<Rightarrow> world \<Rightarrow> exit \<times> world" where
  "pg_setup_cmd cfg dryRun dataDir secondaryName w =
     (case findSecondary cfg secondaryName of
        Inl e \<Rightarrow> (ExitErr e, w)
      | Inr sc \<Rightarrow>
          if dataDir = [] then (ExitErr ''--data-dir is required'', w)
          else (case pgs_Run \<lparr>po_PrimaryDSN = ReplicationDSN (site_Postgres (Primary cfg)), po_DataDir = dataDir,
                              po_SlotName = pg_SlotName (site_Postgres sc), po_DryRun = dryRun\<rparr> w of
                  (r, w1) \<Rightarrow> (of_error r, w1)))"

text \<open>One line per secondary, its end printed after the check; a mismatch is printed, and the loop goes on.\<close>

definition dbkey_verdict :: "string option \<Rightarrow> string" where
  "dbkey_verdict r = (case r of Some e \<Rightarrow> ''MISMATCH: '' @ e @ nl | None \<Rightarrow> ''OK'' @ nl)"

fun dbkey_loop :: "string \<Rightarrow> SiteConfig list \<Rightarrow> world \<Rightarrow> world" where
  "dbkey_loop primarySSH [] w = w"
| "dbkey_loop primarySSH (s # ss) w =
     (case dbkey_Check primarySSH (site_SSHHost s) (emit (Printed (''checking '' @ site_Name s @ '' ... '')) w) of
        (r, w1) \<Rightarrow> dbkey_loop primarySSH ss (emit (Printed (dbkey_verdict r)) w1))"

definition dbkey_cmd :: "Config \<Rightarrow> world \<Rightarrow> exit \<times> world" where
  "dbkey_cmd cfg w =
     (if Secondaries cfg = [] then (ExitErr ''no secondaries configured'', w)
      else (ExitOk, dbkey_loop (site_SSHHost (Primary cfg)) (Secondaries cfg) w))"

definition failover_cmd :: "Config \<Rightarrow> bool \<Rightarrow> string \<Rightarrow> bool \<Rightarrow> world \<Rightarrow> exit \<times> world" where
  "failover_cmd cfg dryRun secondaryName force w =
     (let name = (if secondaryName = []
                  then (case Secondaries cfg of s # _ \<Rightarrow> site_Name s | [] \<Rightarrow> []) else secondaryName)
      in if name = [] then (ExitErr ''--secondary is required (no secondaries in config)'', w)
         else if \<not> force \<and> \<not> dryRun then (ExitErr ''failover requires --yes or --dry-run'', w)
         else (case Promote (New cfg dryRun) name w of (r, w1) \<Rightarrow> (ExitFailover r, w1)))"

definition adopt_cmd :: "Config \<Rightarrow> bool \<Rightarrow> string \<Rightarrow> world \<Rightarrow> exit \<times> world" where
  "adopt_cmd cfg dryRun oldPrimarySSH w =
     (let old = (if oldPrimarySSH = [] then site_SSHHost (Primary cfg) else oldPrimarySSH)
      in if old = [] then (ExitErr ''--old-primary-ssh is required (or set primary.ssh_host in config)'', w)
         else (case AdoptAsSecondary (New cfg dryRun) old w of (r, w1) \<Rightarrow> (ExitFailover r, w1)))"

section \<open>Reports and the wizard\<close>

definition version_cmd :: "version_info \<Rightarrow> world \<Rightarrow> exit \<times> world" where
  "version_cmd i w = (ExitOk, emit (Printed (version_str i @ nl)) w)"

definition runbook_cmd :: "Config \<Rightarrow> world \<Rightarrow> exit \<times> world" where
  "runbook_cmd cfg w = (ExitOk, emit (Printed (rb_Generate cfg)) w)"

definition sla_cmd :: "string + metric_family list \<Rightarrow> int \<Rightarrow> world \<Rightarrow> exit \<times> world" where
  "sla_cmd gathered now w =
     (case sla_Generate gathered now of (r, ls) \<Rightarrow> (of_error r, print_all ls w))"

definition doctor_cmd :: "Config \<Rightarrow> world \<Rightarrow> exit \<times> world" where
  "doctor_cmd cfg w =
     (case doctor_Run cfg w of
        (r, w1) \<Rightarrow>
          (if dr_Fail r > 0 then ExitErr (''doctor: '' @ itoa (dr_Fail r) @ '' checks failed'') else ExitOk,
           doctor_Print r w1))"

definition next_steps :: "string \<Rightarrow> string list" where
  "next_steps path =
     [nl @ ''Config written to '' @ path @ nl, nl @ ''Next steps:'' @ nl,
      ''  1. Export the required environment variables:'' @ nl, ''     export PG_CTRL_PASSWORD=...'' @ nl,
      ''     export PG_REPL_PASSWORD=...'' @ nl, ''     export SEC_REPL_PASSWORD=...'' @ nl,
      ''     export S3_AK=...'' @ nl, ''     export S3_SK=...'' @ nl,
      ''  2. Run: geoctl doctor -c '' @ path @ nl,
      ''  3. Run: geoctl pg setup --secondary <name> --data-dir /var/opt/gitlab/postgresql/data'' @ nl,
      ''  4. Run: geoctl serve -c '' @ path @ nl]"

text \<open>Creating the file and writing it is one event; the text of the error is the creation's.\<close>

definition init_cmd :: "string \<Rightarrow> string \<Rightarrow> world \<Rightarrow> exit \<times> world" where
  "init_cmd outputPath input w =
     (case RunWithInput (input, w) of
        (answers, (rest, w1)) \<Rightarrow>
          (let path = (if outputPath = [] then ''config.yaml'' else outputPath)
           in case write_path path (GenerateYAML answers) w1 of
                (Some e, w2) \<Rightarrow> (ExitErr (''create '' @ path @ '': '' @ e), w2)
              | (None, w2) \<Rightarrow> (ExitOk, print_all (next_steps path) w2)))"

section \<open>Lemmas\<close>

lemma print_all_events: "extends w (print_all ls w) \<and> added w (print_all ls w) = map Printed ls"
  unfolding print_all_def
proof (induction ls arbitrary: w)
  case Nil
  then show ?case by simp
next
  case (Cons l ls)
  let ?w1 = "emit (Printed l) w"
  have "extends ?w1 (fold (\<lambda>l. emit (Printed l)) ls ?w1)" "added ?w1 (fold (\<lambda>l. emit (Printed l)) ls ?w1) = map Printed ls"
    using Cons by auto
  then show ?case using added_trans[OF extends_emit[of w "Printed l"]] extends_trans[OF extends_emit[of w "Printed l"]] by simp
qed

text \<open>A key mismatch does not fail the dbkey command: its status is 0 whatever the keys are.\<close>

lemma dbkey_cmd_never_fails: "Secondaries cfg \<noteq> [] \<Longrightarrow> exit_status (fst (dbkey_cmd cfg w)) = 0"
  by (simp add: dbkey_cmd_def)

lemma doctor_cmd_status: "exit_status (fst (doctor_cmd cfg w)) = (if dr_Fail (fst (doctor_Run cfg w)) > 0 then 1 else 0)"
  by (simp add: doctor_cmd_def split: prod.splits)

text \<open>
  The runbook tells the operator which command promotes the first secondary by hand; given as it
  stands there, without a confirmation, the command refuses.
\<close>

lemma runbook_failover_refused:
  assumes "firstSecondaryName cfg \<noteq> []"
  shows "(\<exists>a b. rb_Generate cfg = a @ (''    geoctl failover --secondary '' @ firstSecondaryName cfg) @ nl @ b) \<and>
    failover_cmd cfg False (firstSecondaryName cfg) False w = (ExitErr ''failover requires --yes or --dry-run'', w)"
  using runbook_contains[OF runbook_commands(1)] assms unfolding failover_cmd_def Let_def by simp

text \<open>The command for the role swap is the one that the adopt command takes by default.\<close>

lemma runbook_adopt_default:
  "adopt_cmd cfg dry (site_SSHHost (Primary cfg)) w = adopt_cmd cfg dry [] w"
  by (simp add: adopt_cmd_def)

text \<open>
  Nothing that the runbook command prints depends on a credential. The summary of config-validate
  hides them too, except that it prints the address of the control database as it stands, which
  may be a connection string with a password.
\<close>

lemma runbook_cmd_hides_credentials: "runbook_cmd (blank_credentials cfg) w = runbook_cmd cfg w"
  by (simp add: runbook_cmd_def runbook_hides_credentials)

lemma summary_hides_credentials:
  "butlast (summary_lines (blank_credentials cfg)) = butlast (summary_lines cfg)"
  by (simp add: summary_lines_def blank_credentials_def butlast_append o_def split: option.split)

lemma summary_shows_control_db: "last (summary_lines cfg) = ''control db: '' @ ControlDB cfg @ nl"
  by (simp add: summary_lines_def)

lemma sync_loop_confined:
  "sync_loop rcs w lg w' \<Longrightarrow> \<forall>rc \<in> set rcs. \<exists>m \<subseteq> M. confined_reconciler (rec_run rc) m \<Longrightarrow>
   extends w w' \<and> set (execs (added w w')) \<subseteq> M \<and> map fst lg = map rec_name rcs"
proof (induction rule: sync_loop.induct)
  case (sync_end w)
  then show ?case by simp
next
  case (sync_next rc w res w1 rcs lg w')
  let ?l = "Printed (sync_line (rec_name rc) res)"
  from sync_next.prems obtain m where m: "m \<subseteq> M" "confined_reconciler (rec_run rc) m" by auto
  have IH: "extends (emit ?l w1) w'" "set (execs (added (emit ?l w1) w')) \<subseteq> M" "map fst lg = map rec_name rcs"
    using sync_next by auto
  have "extends w1 w'" "set (execs (added w1 w')) \<subseteq> M"
    using extends_trans[OF extends_emit IH(1)] added_trans[OF extends_emit IH(1)] IH(2) by simp_all
  then show ?case using confined_reconciler.then_confined[OF m(2) sync_next(1) _ _ m(1)] IH(3) by simp
qed

lemma sync_loop_returns:
  "\<forall>rc \<in> set rcs. reconciler (rec_run rc) \<Longrightarrow> \<exists>lg w'. sync_loop rcs w lg w'"
proof (induction rcs arbitrary: w)
  case Nil
  then show ?case using sync_end by blast
next
  case (Cons rc rcs)
  obtain res w1 where 1: "rec_run rc w res w1" using reconciler.returns[of "rec_run rc" w] Cons.prems by auto
  obtain lg w' where "sync_loop rcs (emit (Printed (sync_line (rec_name rc) res)) w1) lg w'"
    using Cons by fastforce
  then show ?case using sync_next[of rc, OF 1] by blast
qed

lemma sync_cmd_returns: "\<exists>lg x w'. sync_cmd js aws cfg dry w lg x w'"
proof -
  obtain res w1 where b: "buildReconcilers aws cfg dry w = (res, w1)" by fastforce
  show ?thesis
  proof (cases res)
    case (Done rp)
    obtain recs pg where "rp = (recs, pg)" by fastforce
    moreover obtain lg w2 where "sync_loop (map (component_obj js) recs) w1 lg w2"
      using sync_loop_returns[of "map (component_obj js) recs" w1] component_reconciler by (auto simp: component_obj_def)
    ultimately show ?thesis using sync_ran b Done by blast
  next
    case (Failed e)
    then show ?thesis using sync_not_built b by blast
  next
    case (Panicked p)
    then show ?thesis using sync_panics b by blast
  qed
qed

lemma sync_ran_spec:
  assumes b: "buildReconcilers aws cfg dry w = (Done (recs, pg), w1)"
    and l: "sync_loop (map (component_obj js) recs) w1 lg w2"
  shows "map fst lg = expected_names cfg \<and> (\<forall>y \<in> set (execs (added w (pg_Close pg w2))). mirror_call cfg dry y)"
proof -
  have q: "execs (map Connect ds) = []" "execs (map CloseConn ds) = []" for ds by (induction ds) auto
  note n = build_names[OF b]
  note L = sync_loop_confined[OF l components_confined[OF built_calls[OF b]]]
  have 1: "extends w w1" "execs (added w w1) = []" using NewWithFactory_Inr[OF n(2)] q by auto
  have 2: "extends w1 w2" "set (execs (added w1 w2)) \<subseteq> Collect (mirror_call cfg dry)" using L by auto
  note 3 = pg_Close_events[OF n(2), of w2]
  have "added w (pg_Close pg w2) = added w w1 @ added w1 w2 @ added w2 (pg_Close pg w2)"
    by (simp add: added_trans[OF 1(1) extends_trans[OF 2(1) 3(1)]] added_trans[OF 2(1) 3(1)])
  then have "execs (added w (pg_Close pg w2)) = execs (added w1 w2)" using 1(2) 3(2) q by simp
  moreover have "map fst lg = map component_name recs" using L by (simp add: component_obj_def o_def)
  ultimately show ?thesis using 2(2) n(1) by auto
qed

text \<open>
  The connection string that pg setup hands to pg_basebackup already names the application, so a
  settings line that carries it is left as it is: the standby is not renamed after its slot.
\<close>

lemma setup_keeps_app_name:
  "update_lines slot ((conninfo_prefix @ q @ ReplicationDSN pg @ rest) # lines) =
     ((conninfo_prefix @ q @ ReplicationDSN pg @ rest) # lines, True)"
proof -
  have "\<exists>a b. ReplicationDSN pg = a @ appname_key @ b"
    unfolding ReplicationDSN_def buildDSN_def appname_key_def
    by (rule exI[of _ "write_pairs 0 (dsn_pairs pg (pg_ReplicationUser pg) (pg_ReplicationPassword pg) ''replication'') @ '' ''"],
        rule exI[of _ "''gitlab-geo-sync''"]) simp
  then obtain a b where d: "ReplicationDSN pg = a @ appname_key @ b" by blast
  have "conninfo_prefix @ q @ ReplicationDSN pg @ rest = (conninfo_prefix @ q @ a) @ appname_key @ (b @ rest)"
    unfolding d by (simp only: append.assoc)
  then have "str_contains (conninfo_prefix @ q @ ReplicationDSN pg @ rest) appname_key"
    unfolding str_contains_iff by blast
  moreover have "has_prefix (conninfo_prefix @ q @ ReplicationDSN pg @ rest) conninfo_prefix" by (rule has_prefix_append)
  ultimately show ?thesis unfolding update_lines.simps by (simp only: if_True)
qed

text \<open>A rehearsal, whether the secondary is known or not, runs nothing.\<close>

lemma rehearsal_quiet: "execs (added w (snd (Promote (New cfg True) n w))) = []"
proof (cases "fo_findSecondary (New cfg True) n")
  case None
  then show ?thesis using Promote_refused(1)[of "New cfg True" n w] by simp
next
  case (Some s)
  have "fc_dryRun (New cfg True)" by (simp add: New_def Let_def split: option.splits)
  then show ?thesis using promote_dry_run[OF _ Some] by simp
qed

section \<open>Properties\<close>

text \<open>C29. A sync always comes back with the whole picture: the command returns whatever the sites answer
  and whatever the components find, and then it has either reported one result for every component
  of the configuration, in their order, running mirror commands only, or it has failed before any
  component ran, with no command run at all; it never panics.\<close>

theorem sync_reports_all:
  "(\<exists>lg x w'. sync_cmd js aws cfg dry w lg x w') \<and>
   (\<forall>lg x w'. sync_cmd js aws cfg dry w lg x w' \<longrightarrow>
      (case x of
         ExitOk \<Rightarrow> map fst lg = expected_names cfg \<and> (\<forall>y \<in> set (execs (added w w')). mirror_call cfg dry y)
       | ExitErr e \<Rightarrow> lg = [] \<and> execs (added w w') = []
       | _ \<Rightarrow> False))"
proof -
  have "case x of
         ExitOk \<Rightarrow> map fst lg = expected_names cfg \<and> (\<forall>y \<in> set (execs (added w w')). mirror_call cfg dry y)
       | ExitErr e \<Rightarrow> lg = [] \<and> execs (added w w') = []
       | _ \<Rightarrow> False" if "sync_cmd js aws cfg dry w lg x w'" for lg x w'
    using that
  proof (rule sync_cmdE)
    fix e
    assume "lg = []" "x = ExitErr e" "buildReconcilers aws cfg dry w = (Failed e, w')"
    then show ?thesis using build_failed_quiet by simp
  next
    fix p
    assume "buildReconcilers aws cfg dry w = (Panicked p, w')"
    then show ?thesis by (cases rule: build_cases) simp_all
  next
    fix recs pg w1 w2
    assume "x = ExitOk" "w' = pg_Close pg w2" "buildReconcilers aws cfg dry w = (Done (recs, pg), w1)"
      "sync_loop (map (component_obj js) recs) w1 lg w2"
    then show ?thesis using sync_ran_spec by simp
  qed
  then show ?thesis using sync_cmd_returns by blast
qed

theorem sync_reports_all_witness:
  "\<exists>lg w'. sync_cmd \<lparr>dec_catalog = (\<lambda>_. Inr []), dec_tags = (\<lambda>_. Inr [])\<rparr> (\<lambda>_. None) sample_config True (calm_world [])
       lg ExitOk w' \<and> map fst lg = [''postgres'', ''git_fetch'', ''fs_storage'', ''consistency_sweep'']"
proof -
  let ?js = "\<lparr>dec_catalog = (\<lambda>_. Inr []), dec_tags = (\<lambda>_. Inr [])\<rparr>"
  obtain res w1 where B: "buildReconcilers (\<lambda>_. None) sample_config True (calm_world []) = (res, w1)" by fastforce
  have "built_names (fst (buildReconcilers (\<lambda>_. None) sample_config True (calm_world []))) \<noteq> []" by code_simp
  then obtain rp where r: "res = Done rp" using B by (cases res) (auto simp: built_names_def)
  note S = sync_reports_all[of ?js "\<lambda>_. None" sample_config True "calm_world []"]
  obtain lg x w' where c: "sync_cmd ?js (\<lambda>_. None) sample_config True (calm_world []) lg x w'" using S by blast
  then have x: "x = ExitOk" by (rule sync_cmdE) (use B r in simp_all)
  have "map fst lg = expected_names sample_config" using S c unfolding x by fastforce
  moreover have "expected_names sample_config = [''postgres'', ''git_fetch'', ''fs_storage'', ''consistency_sweep'']"
    by code_simp
  ultimately show ?thesis using c unfolding x by (intro exI conjI) simp_all
qed

text \<open>C12. The failover command cannot fail over: with every combination of its flags it runs no remote
  command, in whatever state the sites are, since the controller it builds has never seen the
  primary down; and unless it is a dry run it does not report success.\<close>

theorem failover_cmd_inert:
  "execs (added w (snd (failover_cmd cfg dry name force w))) = [] \<and>
   (if dry then True else exit_status (fst (failover_cmd cfg dry name force w)) = 1)"
proof -
  have real: "execs (added w (snd (Promote (New cfg False) n w))) = [] \<and>
      exit_status (ExitFailover (fst (Promote (New cfg False) n w))) = 1" for n
  proof -
    obtain r w1 where P: "Promote (New cfg False) n w = (r, w1)" by fastforce
    have "r \<noteq> Completed" "execs (added w w1) = []"
      using fresh_controller_never_promotes[of cfg n w] P by simp_all
    moreover have "r \<noteq> Crashed p" for p using Promote_no_crash[OF P] .
    ultimately show ?thesis using P by (cases r) auto
  qed
  note dr = rehearsal_quiet[of w cfg]
  define n where "n = (if name = [] then (case Secondaries cfg of s # _ \<Rightarrow> site_Name s | [] \<Rightarrow> []) else name)"
  obtain r w1 where P: "Promote (New cfg dry) n w = (r, w1)" by fastforce
  consider e where "failover_cmd cfg dry name force w = (ExitErr e, w)" | "failover_cmd cfg dry name force w = (ExitFailover r, w1)"
    unfolding failover_cmd_def n_def[symmetric] Let_def P prod.case by (cases "n = []"; cases "force \<or> dry") auto
  then show ?thesis
    using real[of n] dr[of n] P by cases (cases dry; simp)+
qed

end
