(* ===== verification/Interleave.thy ===== *)
theory Interleave
  imports Serve "HOL-Library.Sublist"
begin

text \<open>
  The serving process of \<open>cmd/geoctl/main.go\<close> event by event. Its goroutines are the actors: the
  runner, the health monitor, and one request handler with its job per webhook request. A history
  is a list of events, each with the actor that did it, in any interleaving; the events of one
  actor on their own are a prefix of what its code can do in some world. A world answers by
  the actor's own history and is unconstrained, so it stands for whatever the outside, changed
  by the other actors in between, answers. The runs of \<open>Serve\<close>, whose steps do not cut each other
  open, are among these histories.
\<close>

section \<open>Histories\<close>

datatype actor = Sweeping | Monitoring | Request nat

type_synonym history = "(actor \<times> event) list"

definition own :: "actor \<Rightarrow> history \<Rightarrow> event list" where
  "own a h = map snd (filter (\<lambda>x. fst x = a) h)"

lemma own_simps [simp]:
  "own a [] = []" "own a (x # h) = (if fst x = a then snd x # own a h else own a h)"
  "own a (h @ g) = own a h @ own a g" "own a (map (Pair b) es) = (if a = b then es else [])"
proof -
  show "own a (map (Pair b) es) = (if a = b then es else [])" by (induction es) (auto simp: own_def)
qed (simp_all add: own_def)

lemma own_member: "(a, e) \<in> set h \<Longrightarrow> e \<in> set (own a h)"
  by (auto simp: own_def image_iff)

lemma execs_set: "set (execs es) = (\<Union>e \<in> set es. set (execs [e]))"
proof (induction es)
  case (Cons e es)
  then show ?case by (cases e) auto
qed simp

lemma append_past:
  assumes "xs @ ls = pre @ e # post" and "e \<notin> set xs"
  shows "\<exists>q. pre = xs @ q"
proof -
  obtain us where "xs = pre @ us \<and> us @ ls = e # post \<or> xs @ us = pre"
    using assms(1) by (auto simp: append_eq_append_conv2)
  then show ?thesis using assms(2) by (cases us) auto
qed

lemma execs_prefix: "prefix es es' \<Longrightarrow> set (execs es) \<subseteq> set (execs es')"
  by (auto simp: prefix_def)

section \<open>The actors\<close>

text \<open>The runner: sweep after sweep.\<close>

inductive sweeps :: "reconciler_obj list \<Rightarrow> event list \<Rightarrow> bool" for rcs where
  sweeps_none: "sweeps rcs []"
| sweeps_more: "sweeps rcs h \<Longrightarrow> sweep rcs w w' \<Longrightarrow> sweeps rcs (h @ added w w')"

text \<open>The monitor: round after round on its controller, with the verdicts of the rounds, last first.\<close>

inductive rounds :: "controller \<Rightarrow> bool list \<Rightarrow> controller \<Rightarrow> event list \<Rightarrow> bool" for c0 where
  rounds_none: "rounds c0 [] c0 []"
| rounds_more: "rounds c0 vs c h \<Longrightarrow> check c w = Done (c', w') \<Longrightarrow>
    rounds c0 (round_failed c w # vs) c' (h @ added w w')"

definition health :: "controller \<Rightarrow> event list \<Rightarrow> bool" where
  "health c0 es \<longleftrightarrow> (\<exists>vs c. rounds c0 vs c es)"

text \<open>A request: its handler and, if that started one, its job.\<close>

inductive request ::
    "(string \<Rightarrow> string + string) \<Rightarrow> trigger_func \<Rightarrow> wh_server \<Rightarrow> event list \<Rightarrow> bool" for um trig srv where
  request_handled: "handleWebhook um srv rq jobs w = ((code, jobs'), w') \<Longrightarrow> request um trig srv (added w w')"
| request_job: "handleWebhook um srv rq jobs w = ((code, jobs @ [j]), w') \<Longrightarrow> trig (fst j) (snd j) v r v' \<Longrightarrow>
    request um trig srv (added w w' @ added v (finishJob j r v'))"

definition begun :: "(event list \<Rightarrow> bool) \<Rightarrow> event list \<Rightarrow> bool" where
  "begun P es \<longleftrightarrow> (\<exists>es'. P es' \<and> prefix es es')"

definition serve_history :: "(string \<Rightarrow> string + string) \<Rightarrow> serving \<Rightarrow> history \<Rightarrow> bool" where
  "serve_history um s h \<longleftrightarrow>
     begun (sweeps (ru_reconcilers (sv_runner s))) (own Sweeping h) \<and>
     (case sv_monitor s of
        Some c \<Rightarrow> begun (health c) (own Monitoring h)
      | None \<Rightarrow> own Monitoring h = []) \<and>
     (case sv_webhook s of
        Some (srv, trig) \<Rightarrow> \<forall>n. begun (request um trig srv) (own (Request n) h)
      | None \<Rightarrow> \<forall>n. own (Request n) h = [])"

section \<open>What each actor runs\<close>

lemma begunI: "P es \<Longrightarrow> begun P es"
  by (auto simp: begun_def)

lemma healthI: "rounds c0 vs c es \<Longrightarrow> begun (health c0) es"
  by (auto simp: begun_def health_def)

lemma begun_execs: "begun P es \<Longrightarrow> (\<And>es'. P es' \<Longrightarrow> set (execs es') \<subseteq> M) \<Longrightarrow> set (execs es) \<subseteq> M"
  using execs_prefix by (fastforce simp: begun_def)

lemma sweeps_execs:
  "sweeps rcs h \<Longrightarrow> \<forall>rc \<in> set rcs. \<exists>m \<subseteq> M. confined_reconciler (rec_run rc) m \<Longrightarrow> set (execs h) \<subseteq> M"
proof (induction rule: sweeps.induct)
  case (sweeps_more h w w')
  then show ?case using sweep_confined[of rcs w w' M] by simp
qed simp

lemma rounds_config:
  "rounds c0 vs c h \<Longrightarrow> fc_cfg c = fc_cfg c0 \<and> fc_dryRun c = fc_dryRun c0 \<and> fc_sshCfg c = fc_sshCfg c0 \<and>
     fc_autoFailover c = fc_autoFailover c0 \<and> fc_quorum c = fc_quorum c0 \<and> fc_healthURLs c = fc_healthURLs c0"
proof (induction rule: rounds.induct)
  case (rounds_more vs c h w c' w')
  then show ?case using check_ctl[OF rounds_more(2)] by simp
qed simp

lemma rounds_counter:
  "rounds c0 vs c h \<Longrightarrow> consecutiveFails c0 = 0 \<and> \<not> primaryDown c0 \<Longrightarrow>
     consecutiveFails c = streak vs \<and> (primaryDown c \<longleftrightarrow> 3 \<le> streak vs)"
proof (induction rule: rounds.induct)
  case (rounds_more vs c h w c' w')
  then show ?case using check_ctl[OF rounds_more(2)] by auto
qed simp

text \<open>A round polls every URL before it runs anything.\<close>

lemma check_polls:
  assumes "check c w = Done (c', w')"
  shows "\<exists>ls. added w w' = map (\<lambda>u. HttpGet u []) (fc_healthURLs c) @ ls"
proof -
  obtain n w1 where p: "poll_all (fc_healthURLs c) w = (n, w1)" by fastforce
  have 1: "extends w w1" "added w w1 = map (\<lambda>u. HttpGet u []) (fc_healthURLs c)"
    using poll_all_events[of w "fc_healthURLs c"] p by auto
  let ?w2 = "emit (Logged ''warn'' ''primary health check failed'') w1"
  let ?c1 = "c\<lparr>consecutiveFails := consecutiveFails c + 1, primaryDown := True\<rparr>"
  consider (down) "auto_promote ?c1 ?w2 = Done (c', w')" | (other) "w' = w1 \<or> w' = ?w2 \<or> (\<exists>e. w' = emit (Logged ''error'' e) ?w2)"
    using assms p by (auto simp: check_def Let_def split: if_splits)
  then have "extends w1 w'"
  proof cases
    case down
    then show ?thesis using auto_promote_execs[OF down] extends_trans[OF extends_emit] by blast
  qed (auto intro: extends_emitI)
  then show ?thesis using 1 by (simp add: added_trans[of w w1 w'])
qed

definition polls :: "event list \<Rightarrow> nat" where
  "polls es = length (filter (\<lambda>e. case e of HttpGet u t \<Rightarrow> True | _ \<Rightarrow> False) es)"

lemma polls_simps [simp]:
  "polls (xs @ ys) = polls xs + polls ys" "polls (map (\<lambda>u. HttpGet u []) us) = length us"
  by (simp_all add: polls_def o_def)

lemma execs_polls_only [simp]: "execs (map (\<lambda>u. HttpGet u []) us) = []"
  by (induction us) auto

text \<open>
  A command of the monitor comes after at least three whole rounds of polls, and only where the
  configuration of its controller lets it.
\<close>

lemma rounds_execs:
  "rounds c0 vs c h \<Longrightarrow> consecutiveFails c0 = 0 \<and> \<not> primaryDown c0 \<Longrightarrow>
   length vs * length (fc_healthURLs c0) \<le> polls h \<and>
   (\<forall>pre e post. h = pre @ e # post \<and> execs [e] \<noteq> [] \<longrightarrow>
      3 * length (fc_healthURLs c0) \<le> polls pre \<and> fc_autoFailover c0 \<and> \<not> fc_dryRun c0 \<and>
      sync_FailoverEnabled (Sync (fc_cfg c0)) \<and>
      (\<forall>x \<in> set (execs [e]). \<exists>host cmd. x = ssh_call (fc_sshCfg c0) host cmd))"
proof (induction rule: rounds.induct)
  case rounds_none
  then show ?case by (simp add: polls_def)
next
  case (rounds_more vs c h w c' w')
  let ?k = "length (fc_healthURLs c0)"
  note IH = rounds_more.IH[OF rounds_more.prems]
  have cf: "fc_cfg c = fc_cfg c0" "fc_dryRun c = fc_dryRun c0" "fc_sshCfg c = fc_sshCfg c0"
    "fc_autoFailover c = fc_autoFailover c0" "fc_healthURLs c = fc_healthURLs c0"
    using rounds_config[OF rounds_more.hyps(1)] by simp_all
  obtain ls where a: "added w w' = map (\<lambda>u. HttpGet u []) (fc_healthURLs c0) @ ls"
    using check_polls[OF rounds_more.hyps(2)] cf by auto
  have late: "3 * ?k \<le> polls pre \<and> fc_autoFailover c0 \<and> \<not> fc_dryRun c0 \<and> sync_FailoverEnabled (Sync (fc_cfg c0)) \<and>
      (\<forall>x \<in> set (execs [e]). \<exists>host cmd. x = ssh_call (fc_sshCfg c0) host cmd)"
    if d: "h @ added w w' = pre @ e # post" and e: "execs [e] \<noteq> []" for pre e post
  proof -
    consider post' where "h = pre @ e # post'" | pre' where "pre = h @ pre'" "added w w' = pre' @ e # post"
      using d by (auto simp: append_eq_append_conv2 append_eq_Cons_conv)
    then show ?thesis
    proof cases
      case 1
      then show ?thesis using IH e by blast
    next
      case (2 pre')
      have x: "set (execs [e]) \<subseteq> set (execs (added w w'))" unfolding 2 using execs_set[of "pre' @ e # post"] by auto
      then have ne: "execs (added w w') \<noteq> []" using e by auto
      have c: "consecutiveFails c + 1 \<ge> 3" "fc_autoFailover c0" "\<not> fc_dryRun c0" "sync_FailoverEnabled (Sync (fc_cfg c0))"
        using check_execs[OF rounds_more.hyps(2)] ne cf by auto
      have "consecutiveFails c \<le> int (length vs)"
        using rounds_counter[OF rounds_more.hyps(1) rounds_more.prems] length_takeWhile_le[of id vs]
        by (simp add: streak_def)
      then have "2 \<le> length vs" using c(1) by linarith
      then have "2 * ?k \<le> length vs * ?k" by simp
      then have h: "2 * ?k \<le> polls h" using IH by linarith
      have "e \<notin> set (map (\<lambda>u. HttpGet u []) (fc_healthURLs c0))" using e by auto
      then obtain q where "pre' = map (\<lambda>u. HttpGet u []) (fc_healthURLs c0) @ q"
        using append_past[of _ ls pre' e post] 2(2) unfolding a by blast
      then have "?k \<le> polls pre'" by simp
      moreover have "\<forall>x \<in> set (execs [e]). \<exists>host cmd. x = ssh_call (fc_sshCfg c0) host cmd"
        using check_ssh[OF rounds_more.hyps(2)] x cf by auto
      ultimately show ?thesis using c h 2(1) by simp
    qed
  qed
  have "Suc (length vs) * ?k \<le> polls (h @ added w w')" using IH a by simp
  then show ?case using late by auto
qed

lemma request_execs:
  assumes "request um trig srv es" and "\<And>p ev w r w'. trig p ev w r w' \<Longrightarrow> set (execs (added w w')) \<subseteq> M \<and> extends w w'"
  shows "set (execs es) \<subseteq> M"
  using assms(1)
proof cases
  case (request_handled rq jobs w code jobs' w')
  then show ?thesis using handle_cases by auto
next
  case (request_job rq jobs w code j w' v r v')
  have "extends v v'" "set (execs (added v v')) \<subseteq> M" using assms(2) request_job by blast+
  then show ?thesis
    using handle_cases[OF request_job(2)] finishJob_world[of v' j r] request_job(1)
    by (simp add: added_trans[of v v' "finishJob j r v'"])
qed

section \<open>What no actor does\<close>

lemma begun_observing: "begun P es \<Longrightarrow> (\<And>es'. P es' \<Longrightarrow> list_all observing es') \<Longrightarrow> list_all observing es"
  by (fastforce simp: begun_def prefix_def)

lemma sweeps_observing:
  "sweeps rcs h \<Longrightarrow> \<forall>rc \<in> set rcs. reading_reconciler (rec_run rc) \<Longrightarrow> list_all observing h"
proof (induction rule: sweeps.induct)
  case (sweeps_more h w w')
  then show ?case using sweep_reads[of rcs w w'] by (simp add: observes_def)
qed simp

lemma rounds_observing: "rounds c0 vs c h \<Longrightarrow> list_all observing h"
proof (induction rule: rounds.induct)
  case (rounds_more vs c h w c' w')
  then show ?case using check_observes[of c w c' w'] by (simp add: observes_def)
qed simp

lemma request_observing:
  assumes "request um trig srv es" and t: "\<And>p ev w r w'. trig p ev w r w' \<Longrightarrow> observes w w'"
  shows "list_all observing es"
  using assms(1)
proof cases
  case (request_handled rq jobs w code jobs' w')
  then show ?thesis using handle_observes by (auto simp: observes_def)
next
  case (request_job rq jobs w code j w' v r v')
  have "observes v (finishJob j r v')" by (rule observes_trans[OF t[OF request_job(3)] finishJob_observes])
  then show ?thesis using request_job(1) handle_observes[OF request_job(2)] by (simp add: observes_def)
qed

lemma history_observing:
  assumes start: "serve_start js aws cfg dry w0 = (Done s, w1)" and h: "serve_history um s h"
  shows "list_all observing (map snd h)"
proof -
  obtain recs pg wb wh where wh: "webhook_of cfg recs = Inr wh"
    and s: "s = \<lparr>sv_runner = NewRunner (sync_SweepInterval (Sync cfg)) (map (component_obj js) recs),
      sv_webhook = wh, sv_monitor = monitor_of cfg dry, sv_pools = pg\<rparr>"
    using start by (elim serve_start_Done)
  have "list_all observing (own Sweeping h)"
  proof (rule begun_observing)
    show "begun (sweeps (map (component_obj js) recs)) (own Sweeping h)"
      using h s by (simp add: serve_history_def NewRunner_def)
  qed (use sweeps_observing[OF _ components_read] in blast)
  moreover have "list_all observing (own Monitoring h)"
  proof (cases "sv_monitor s")
    case (Some c)
    then have "begun (health c) (own Monitoring h)" using h by (simp add: serve_history_def)
    then show ?thesis by (rule begun_observing) (auto simp: health_def dest: rounds_observing)
  qed (use h in \<open>simp add: serve_history_def\<close>)
  moreover have "list_all observing (own (Request n) h)" for n
  proof (cases wh)
    case None
    then show ?thesis using h s by (simp add: serve_history_def)
  next
    case (Some p)
    then obtain srv trig where p: "wh = Some (srv, trig)" by (cases p) auto
    then have t: "trig = managed (trigger_fetch (fetcher_of recs))" using webhook_of_Some wh by blast
    have "begun (request um trig srv) (own (Request n) h)" using h s p by (simp add: serve_history_def)
    then show ?thesis
      by (rule begun_observing) (rule request_observing, assumption, simp add: t trigger_fetch_observes)
  qed
  ultimately have "list_all observing (own a h)" for a by (cases a) auto
  then have "\<forall>(a, e) \<in> set h. observing e" using own_member by (fastforce simp: list_all_iff)
  then show ?thesis by (auto simp: list_all_iff)
qed

section \<open>The coarse runs are histories\<close>

text \<open>
  The state of a run that \<open>Serve\<close> reaches, seen as a history: every pending job belongs to a
  request whose handler has run and whose job has done nothing yet.
\<close>

definition pending ::
    "(string \<Rightarrow> string + string) \<Rightarrow> wh_server \<Rightarrow> history \<Rightarrow> job \<Rightarrow> nat \<Rightarrow> bool" where
  "pending um srv h j n \<longleftrightarrow>
     (\<exists>rq jobs w code w'. handleWebhook um srv rq jobs w = ((code, jobs @ [j]), w') \<and> own (Request n) h = added w w')"

definition requests_ok ::
    "(string \<Rightarrow> string + string) \<Rightarrow> (wh_server \<times> trigger_func) option \<Rightarrow> history \<Rightarrow> job list \<Rightarrow> nat list \<Rightarrow> bool" where
  "requests_ok um wh h jobs ns \<longleftrightarrow>
     (case wh of
        None \<Rightarrow> jobs = [] \<and> (\<forall>n. own (Request n) h = [])
      | Some (srv, trig) \<Rightarrow>
          (\<forall>n. begun (request um trig srv) (own (Request n) h)) \<and> list_all2 (pending um srv h) jobs ns \<and>
          distinct ns \<and> (\<exists>N. (\<forall>n \<ge> N. own (Request n) h = []) \<and> (\<forall>n \<in> set ns. n < N)))"

definition seen ::
    "(string \<Rightarrow> string + string) \<Rightarrow> serving \<Rightarrow> world \<Rightarrow> process \<Rightarrow> history \<Rightarrow> bool" where
  "seen um s w1 st h \<longleftrightarrow>
     (case st of (jobs, ctl, w) \<Rightarrow>
        extends w1 w \<and> map snd h = added w1 w \<and> sweeps (ru_reconcilers (sv_runner s)) (own Sweeping h) \<and>
        (case (sv_monitor s, ctl) of
           (Some c0, Some c) \<Rightarrow> \<exists>vs. rounds c0 vs c (own Monitoring h)
         | (None, None) \<Rightarrow> own Monitoring h = []
         | _ \<Rightarrow> False) \<and>
        (\<exists>ns. requests_ok um (sv_webhook s) h jobs ns))"

text \<open>Events of another actor change nothing for the requests.\<close>

lemma requests_ok_other:
  "a = Sweeping \<or> a = Monitoring \<Longrightarrow> requests_ok um wh (h @ map (Pair a) es) jobs ns = requests_ok um wh h jobs ns"
proof -
  assume "a = Sweeping \<or> a = Monitoring"
  then have o: "own (Request n) (h @ map (Pair a) es) = own (Request n) h" for n by auto
  then have "pending um srv (h @ map (Pair a) es) = pending um srv h" for srv by (simp add: pending_def fun_eq_iff)
  then show ?thesis by (simp only: requests_ok_def o)
qed

lemma begun_empty: "P es \<Longrightarrow> begun P []"
  by (auto simp: begun_def)

text \<open>A handled request takes the next free number.\<close>

lemma requests_ok_arrives:
  assumes ok: "requests_ok um (Some (srv, trig)) h jobs ns"
    and hd: "handleWebhook um srv rq jobs w = ((code, jobs'), w')"
  shows "\<exists>N ns'. requests_ok um (Some (srv, trig)) (h @ map (Pair (Request N)) (added w w')) jobs' ns'"
proof -
  obtain N where N: "\<forall>n \<ge> N. own (Request n) h = []" "\<forall>n \<in> set ns. n < N"
    using ok by (auto simp: requests_ok_def)
  let ?h = "h @ map (Pair (Request N)) (added w w')"
  have o: "own (Request n) ?h = (if n = N then added w w' else own (Request n) h)" for n using N by auto
  have b: "begun (request um trig srv) (own (Request n) ?h)" for n
  proof (cases "n = N")
    case True
    then show ?thesis unfolding o using begunI[of "request um trig srv", OF request_handled[OF hd]] by simp
  next
    case False
    then show ?thesis unfolding o using ok by (simp add: requests_ok_def)
  qed
  have keep: "pending um srv ?h j n \<longleftrightarrow> pending um srv h j n" if "n < N" for j n
    using that unfolding pending_def o by simp
  have l: "list_all2 (pending um srv ?h) jobs ns"
    using ok N(2) keep by (auto simp: requests_ok_def list_all2_conv_all_nth)
  have f: "\<forall>n \<ge> Suc N. own (Request n) ?h = []" using N o by auto
  have d: "distinct ns" using ok by (simp add: requests_ok_def)
  consider "jobs' = jobs" | p where "jobs' = jobs @ [(p, rq_Event rq)]"
    using handle_cases[OF hd] by (auto split: if_splits)
  then show ?thesis
  proof cases
    case 1
    then have "requests_ok um (Some (srv, trig)) ?h jobs' ns"
      using b l d f N by (auto simp: requests_ok_def intro!: exI[of _ "Suc N"])
    then show ?thesis by blast
  next
    case 2
    have "pending um srv ?h (p, rq_Event rq) N"
      unfolding pending_def o using hd 2 by (intro exI[of _ rq] exI[of _ jobs] exI[of _ w] exI[of _ code] exI[of _ w']) simp
    then have "list_all2 (pending um srv ?h) jobs' (ns @ [N])"
      unfolding 2 using l by (simp add: list_all2_appendI)
    then have "requests_ok um (Some (srv, trig)) ?h jobs' (ns @ [N])"
      using b d f N by (auto simp: requests_ok_def intro!: exI[of _ "Suc N"])
    then show ?thesis by blast
  qed
qed

text \<open>A finished job adds its events to those of its request.\<close>

lemma requests_ok_finishes:
  assumes ok: "requests_ok um (Some (srv, trig)) h (pre @ j # post) ns" and t: "trig (fst j) (snd j) w r w'"
  shows "\<exists>N ns'. requests_ok um (Some (srv, trig)) (h @ map (Pair (Request N)) (added w (finishJob j r w'))) (pre @ post) ns'"
proof -
  have l: "list_all2 (pending um srv h) (pre @ j # post) ns" and d: "distinct ns"
    using ok by (auto simp: requests_ok_def)
  obtain ns1 N ns2 where ns: "ns = ns1 @ N # ns2" "list_all2 (pending um srv h) pre ns1" "pending um srv h j N"
    "list_all2 (pending um srv h) post ns2"
    using l by (auto simp: list_all2_append1 list_all2_Cons1)
  let ?es = "added w (finishJob j r w')"
  let ?h = "h @ map (Pair (Request N)) ?es"
  have o: "own (Request n) ?h = (if n = N then own (Request N) h @ ?es else own (Request n) h)" for n by simp
  have "request um trig srv (own (Request N) h @ ?es)"
    using ns(3) request_job[where trig = trig and j = j, OF _ t] unfolding pending_def by auto
  then have r: "begun (request um trig srv) (own (Request N) h @ ?es)" by (rule begunI)
  have b: "begun (request um trig srv) (own (Request n) ?h)" for n
    unfolding o using ok r by (simp add: requests_ok_def)
  have keep: "list_all2 (pending um srv ?h) js ms" if "list_all2 (pending um srv h) js ms" "N \<notin> set ms" for js ms
  proof (rule list.rel_mono_strong[OF that(1)])
    fix i n
    assume "n \<in> set ms" "pending um srv h i n"
    then show "pending um srv ?h i n" using that(2) unfolding pending_def o by auto
  qed
  have "list_all2 (pending um srv ?h) (pre @ post) (ns1 @ ns2)"
    using ns d by (intro list_all2_appendI keep) auto
  moreover obtain M where "\<forall>n \<ge> M. own (Request n) h = []" "\<forall>n \<in> set ns. n < M"
    using ok by (auto simp: requests_ok_def)
  moreover from this have "\<forall>n \<ge> M. own (Request n) ?h = []" using o ns(1) by auto
  ultimately have "requests_ok um (Some (srv, trig)) ?h (pre @ post) (ns1 @ ns2)"
    using b d ns(1) by (auto simp: requests_ok_def)
  then show ?thesis by blast
qed

lemma step_extends:
  assumes "serve_start js aws cfg dry w0 = (Done s, w1)" and "serve_reach um s w1 (jobs, c, w)"
    and "serve_step um s (jobs, c, w) (jobs', c', w')"
  shows "extends w w'"
proof -
  have "process_ok cfg dry w (jobs, c, w)" using serve_reach_ok[OF assms(1,2)] by (simp add: process_ok_def)
  from serve_step_ok[OF assms(1) this assms(3)] show ?thesis by (simp add: process_ok_def)
qed

lemma seen_step:
  assumes start: "serve_start js aws cfg dry w0 = (Done s, w1)" and reach: "serve_reach um s w1 (jobs, c, w)"
    and v: "seen um s w1 (jobs, c, w) h" and step: "serve_step um s (jobs, c, w) (jobs', c', w')"
  shows "\<exists>h'. seen um s w1 (jobs', c', w') h'"
proof -
  have x: "extends w w'" by (rule step_extends[OF start reach step])
  have grow: "extends w1 w'" "\<And>a. map snd (h @ map (Pair a) (added w w')) = added w1 w'"
    using v x added_trans[of w1 w w'] by (auto simp: seen_def o_def intro: extends_trans)
  obtain ns where ns: "requests_ok um (sv_webhook s) h jobs ns" using v by (auto simp: seen_def)
  show ?thesis
    using step
  proof cases
    case serve_sweep
    have "seen um s w1 (jobs, c, w') (h @ map (Pair Sweeping) (added w w'))"
      using v grow ns sweeps_more[OF _ serve_sweep(3)] requests_ok_other[of Sweeping um "sv_webhook s" h]
      by (auto simp: seen_def split: option.splits)
    then show ?thesis using serve_sweep by blast
  next
    case (serve_hook srv trig)
    have "\<exists>N ns'. requests_ok um (sv_webhook s) (h @ map (Pair (Request N)) (added w w')) jobs' ns'"
      using serve_hook(3)
    proof cases
      case (arrives req code)
      then show ?thesis using requests_ok_arrives[of um srv trig h jobs ns] ns serve_hook(2) by simp
    next
      case (finishes j r v pre post)
      then show ?thesis using requests_ok_finishes[of um srv trig h pre j post ns w r v] ns serve_hook(2) by simp
    qed
    then obtain N ns' where "requests_ok um (sv_webhook s) (h @ map (Pair (Request N)) (added w w')) jobs' ns'" by blast
    then have "seen um s w1 (jobs', c, w') (h @ map (Pair (Request N)) (added w w'))"
      using v grow by (auto simp: seen_def split: option.splits)
    then show ?thesis using serve_hook(1) by blast
  next
    case (serve_health c0 c1)
    obtain c2 vs where "sv_monitor s = Some c2" "rounds c2 vs c0 (own Monitoring h)"
      using v serve_health(1) by (auto simp: seen_def split: option.splits)
    then have "rounds c2 (round_failed c0 w # vs) c1 (own Monitoring h @ added w w')" "sv_monitor s = Some c2"
      using rounds_more[OF _ serve_health(4)] by auto
    then have "seen um s w1 (jobs, Some c1, w') (h @ map (Pair Monitoring) (added w w'))"
      using v grow ns requests_ok_other[of Monitoring um "sv_webhook s" h]
      by (auto simp: seen_def)
    then show ?thesis using serve_health by blast
  qed
qed

lemma reached_seen:
  assumes "serve_start js aws cfg dry w0 = (Done s, w1)" and "serve_reach um s w1 st"
  shows "\<exists>h. seen um s w1 st h"
  using assms(2)
proof (induction rule: serve_reach.induct)
  case serve_begin
  have "sv_webhook s = Some (srv, trig) \<Longrightarrow> begun (request um trig srv) []" for srv trig
  proof -
    obtain r w' where "handleWebhook um srv \<lparr>rq_Method = [], rq_Token = [], rq_Event = [], rq_Body = [], rq_BodyErr = None\<rparr>
        [] w1 = (r, w')" by fastforce
    then show ?thesis using begun_empty[of "request um trig srv", OF request_handled] by (cases r) blast
  qed
  then have "requests_ok um (sv_webhook s) [] [] []" by (auto simp: requests_ok_def split: option.splits)
  then have "seen um s w1 ([], sv_monitor s, w1) []"
    using sweeps_none rounds_none by (auto simp: seen_def split: option.splits)
  then show ?case by blast
next
  case (serve_next st st')
  then obtain h where "seen um s w1 st h" by blast
  then show ?case using seen_step[OF assms(1)] serve_next(1,2) by (cases st; cases st') blast
qed

text \<open>
  The events of every run that \<open>Serve\<close> reaches are the events of a history, in the same order: the
  process event by event can do all that the process in coarse steps can.
\<close>

lemma coarse_runs_are_histories:
  assumes "serve_start js aws cfg dry w0 = (Done s, w1)" and "serve_reach um s w1 (jobs, c, w)"
  shows "\<exists>h. serve_history um s h \<and> map snd h = added w1 w"
proof -
  obtain h where v: "seen um s w1 (jobs, c, w) h" using reached_seen[OF assms] by blast
  then obtain ns where "requests_ok um (sv_webhook s) h jobs ns" by (auto simp: seen_def)
  then have "case sv_webhook s of
      Some (srv, trig) \<Rightarrow> \<forall>n. begun (request um trig srv) (own (Request n) h)
    | None \<Rightarrow> \<forall>n. own (Request n) h = []" by (auto simp: requests_ok_def split: option.splits)
  then have "serve_history um s h"
    using v begunI healthI by (auto simp: serve_history_def seen_def split: option.splits)
  then show ?thesis using v by (auto simp: seen_def)
qed

section \<open>Properties\<close>

text \<open>The commands of a request: fetches of the configured fetch component, if there is one.\<close>

definition hook_call :: "Config \<Rightarrow> bool \<Rightarrow> string \<times> string list \<Rightarrow> bool" where
  "hook_call cfg dry x \<longleftrightarrow>
     (\<exists>sc ss. Secondaries cfg = sc # ss \<and> git_Mode (site_Git (Primary cfg)) = ''fetch'' \<and> \<not> dry \<and>
        x \<in> fetch_calls (the_fetcher cfg sc dry))"

lemma history_calls:
  assumes start: "serve_start js aws cfg dry w0 = (Done s, w1)" and h: "serve_history um s h"
  shows "set (execs (own Sweeping h)) \<subseteq> Collect (mirror_call cfg dry)"
    and "set (execs (own (Request n) h)) \<subseteq> Collect (hook_call cfg dry)"
proof -
  obtain recs pg wb wh where b: "buildReconcilers aws cfg dry w0 = (Done (recs, pg), wb)" and wh: "webhook_of cfg recs = Inr wh"
    and s: "s = \<lparr>sv_runner = NewRunner (sync_SweepInterval (Sync cfg)) (map (component_obj js) recs),
      sv_webhook = wh, sv_monitor = monitor_of cfg dry, sv_pools = pg\<rparr>"
    using start by (elim serve_start_Done)
  have "begun (sweeps (map (component_obj js) recs)) (own Sweeping h)"
    using h s by (simp add: serve_history_def NewRunner_def)
  then show "set (execs (own Sweeping h)) \<subseteq> Collect (mirror_call cfg dry)"
    by (rule begun_execs) (rule sweeps_execs[OF _ components_confined[OF built_calls[OF b]]])
  show "set (execs (own (Request n) h)) \<subseteq> Collect (hook_call cfg dry)"
  proof (cases wh)
    case None
    then show ?thesis using h s by (simp add: serve_history_def)
  next
    case (Some p)
    then obtain srv trig where p: "wh = Some (srv, trig)" by (cases p) auto
    then have t: "trig = managed (trigger_fetch (fetcher_of recs))" using webhook_of_Some wh by blast
    have "set (execs (added w w')) \<subseteq> Collect (hook_call cfg dry) \<and> extends w w'" if "trig p ev w r w'" for p ev w r w'
      using trigger_fetch_calls[of "fetcher_of recs" p ev w r w'] that
      unfolding t fetcher_built[OF b]
      by (auto simp: hook_call_def fetch_calls_def the_fetcher_def gf_New_def split: list.splits if_splits)
    then have "\<And>es. request um trig srv es \<Longrightarrow> set (execs es) \<subseteq> Collect (hook_call cfg dry)"
      using request_execs by blast
    moreover have "begun (request um trig srv) (own (Request n) h)" using h s p by (simp add: serve_history_def)
    ultimately show ?thesis by (rule begun_execs[rotated])
  qed
qed

text \<open>What the start runs, and what an event of the running process does.\<close>

lemma start_calls:
  assumes "serve_start js aws cfg dry w0 = (Done s, w1)"
  shows "\<forall>x \<in> set (execs (added w0 w1)). sync_ReadOnlySecondary (Sync cfg) \<and> \<not> dry \<and>
      (\<exists>sc \<in> set (Secondaries cfg). \<exists>cmd \<in> set enable_cmds. x = ssh_call ssh_Default (site_SSHHost sc) cmd)"
  using serve_confined[OF assms serve_begin] by blast

lemma event_calls:
  assumes start: "serve_start js aws cfg dry w0 = (Done s, w1)" "serve_history um s h"
    and h: "h = pre @ (a, e) # post" and x: "x \<in> set (execs [e])"
  shows "case a of
       Sweeping \<Rightarrow> mirror_call cfg dry x
     | Request n \<Rightarrow> hook_call cfg dry x
     | Monitoring \<Rightarrow> failover_call cfg dry x \<and>
         3 * length (fc_healthURLs (New cfg dry)) \<le> polls (own Monitoring pre)"
proof -
  have m: "sv_monitor s = monitor_of cfg dry" using start(1) by (elim serve_start_Done) simp
  have own: "x \<in> set (execs (own a h))"
    using x own_member[of a e h] h execs_set[of "own a h"] by auto
  show ?thesis
  proof (cases a)
    case Sweeping
    then show ?thesis using own history_calls(1)[OF start] by auto
  next
    case (Request n)
    then show ?thesis using own history_calls(2)[OF start] by auto
  next
    case Monitoring
    let ?c = "New cfg dry"
    have o: "own Monitoring h = own Monitoring pre @ e # own Monitoring post" using h Monitoring by simp
    then have "monitor_of cfg dry = Some ?c" "begun (health ?c) (own Monitoring h)"
      using start(2) m by (auto simp: serve_history_def monitor_of_def split: option.splits if_splits)
    then obtain vs c es where "rounds ?c vs c (own Monitoring h @ es)"
      by (auto simp: begun_def health_def prefix_def)
    then have r: "rounds ?c vs c (own Monitoring pre @ e # (own Monitoring post @ es))" unfolding o by simp
    have z: "consecutiveFails ?c = 0 \<and> \<not> primaryDown ?c" by (simp add: New_def Let_def split: option.splits)
    have q: "3 * length (fc_healthURLs ?c) \<le> polls (own Monitoring pre) \<and> fc_autoFailover ?c \<and> \<not> fc_dryRun ?c \<and>
        sync_FailoverEnabled (Sync (fc_cfg ?c)) \<and> (\<forall>x \<in> set (execs [e]). \<exists>host cmd. x = ssh_call (fc_sshCfg ?c) host cmd)"
      using rounds_execs[OF r z] x by fastforce
    have "fc_cfg ?c = cfg" "fc_sshCfg ?c = SSHExecConfig cfg" "fc_dryRun ?c = dry"
      "fc_autoFailover ?c \<Longrightarrow> \<exists>f. Failover cfg = Some f \<and> fo_AutoFailover f"
      by (auto simp: New_def Let_def split: option.splits)
    then show ?thesis using q x Monitoring by (auto simp: failover_call_def)
  qed
qed

text \<open>C3. A serving process does nothing but mirror, unless it is told to fail over, event by event. Its
  start runs only the read-only commands on the secondaries, and these only if configured and in
  no dry run. From then on, whatever requests arrive, however the events of the runner, the monitor
  and the requests interleave, and whatever the sites answer to each of them: a command of the
  runner is an rsync or fetch from the primary into the first secondary's paths, or an fsck there;
  a command of a request is a fetch of the fetch component, in fetch mode and no dry run; and a
  command of the monitor is an ssh command, only with automatic failover enabled and in no dry
  run, and only after the monitor has polled every health URL at least three times.\<close>

theorem serve_events_confined:
  assumes "serve_start js aws cfg dry w0 = (Done s, w1)" and "serve_history um s h"
  shows "(\<forall>x \<in> set (execs (added w0 w1)). sync_ReadOnlySecondary (Sync cfg) \<and> \<not> dry \<and>
      (\<exists>sc \<in> set (Secondaries cfg). \<exists>cmd \<in> set enable_cmds. x = ssh_call ssh_Default (site_SSHHost sc) cmd)) \<and>
    (\<forall>pre a e post. h = pre @ (a, e) # post \<longrightarrow> (\<forall>x \<in> set (execs [e]).
       case a of
         Sweeping \<Rightarrow> mirror_call cfg dry x
       | Request n \<Rightarrow> hook_call cfg dry x
       | Monitoring \<Rightarrow> failover_call cfg dry x \<and>
           3 * length (fc_healthURLs (New cfg dry)) \<le> polls (own Monitoring pre)))"
  using start_calls[OF assms(1)] event_calls[OF assms] by blast

theorem serve_events_confined_witness:
  "\<exists>js s w1 h pre e post x. serve_start js (\<lambda>_. None) auto_config False (calm_world []) = (Done s, w1) \<and>
     serve_history (\<lambda>_. Inl []) s h \<and> h = pre @ (Monitoring, e) # post \<and> x \<in> set (execs [e]) \<and>
     failover_call auto_config False x \<and> 3 \<le> polls (own Monitoring pre)"
proof -
  let ?js = "\<lparr>dec_catalog = (\<lambda>_. Inr []), dec_tags = (\<lambda>_. Inr [])\<rparr>" and ?c = "New auto_config False"
  obtain res w1 where B: "buildReconcilers (\<lambda>_. None) auto_config False (calm_world []) = (res, w1)" by fastforce
  have "built_names (fst (buildReconcilers (\<lambda>_. None) auto_config False (calm_world []))) \<noteq> []" by code_simp
  then obtain rp where r: "res = Done rp" using B by (cases res) (auto simp: built_names_def)
  have c: "\<not> sync_ReadOnlySecondary (Sync auto_config)" "Webhook auto_config = None"
    "monitor_of auto_config False = Some ?c" "fc_healthURLs ?c \<noteq> []"
    by code_simp+
  obtain s where s: "serve_start ?js (\<lambda>_. None) auto_config False (calm_world []) = (Done s, w1)"
    and sv: "sv_monitor s = Some ?c" "sv_webhook s = None"
    using B r c by (cases rp) (simp add: serve_start_def webhook_of_def)
  have t: "ran_commands two_bad three_bad" by code_simp
  then obtain c2 w2 c3 w3 where 2: "two_bad = Done (c2, w2)" and 3: "three_bad = Done (c3, w3)"
    and ne: "execs (added w2 w3) \<noteq> []"
    using ran_commands_Done by blast
  obtain ca wa where 1: "check ?c dead_world = Done (ca, wa)" "check ca wa = Done (c2, w2)"
    using 2 by (auto simp: two_bad_def split: outcome.splits)
  have "check c2 w2 = Done (c3, w3)" using 3 unfolding three_bad_def 2 by simp
  from rounds_more[OF rounds_more[OF rounds_more[OF rounds_none 1(1)] 1(2)] this]
  obtain vs es where es: "rounds ?c vs c3 es" "execs es \<noteq> []" using ne by fastforce
  let ?h = "map (Pair Monitoring) es"
  have h: "serve_history (\<lambda>_. Inl []) s ?h"
    using sv healthI[OF es(1)] begunI[of "sweeps (ru_reconcilers (sv_runner s))", OF sweeps_none] by (simp add: serve_history_def)
  obtain x where "x \<in> set (execs es)" using es(2) by (cases "execs es") auto
  then obtain e where e: "e \<in> set es" "x \<in> set (execs [e])" using execs_set[of es] by auto
  then obtain pre post where "es = pre @ e # post" by (meson split_list)
  then have sp: "?h = map (Pair Monitoring) pre @ (Monitoring, e) # map (Pair Monitoring) post" by simp
  have "failover_call auto_config False x \<and> 3 * length (fc_healthURLs ?c) \<le> polls (own Monitoring (map (Pair Monitoring) pre))"
    using serve_events_confined[OF s h] sp e(2) by fastforce
  moreover have "1 \<le> length (fc_healthURLs ?c)" using c(4) by (cases "fc_healthURLs ?c") auto
  ultimately have "failover_call auto_config False x" "3 \<le> polls (own Monitoring (map (Pair Monitoring) pre))" by linarith+
  then show ?thesis using s h sp e(2) by blast
qed

end
