(* ===== verification/Cli.thy ===== *)
theory Cli
  imports Commands Interleave
begin

text \<open>
  The command line of \<open>cmd/geoctl/main.go\<close>: the tree of commands with their flags, the body each of
  them runs, and \<open>main\<close>, which turns an error into a line and a status. Reading the arguments is
  the work of the library cobra and a parameter here: it refuses them, prints a help text, or
  chooses a command and reports the flags that were set. What the bodies do is in \<open>Commands\<close>, and
  for serve, event by event, in \<open>Interleave\<close>.
\<close>

section \<open>The command tree\<close>

datatype flag_value = StringValue string | BoolValue bool

record flag_decl =
  fl_name :: string
  fl_short :: string
  fl_default :: flag_value
  fl_usage :: string

definition StringVarP :: "string \<Rightarrow> string \<Rightarrow> string \<Rightarrow> string \<Rightarrow> flag_decl" where
  "StringVarP name shorthand value usage =
     \<lparr>fl_name = name, fl_short = shorthand, fl_default = StringValue value, fl_usage = usage\<rparr>"

definition StringVar :: "string \<Rightarrow> string \<Rightarrow> string \<Rightarrow> flag_decl" where
  "StringVar name = StringVarP name []"

definition BoolVar :: "string \<Rightarrow> bool \<Rightarrow> string \<Rightarrow> flag_decl" where
  "BoolVar name value usage =
     \<lparr>fl_name = name, fl_short = [], fl_default = BoolValue value, fl_usage = usage\<rparr>"

text \<open>The bodies, by the command that has them.\<close>

datatype action =
    RunVersion | RunConfigValidate | RunServe | RunPGSetup | RunPGStatus | RunSync | RunDBKey
  | RunFailover | RunAdopt | RunRunbook | RunSLA | RunDoctor | RunInit

text \<open>\<open>cm_silent\<close> stands for SilenceUsage and SilenceErrors, which are always set together.\<close>

datatype command =
  Command (cm_use: string) (cm_short: string) (cm_long: string) (cm_silent: bool)
    (cm_persistent: "flag_decl list") (cm_flags: "flag_decl list") (cm_required: "string list")
    (cm_run: "action option") (cm_subs: "command list")

definition plain_command :: "string \<Rightarrow> string \<Rightarrow> flag_decl list \<Rightarrow> action \<Rightarrow> command" where
  "plain_command name descr flags a = Command name descr [] True [] flags [] (Some a) []"

definition newVersionCmd :: command where
  "newVersionCmd = plain_command ''version'' ''Print build version and exit'' [] RunVersion"

definition newConfigValidateCmd :: command where
  "newConfigValidateCmd =
     plain_command ''config-validate'' ''Load and validate config, printing a summary'' [] RunConfigValidate"

definition newServeCmd :: command where
  "newServeCmd =
     plain_command ''serve'' ''Run the sync engine: reconcilers + metrics + webhook + failover'' [] RunServe"

definition setup_flags :: "flag_decl list" where
  "setup_flags =
     [StringVar ''data-dir'' [] ''secondary PGDATA path (required)'',
      StringVar ''secondary'' [] ''name of the secondary in config (required)'']"

definition newPGSetupCmd :: command where
  "newPGSetupCmd =
     Command ''setup'' ''Bootstrap a secondary as a physical streaming replica via pg_basebackup'' [] False []
       setup_flags [''secondary''] (Some RunPGSetup) []"

definition newPGStatusCmd :: command where
  "newPGStatusCmd =
     Command ''status'' ''Show current PostgreSQL replication lag and standby state'' [] False [] [] []
       (Some RunPGStatus) []"

definition newPGCmd :: command where
  "newPGCmd =
     Command ''pg'' ''PostgreSQL replication management'' [] True [] [] [] None [newPGSetupCmd, newPGStatusCmd]"

definition newSyncCmd :: command where
  "newSyncCmd = plain_command ''sync'' ''Run a single reconciliation sweep and print results'' [] RunSync"

definition newDBKeyCmd :: command where
  "newDBKeyCmd =
     plain_command ''dbkey'' ''Verify db_key_base parity between primary and secondary'' [] RunDBKey"

definition failover_flags :: "flag_decl list" where
  "failover_flags =
     [StringVar ''secondary'' [] ''name of the secondary to promote'',
      BoolVar ''yes'' False ''confirm failover (required without --dry-run)'']"

definition newFailoverCmd :: command where
  "newFailoverCmd =
     plain_command ''failover'' ''Promote a secondary to primary (human-gated)'' failover_flags RunFailover"

definition adopt_flags :: "flag_decl list" where
  "adopt_flags = [StringVar ''old-primary-ssh'' [] ''SSH host:port of the old primary'']"

definition newAdoptCmd :: command where
  "newAdoptCmd =
     plain_command ''adopt-as-secondary''
       ''Convert the old primary into a secondary of the new primary (role-swap)'' adopt_flags RunAdopt"

definition newRunbookCmd :: command where
  "newRunbookCmd =
     plain_command ''runbook'' ''Generate an operational runbook from your config'' [] RunRunbook"

definition newSLACmd :: command where
  "newSLACmd = plain_command ''sla'' ''Print RPO/RTO and lag summary from current metrics'' [] RunSLA"

definition newDoctorCmd :: command where
  "newDoctorCmd = plain_command ''doctor'' ''Check prerequisites on primary and secondary sites'' [] RunDoctor"

definition init_flags :: "flag_decl list" where
  "init_flags = [StringVarP ''output'' ''o'' ''config.yaml'' ''output config path'']"

definition newInitCmd :: command where
  "newInitCmd = plain_command ''init'' ''Generate a config.yaml via interactive wizard'' init_flags RunInit"

definition persistent_flags :: "flag_decl list" where
  "persistent_flags =
     [StringVarP ''config'' ''c'' ''config.yaml'' ''path to config YAML (default: config.yaml)'',
      StringVar ''log-level'' [] ''log level (trace|debug|info|warn|error); overrides config'',
      StringVar ''log-format'' [] ''log format (json|text); overrides config'',
      BoolVar ''dry-run'' False ''print actions without performing them (where supported)'']"

definition longHelp :: string where
  "longHelp =
     ''geoctl orchestrates infrastructure-level (Postgres WAL + object/git'' @ nl @
     ''storage replication) one-to-one mirroring between self-hosted GitLab'' @ nl @
     ''instances. It does NOT use GitLab'' @ [CHR 0x27] @ ''s proprietary Geo feature; all'' @ nl @
     ''replication is performed via documented Postgres/S3/git interfaces.''"

definition newRootCmd :: command where
  "newRootCmd =
     Command ''geoctl'' ''gitlab-geo-sync control plane'' longHelp True persistent_flags [] [] None
       [newVersionCmd, newConfigValidateCmd, newServeCmd, newPGCmd, newSyncCmd, newDBKeyCmd, newFailoverCmd,
        newAdoptCmd, newRunbookCmd, newSLACmd, newDoctorCmd, newInitCmd]"

fun find_command :: "command \<Rightarrow> string list \<Rightarrow> command option" where
  "find_command c [] = Some c"
| "find_command c (n # ns) =
     (case find (\<lambda>s. cm_use s = n) (cm_subs c) of Some s \<Rightarrow> find_command s ns | None \<Rightarrow> None)"

section \<open>The values of the flags\<close>

text \<open>
  The assignments that the library makes to the flag variables, in order. Before them a variable
  holds the default of its declaration, and the last one counts.
\<close>

type_synonym settings = "(string \<times> flag_value) list"

definition flag_setting :: "flag_decl list \<Rightarrow> settings \<Rightarrow> string \<Rightarrow> flag_value option" where
  "flag_setting decls st name =
     (case map_of (rev st) name of
        Some v \<Rightarrow> Some v
      | None \<Rightarrow> map_option fl_default (find (\<lambda>d. fl_name d = name) decls))"

definition string_flag :: "flag_decl list \<Rightarrow> settings \<Rightarrow> string \<Rightarrow> string" where
  "string_flag decls st name = (case flag_setting decls st name of Some (StringValue s) \<Rightarrow> s | _ \<Rightarrow> [])"

definition bool_flag :: "flag_decl list \<Rightarrow> settings \<Rightarrow> string \<Rightarrow> bool" where
  "bool_flag decls st name \<longleftrightarrow> flag_setting decls st name = Some (BoolValue True)"

definition globals :: "settings \<Rightarrow> global_flags" where
  "globals st =
     \<lparr>gl_configPath = string_flag persistent_flags st ''config'',
      gl_logLevel = string_flag persistent_flags st ''log-level'',
      gl_logFormat = string_flag persistent_flags st ''log-format'',
      gl_dryRun = bool_flag persistent_flags st ''dry-run''\<rparr>"

section \<open>Running a command\<close>

datatype parsed = Refused string | Helped string | Chosen "string list" settings

text \<open>What the program takes from outside the repository besides the answers of the world.\<close>

record platform =
  pf_parse :: "command \<Rightarrow> string list \<Rightarrow> parsed"
  pf_read_file :: "string \<Rightarrow> string + string"
  pf_yaml :: "string \<Rightarrow> string + Config"
  pf_env :: environment
  pf_aws :: "S3Config \<Rightarrow> string option"
  pf_registry_json :: reg_json
  pf_webhook_json :: "string \<Rightarrow> string + string"
  pf_gathered :: "string + metric_family list"
  pf_now :: int
  pf_build :: version_info
  pf_stdin :: string

definition load :: "platform \<Rightarrow> settings \<Rightarrow> exit + Config \<times> logger" where
  "load pf st = loadConfig (pf_read_file pf) (pf_yaml pf) (pf_env pf) (globals st)"

text \<open>
  The serve command on the events of its goroutines, which go on while it tells that it serves. The runner is started before the webhook
  receiver is built, so a receiver that cannot be built ends a command whose runner may already have
  done something. Up to the line it prints, the coarse runs of \<open>serve_cmd\<close> are among these, see
  \<open>serve_cmd_runs\<close>.
\<close>

definition serving_line :: event where
  "serving_line = Printed (''gitlab-geo-sync serving; reconcilers running'' @ nl)"

inductive serve_events_cmd :: "platform \<Rightarrow> Config \<Rightarrow> bool \<Rightarrow> world \<Rightarrow> exit \<Rightarrow> world \<Rightarrow> bool"
  for pf cfg dryRun w where
  events_not_started: "serve_start (pf_registry_json pf) (pf_aws pf) cfg dryRun w = (Failed e, w1) \<Longrightarrow>
    serve_events_cmd pf cfg dryRun w (ExitErr e) w1"
| events_panic: "serve_start (pf_registry_json pf) (pf_aws pf) cfg dryRun w = (Panicked p, w1) \<Longrightarrow>
    serve_events_cmd pf cfg dryRun w (ExitPanic p) w1"
| events_no_hook: "buildReconcilers (pf_aws pf) cfg dryRun w = (Done (recs, pg), w1) \<Longrightarrow>
    (if sync_ReadOnlySecondary (Sync cfg) then enable_secondaries dryRun (Secondaries cfg) w1 else (None, w1)) =
      (None, w2) \<Longrightarrow>
    webhook_of cfg recs = Inl e \<Longrightarrow>
    begun (sweeps (map (component_obj (pf_registry_json pf)) recs)) es \<Longrightarrow>
    serve_events_cmd pf cfg dryRun w (ExitErr e) (pg_Close pg (w2\<lparr>trace := trace w2 @ es\<rparr>))"
| events_end: "serve_start (pf_registry_json pf) (pf_aws pf) cfg dryRun w = (Done s, w1) \<Longrightarrow>
    serve_history (pf_webhook_json pf) s (h1 @ h2) \<Longrightarrow>
    serve_events_cmd pf cfg dryRun w (serve_result h)
      (pg_Close (sv_pools s) (w1\<lparr>trace := trace w1 @ map snd h1 @ serving_line # map snd h2\<rparr>))"

inductive_cases serve_events_cmdE: "serve_events_cmd pf cfg dryRun w x w'"

text \<open>The bodies that are functions: those without a configuration, and those with one.\<close>

fun bare_action :: "platform \<Rightarrow> settings \<Rightarrow> action \<Rightarrow> (world \<Rightarrow> exit \<times> world) option" where
  "bare_action pf st RunVersion = Some (version_cmd (pf_build pf))"
| "bare_action pf st RunSLA = Some (sla_cmd (pf_gathered pf) (pf_now pf))"
| "bare_action pf st RunInit = Some (init_cmd (string_flag init_flags st ''output'') (pf_stdin pf))"
| "bare_action pf st _ = None"

fun site_action :: "settings \<Rightarrow> action \<Rightarrow> Config \<Rightarrow> (world \<Rightarrow> exit \<times> world) option" where
  "site_action st RunConfigValidate cfg = Some (validate_cmd cfg)"
| "site_action st RunPGSetup cfg =
     Some (pg_setup_cmd cfg (gl_dryRun (globals st)) (string_flag setup_flags st ''data-dir'')
             (string_flag setup_flags st ''secondary''))"
| "site_action st RunPGStatus cfg = Some (pg_status_cmd cfg)"
| "site_action st RunDBKey cfg = Some (dbkey_cmd cfg)"
| "site_action st RunFailover cfg =
     Some (failover_cmd cfg (gl_dryRun (globals st)) (string_flag failover_flags st ''secondary'')
             (bool_flag failover_flags st ''yes''))"
| "site_action st RunAdopt cfg =
     Some (adopt_cmd cfg (gl_dryRun (globals st)) (string_flag adopt_flags st ''old-primary-ssh''))"
| "site_action st RunRunbook cfg = Some (runbook_cmd cfg)"
| "site_action st RunDoctor cfg = Some (doctor_cmd cfg)"
| "site_action st _ cfg = None"

inductive run_on :: "platform \<Rightarrow> settings \<Rightarrow> Config \<Rightarrow> action \<Rightarrow> world \<Rightarrow> exit \<Rightarrow> world \<Rightarrow> bool"
  for pf st cfg where
  on_site: "site_action st a cfg = Some f \<Longrightarrow> f w = (x, w') \<Longrightarrow> run_on pf st cfg a w x w'"
| on_sync: "sync_cmd (pf_registry_json pf) (pf_aws pf) cfg (gl_dryRun (globals st)) w lg x w' \<Longrightarrow>
    run_on pf st cfg RunSync w x w'"
| on_serve: "serve_events_cmd pf cfg (gl_dryRun (globals st)) w x w' \<Longrightarrow> run_on pf st cfg RunServe w x w'"

inductive_cases run_onE: "run_on pf st cfg a w x w'"

definition needs_config :: "action \<Rightarrow> bool" where
  "needs_config a \<longleftrightarrow> a \<notin> {RunVersion, RunSLA, RunInit}"

text \<open>A body: without a configuration, or refused by the loader, or on the configuration it loaded.\<close>

inductive runE :: "platform \<Rightarrow> settings \<Rightarrow> action \<Rightarrow> world \<Rightarrow> exit \<Rightarrow> world \<Rightarrow> bool" for pf st where
  run_bare: "bare_action pf st a = Some f \<Longrightarrow> f w = (x, w') \<Longrightarrow> runE pf st a w x w'"
| run_unloaded: "needs_config a \<Longrightarrow> load pf st = Inl x \<Longrightarrow> runE pf st a w x w"
| run_loaded: "needs_config a \<Longrightarrow> load pf st = Inr (cfg, lg) \<Longrightarrow> run_on pf st cfg a w x w' \<Longrightarrow> runE pf st a w x w'"

inductive_cases runE_cases: "runE pf st a w x w'"

section \<open>main\<close>

text \<open>The texts of the errors.\<close>

definition required_note :: "string \<Rightarrow> string" where
  "required_note f =
     (if f = ''primary.postgres.replication_password'' then '' (via env)''
      else if f = ''primary.git.mode'' then '' (rsync|fetch)''
      else if f = ''primary.git.repos_path'' then '' when mode=rsync'' else [])"

definition nth_secondary :: "nat \<Rightarrow> string" where
  "nth_secondary i = ''secondaries['' @ itoa (int i) @ '']''"

fun config_error_text :: "config_error \<Rightarrow> string" where
  "config_error_text (Required f) = f @ '' is required'' @ required_note f"
| "config_error_text (GitModeInvalid m) = ''primary.git.mode '' @ go_quote m @ '' invalid; want rsync or fetch''"
| "config_error_text NoSecondary = ''at least one secondary is required''"
| "config_error_text (SecondaryNameRequired i) = nth_secondary i @ ''.name is required''"
| "config_error_text (SecondaryNameDuplicated i n) = nth_secondary i @ ''.name '' @ go_quote n @ '' duplicated''"
| "config_error_text (SecondaryHostRequired i) = nth_secondary i @ ''.postgres.host is required''"
| "config_error_text (SecondaryPasswordRequired i) =
     nth_secondary i @ ''.postgres.replication_password is required (via env)''"

fun load_error_text :: "load_error \<Rightarrow> string" where
  "load_error_text (ReadError e) = e"
| "load_error_text (ParseError e) = e"
| "load_error_text (EnvError e) = e"
| "load_error_text (Invalid errs) = str_join nl (map config_error_text errs)"

fun failover_text :: "action \<Rightarrow> fo_result \<Rightarrow> string option" where
  "failover_text a Completed = None"
| "failover_text a (SecondaryNotFound n) = Some (''secondary '' @ go_quote n @ '' not found'')"
| "failover_text a FailoverDisabled =
     Some (''failover is disabled in config'' @ (if a = RunAdopt then [] else '' (sync.failover_enabled=false)''))"
| "failover_text a (StepFailed n e) =
     Some ((if a = RunAdopt then ''role-swap step '' else ''step '') @ go_quote n @ '': '' @ e)"
| "failover_text a (Crashed p) = None"

fun error_text :: "action \<Rightarrow> exit \<Rightarrow> string option" where
  "error_text a ExitOk = None"
| "error_text a (ExitErr e) = Some e"
| "error_text a (ExitLoad e) = Some (load_error_text e)"
| "error_text a (ExitFailover r) = failover_text a r"
| "error_text a (ExitPanic p) = None"

text \<open>The line on standard error; the trace the runtime prints for a panic is left out.\<close>

definition error_line :: "string \<Rightarrow> event" where
  "error_line e = Printed (''error: '' @ e @ nl)"

definition report :: "action \<Rightarrow> exit \<Rightarrow> world \<Rightarrow> world" where
  "report a x w = (case error_text a x of Some e \<Rightarrow> emit (error_line e) w | None \<Rightarrow> w)"

inductive geoctl :: "platform \<Rightarrow> string list \<Rightarrow> world \<Rightarrow> int \<Rightarrow> world \<Rightarrow> bool" for pf args w where
  geoctl_refused: "pf_parse pf newRootCmd args = Refused e \<Longrightarrow> geoctl pf args w 1 (emit (error_line e) w)"
| geoctl_helped: "pf_parse pf newRootCmd args = Helped t \<Longrightarrow> geoctl pf args w 0 (emit (Printed t) w)"
| geoctl_ran: "pf_parse pf newRootCmd args = Chosen path st \<Longrightarrow> find_command newRootCmd path = Some c \<Longrightarrow>
    cm_run c = Some a \<Longrightarrow> runE pf st a w x w1 \<Longrightarrow> geoctl pf args w (exit_status x) (report a x w1)"

inductive_cases geoctlE: "geoctl pf args w st w'"

section \<open>Lemmas on the tree\<close>

text \<open>Every command with its path, and the flags it sees: its own and those of the root.\<close>

fun paths :: "string list \<Rightarrow> command \<Rightarrow> (string list \<times> command) list" where
  "paths p (Command u s l si pf fl rq a subs) =
     (p, Command u s l si pf fl rq a subs) # concat (map (\<lambda>c. paths (p @ [cm_use c]) c) subs)"

definition all_commands :: "(string list \<times> command) list" where
  "all_commands = paths [] newRootCmd"

text \<open>
  pflag panics on a flag or a shorthand that is declared twice, and cobra on a required flag that is
  not declared; it also adds the flag help, with its shorthand.
\<close>

definition well_declared :: "command \<Rightarrow> bool" where
  "well_declared c \<longleftrightarrow>
     (let seen = persistent_flags @ cm_flags c;
          short = filter (\<lambda>s. s \<noteq> []) (map fl_short seen)
      in distinct (''help'' # map fl_name seen) \<and> distinct (''h'' # short) \<and> list_all (\<lambda>s. length s = 1) short \<and>
         set (cm_required c) \<subseteq> set (map fl_name seen))"

lemma tree_well_declared:
  "list_all (\<lambda>(p, c). well_declared c \<and> distinct (map cm_use (cm_subs c)) \<and>
     (cm_run c = None \<longleftrightarrow> cm_subs c \<noteq> [])) all_commands"
  by code_simp

lemma tree_actions:
  "distinct (List.map_filter (\<lambda>(p, c). cm_run c) all_commands)"
  "list_all (\<lambda>(p, c). find_command newRootCmd p = Some c) all_commands"
  by code_simp+

lemma no_flags_set: "globals [] = default_flags"
  by code_simp

text \<open>
  The text printed after a failover, and the one that refuses it, name flags that the commands do
  not have.
\<close>

lemma flags_not_declared:
  "''secondary'' \<notin> set (map fl_name (persistent_flags @ cm_flags newAdoptCmd))"
  "''force'' \<notin> set (map fl_name (persistent_flags @ cm_flags newFailoverCmd))"
  by code_simp+

end
