(* ===== verification/Cli_Props.thy ===== *)
theory Cli_Props
  imports Cli
begin

text \<open>
  What a run of geoctl may do, whichever command it is: which events each command can add to the
  world, what a dry run leaves out, which files are written, and how a run ends.
\<close>

section \<open>Events of a stretch\<close>

definition effects :: "(event \<Rightarrow> bool) \<Rightarrow> world \<Rightarrow> world \<Rightarrow> bool" where
  "effects P w w' \<longleftrightarrow> extends w w' \<and> (\<forall>e \<in> set (added w w'). P e)"

lemma effects_refl [simp, intro]: "effects P w w"
  by (simp add: effects_def)

lemma effects_trans: "effects P w w1 \<Longrightarrow> effects P w1 w2 \<Longrightarrow> effects P w w2"
  by (auto simp: effects_def added_trans[of w w1 w2] intro: extends_trans)

lemma effects_emit: "effects P w w1 \<Longrightarrow> P e \<Longrightarrow> effects P w (emit e w1)"
  by (auto simp: effects_def added_emitI intro: extends_emitI)

lemma effects_mono: "effects P w w' \<Longrightarrow> (\<And>e. P e \<Longrightarrow> Q e) \<Longrightarrow> effects Q w w'"
  by (auto simp: effects_def)

lemma effects_prints: "(\<And>s. P (Printed s)) \<Longrightarrow> effects P w (print_all ls w)"
  using print_all_events[of w ls] by (auto simp: effects_def)

lemma effects_close: "(\<And>d. P (CloseConn d)) \<Longrightarrow> effects P w (pg_Close pg w)"
  using close_all_spec[of w] by (auto simp: pg_Close_def effects_def)

lemma effects_after: "(\<forall>e \<in> set es. P e) \<Longrightarrow> effects P w (w\<lparr>trace := trace w @ es\<rparr>)"
  by (auto simp: effects_def extends_def added_def)

lemma observes_effects: "observes w w' \<longleftrightarrow> effects observing w w'"
  by (simp add: observes_def effects_def list_all_iff)

lemma talks_effects: "talks w w' \<longleftrightarrow> effects (\<lambda>e. \<exists>s. e = Printed s) w w'"
  by (simp add: talks_def effects_def)

section \<open>The commands a stretch runs\<close>

definition runs_only :: "(string \<times> string list \<Rightarrow> bool) \<Rightarrow> event \<Rightarrow> bool" where
  "runs_only M e \<longleftrightarrow> (\<forall>x \<in> set (execs [e]). M x)"

lemma runs_only_quiet [simp]:
  "runs_only M (Printed s)" "runs_only M (CloseConn d)" "runs_only M (Connect d)" "runs_only M (WriteFile p c)"
  "runs_only M (Query d q as)"
  by (simp_all add: runs_only_def execs_def map_filter_def)

lemma runs_only_ssh: "M (ssh_call c h cmd) \<Longrightarrow> runs_only M (ssh_event c h cmd)"
  by (simp add: runs_only_def ssh_call_def)

lemma effects_runs_only:
  "effects (runs_only M) w w' \<longleftrightarrow> extends w w' \<and> (\<forall>x \<in> set (execs (added w w')). M x)"
  using execs_set[of "added w w'"] by (auto simp: effects_def runs_only_def)

lemma runs_only_mono: "effects (runs_only M) w w' \<Longrightarrow> (\<And>x. M x \<Longrightarrow> N x) \<Longrightarrow> effects (runs_only N) w w'"
  by (auto simp: effects_runs_only)

section \<open>serve\<close>

lemma build_effects:
  assumes "buildReconcilers aws cfg dry w = (res, w')"
  shows "effects (runs_only M) w w'"
proof -
  have x: "extends w w'" using buildReconcilers_observes[OF assms] by (simp add: observes_def)
  have q: "execs (map Connect ds) = []" for ds by (induction ds) auto
  have "execs (added w w') = []"
  proof (cases res)
    case (Done rp)
    then obtain recs pg where "buildReconcilers aws cfg dry w = (Done (recs, pg), w')" using assms by (cases rp) simp
    from NewWithFactory_Inr(2)[OF build_names(2)[OF this]] show ?thesis using q by simp
  next
    case (Failed e)
    then show ?thesis using build_failed_quiet[of aws cfg dry w e w'] assms by simp
  next
    case (Panicked p)
    then have "buildReconcilers aws cfg dry w = (Panicked p, w')" using assms by simp
    then show ?thesis by (cases rule: build_cases) simp_all
  qed
  then show ?thesis using x by (simp add: effects_runs_only)
qed

text \<open>The commands that put the secondaries into read-only mode.\<close>

definition enable_call :: "Config \<Rightarrow> bool \<Rightarrow> string \<times> string list \<Rightarrow> bool" where
  "enable_call cfg dry x \<longleftrightarrow>
     \<not> dry \<and> sync_ReadOnlySecondary (Sync cfg) \<and>
     (\<exists>sc \<in> set (Secondaries cfg). \<exists>cmd \<in> set enable_cmds. x = ssh_call ssh_Default (site_SSHHost sc) cmd)"

lemma enable_effects:
  assumes "(if sync_ReadOnlySecondary (Sync cfg) then enable_secondaries dry (Secondaries cfg) w else (None, w)) = (r, w')"
  shows "effects (runs_only (enable_call cfg dry)) w w'"
  using assms enable_calls[of dry "Secondaries cfg" w r w']
  by (auto simp: effects_runs_only enable_call_def split: if_splits)

lemma start_effects:
  assumes "serve_start js aws cfg dry w = (res, w')"
  shows "effects (runs_only (enable_call cfg dry)) w w'"
proof -
  obtain rb w1 where b: "buildReconcilers aws cfg dry w = (rb, w1)" by fastforce
  note 1 = build_effects[OF b, of "enable_call cfg dry"]
  obtain r w2 where e: "(if sync_ReadOnlySecondary (Sync cfg) then enable_secondaries dry (Secondaries cfg) w1
      else (None, w1)) = (r, w2)" by fastforce
  note 2 = effects_trans[OF 1 enable_effects[OF e]]
  have 3: "effects (runs_only (enable_call cfg dry)) w (pg_Close pg w2)" for pg
    by (rule effects_trans[OF 2 effects_close]) simp
  show ?thesis
    using assms b e 1 2 3 by (auto simp: serve_start_def split: outcome.splits option.splits sum.splits)
qed

definition serve_call :: "Config \<Rightarrow> bool \<Rightarrow> string \<times> string list \<Rightarrow> bool" where
  "serve_call cfg dry x \<longleftrightarrow>
     enable_call cfg dry x \<or> mirror_call cfg dry x \<or> hook_call cfg dry x \<or> failover_call cfg dry x"

lemma history_effects:
  assumes "serve_start js aws cfg dry w0 = (Done s, w1)" and "serve_history um s h" and "(a, e) \<in> set h"
  shows "runs_only (serve_call cfg dry) e"
proof -
  obtain pre post where h: "h = pre @ (a, e) # post" using assms(3) by (meson split_list)
  show ?thesis
    using event_calls[OF assms(1,2) h] by (cases a) (auto simp: runs_only_def serve_call_def)
qed

lemma serve_runs_only:
  assumes "serve_events_cmd pf cfg dry w x w'"
  shows "effects (runs_only (serve_call cfg dry)) w w'"
  using assms
proof (rule serve_events_cmdE)
  fix e
  assume "serve_start (pf_registry_json pf) (pf_aws pf) cfg dry w = (Failed e, w')"
  from start_effects[OF this] show ?thesis by (rule runs_only_mono) (simp add: serve_call_def)
next
  fix p
  assume "serve_start (pf_registry_json pf) (pf_aws pf) cfg dry w = (Panicked p, w')"
  from start_effects[OF this] show ?thesis by (rule runs_only_mono) (simp add: serve_call_def)
next
  fix recs pg w1 w2 e es
  assume b: "buildReconcilers (pf_aws pf) cfg dry w = (Done (recs, pg), w1)"
    and r: "(if sync_ReadOnlySecondary (Sync cfg) then enable_secondaries dry (Secondaries cfg) w1 else (None, w1)) = (None, w2)"
    and es: "begun (sweeps (map (component_obj (pf_registry_json pf)) recs)) es"
    and w': "w' = pg_Close pg (w2\<lparr>trace := trace w2 @ es\<rparr>)"
  have 2: "effects (runs_only (serve_call cfg dry)) w w2"
    by (rule effects_trans[OF build_effects[OF b] runs_only_mono[OF enable_effects[OF r]]]) (simp add: serve_call_def)
  have "set (execs es) \<subseteq> Collect (mirror_call cfg dry)"
    by (rule begun_execs[OF es]) (rule sweeps_execs[OF _ components_confined[OF built_calls[OF b]]])
  then have "\<forall>e \<in> set es. runs_only (serve_call cfg dry) e"
    using execs_set[of es] by (fastforce simp: runs_only_def serve_call_def)
  from effects_trans[OF effects_trans[OF 2 effects_after[OF this]] effects_close] show ?thesis unfolding w' by simp
next
  fix s w1 es es' h
  assume st: "serve_start (pf_registry_json pf) (pf_aws pf) cfg dry w = (Done s, w1)"
    and h: "serve_history (pf_webhook_json pf) s (es @ es')"
    and w': "w' = pg_Close (sv_pools s) (w1\<lparr>trace := trace w1 @ map snd es @ serving_line # map snd es'\<rparr>)"
  have 1: "effects (runs_only (serve_call cfg dry)) w w1"
    by (rule runs_only_mono[OF start_effects[OF st]]) (simp add: serve_call_def)
  have "\<forall>e \<in> set (map snd es @ serving_line # map snd es'). runs_only (serve_call cfg dry) e"
    using history_effects[OF st h] by (fastforce simp: serving_line_def)
  from effects_trans[OF effects_trans[OF 1 effects_after[OF this]] effects_close] show ?thesis unfolding w' by simp
qed

lemma serve_observes:
  assumes "serve_events_cmd pf cfg dry w x w'"
  shows "observes w w'"
  using assms
proof (rule serve_events_cmdE)
  fix e
  assume "serve_start (pf_registry_json pf) (pf_aws pf) cfg dry w = (Failed e, w')"
  then show ?thesis by (rule serve_start_observes)
next
  fix p
  assume "serve_start (pf_registry_json pf) (pf_aws pf) cfg dry w = (Panicked p, w')"
  then show ?thesis by (rule serve_start_observes)
next
  fix recs pg w1 w2 e es
  assume b: "buildReconcilers (pf_aws pf) cfg dry w = (Done (recs, pg), w1)"
    and r: "(if sync_ReadOnlySecondary (Sync cfg) then enable_secondaries dry (Secondaries cfg) w1 else (None, w1)) = (None, w2)"
    and es: "begun (sweeps (map (component_obj (pf_registry_json pf)) recs)) es"
    and w': "w' = pg_Close pg (w2\<lparr>trace := trace w2 @ es\<rparr>)"
  have 2: "observes w w2"
    using buildReconcilers_observes[OF b] enable_secondaries_observes[of dry "Secondaries cfg" w1 None w2] r
    by (auto intro: observes_trans split: if_splits)
  have "list_all observing es" by (rule begun_observing[OF es]) (rule sweeps_observing[OF _ components_read])
  then have "effects observing w2 (w2\<lparr>trace := trace w2 @ es\<rparr>)" by (intro effects_after) (simp add: list_all_iff)
  from effects_trans[OF effects_trans[OF 2[unfolded observes_effects] this] effects_close] show ?thesis
    unfolding w' observes_effects by simp
next
  fix s w1 es es' h
  assume st: "serve_start (pf_registry_json pf) (pf_aws pf) cfg dry w = (Done s, w1)"
    and h: "serve_history (pf_webhook_json pf) s (es @ es')"
    and w': "w' = pg_Close (sv_pools s) (w1\<lparr>trace := trace w1 @ map snd es @ serving_line # map snd es'\<rparr>)"
  have "\<forall>e \<in> set (map snd es @ serving_line # map snd es'). observing e"
    using history_observing[OF st h] by (auto simp: list_all_iff serving_line_def)
  from effects_trans[OF effects_trans[OF serve_start_observes[OF st, unfolded observes_effects] effects_after[OF this]] effects_close]
  show ?thesis unfolding w' observes_effects by simp
qed

text \<open>What the coarse model of the command can do, this one can, but for the line that it prints.\<close>

lemma serve_cmd_runs:
  assumes "serve_cmd (pf_registry_json pf) (pf_aws pf) (pf_webhook_json pf) cfg dry w x w'"
  shows "\<exists>w''. serve_events_cmd pf cfg dry w x w'' \<and>
    filter (\<lambda>e. e \<noteq> serving_line) (trace w'') = filter (\<lambda>e. e \<noteq> serving_line) (trace w')"
  using assms
proof (rule serve_cmdE)
  fix s w1 jobs c w2 h
  assume x: "x = serve_result h" and w': "w' = pg_Close (sv_pools s) w2"
    and st: "serve_start (pf_registry_json pf) (pf_aws pf) cfg dry w = (Done s, w1)"
    and r: "serve_reach (pf_webhook_json pf) s w1 (jobs, c, w2)"
  obtain es where es: "serve_history (pf_webhook_json pf) s es" "map snd es = added w1 w2"
    using coarse_runs_are_histories[OF st r] by blast
  let ?v = "w1\<lparr>trace := trace w1 @ serving_line # map snd es\<rparr>"
  have e: "serve_events_cmd pf cfg dry w x (pg_Close (sv_pools s) ?v)"
    using events_end[OF st, of "[]" es h] es(1) unfolding x by simp
  have "trace w2 = trace w1 @ map snd es"
    using serve_reach_ok[OF st r] unfolding es(2) by (auto simp: process_ok_def intro: extends_trace)
  moreover have "trace (pg_Close p u) = trace u @ map CloseConn (pg_primary p # map sc_pool (pg_secondaries p))" for p u
    by (simp only: pg_Close_def extends_trace[OF conjunct1[OF close_all_spec]] conjunct2[OF close_all_spec])
  ultimately have "filter (\<lambda>e. e \<noteq> serving_line) (trace (pg_Close (sv_pools s) ?v)) =
      filter (\<lambda>e. e \<noteq> serving_line) (trace w')"
    unfolding w' by simp
  then show ?thesis using e by blast
qed (blast intro: events_not_started events_panic)+

section \<open>The commands on a configuration\<close>

text \<open>What a dry run may still run: rehearsed transfers, checks of repositories, and reading over ssh.\<close>

definition dry_call :: "Config \<Rightarrow> string \<times> string list \<Rightarrow> bool" where
  "dry_call cfg x \<longleftrightarrow>
     mirror_call cfg True x \<or> (\<exists>h. \<exists>cmd \<in> read_only_cmds cfg. x = ssh_call ssh_Default h cmd)"

lemma serve_dry: "serve_call cfg True x \<Longrightarrow> dry_call cfg x"
  by (auto simp: serve_call_def enable_call_def hook_call_def failover_call_def dry_call_def)

lemma dry_ssh: "cmd \<in> read_only_cmds cfg \<Longrightarrow> runs_only (dry_call cfg) (ssh_event ssh_Default h cmd)"
  by (rule runs_only_ssh) (unfold dry_call_def, blast)

lemma dbkey_runs_only: "effects (runs_only (dry_call cfg)) w (dbkey_loop p ss w)"
proof (induction ss arbitrary: w)
  case (Cons s ss)
  let ?w1 = "emit (Printed (''checking '' @ site_Name s @ '' ... '')) w"
  obtain r w2 where c: "dbkey_Check p (site_SSHHost s) ?w1 = (r, w2)" by fastforce
  note 1 = effects_emit[OF effects_refl[of "runs_only (dry_call cfg)" w], of "Printed (''checking '' @ site_Name s @ '' ... '')"]
  have "runs_only (dry_call cfg) (ssh_event ssh_Default h (fetch_cmd b))" for h b
    by (rule dry_ssh[OF read_only_cmds_mem(5)])
  then have "effects (runs_only (dry_call cfg)) ?w1 w2"
    using CheckWithRunner_events[of p "site_SSHHost s" ssh_Default ?w1 r w2] c
    by (fastforce simp: effects_def dbkey_Check_def)
  then have "effects (runs_only (dry_call cfg)) w (emit (Printed (dbkey_verdict r)) w2)"
    using 1 by (auto intro: effects_emit effects_trans)
  from effects_trans[OF this Cons.IH] show ?case using c by simp
qed simp

lemma doctor_runs_only:
  assumes "doctor_cmd cfg w = (x, w')"
  shows "effects (\<lambda>e. harmless cfg ssh_Default e \<or> (\<exists>s. e = Printed s)) w w'" (is "effects ?P w w'")
proof -
  obtain r w1 where d: "doctor_Run cfg w = (r, w1)" by fastforce
  then have "run_checks (all_checks cfg (CombinedOutput ssh_Default)) w = (dr_Checks r, w1)"
    using RunWith_report unfolding doctor_Run_def by blast
  from run_checks_harmless[OF all_checks_harmless this] have "effects ?P w w1"
    by (simp add: effects_def list_all_iff)
  moreover have "w' = print_all (print_lines r) w1" using assms d by (simp add: doctor_cmd_def doctor_Print_def print_all_def)
  moreover have "effects ?P w1 (print_all (print_lines r) w1)" by (rule effects_prints) simp
  ultimately show ?thesis using effects_trans[of ?P w w1 w'] by simp
qed

lemma harmless_runs_only: "harmless cfg ssh_Default e \<Longrightarrow> runs_only (dry_call cfg) e"
  unfolding harmless_def using dry_ssh by auto

lemma status_effects:
  assumes "pg_status_cmd cfg w = (x, w')"
  shows "effects (runs_only M) w w'" and "observes w w'"
proof -
  obtain res w1 where n: "NewWithFactory cfg w = (res, w1)" by fastforce
  have q: "execs (map Connect ds) = []" "execs (map CloseConn ds) = []" for ds by (induction ds) auto
  have o: "observes w w1" by (rule NewWithFactory_observes[OF n])
  have "execs (added w w1) = []"
  proof (cases res)
    case (Inl e)
    then show ?thesis using NewWithFactory_Inl[of cfg w e w1] n q by auto
  next
    case (Inr pg)
    then show ?thesis using NewWithFactory_Inr(2)[of cfg w pg w1] n q by simp
  qed
  then have e: "effects (runs_only M) w w1" using o by (simp add: effects_runs_only observes_def)
  show "effects (runs_only M) w w'" "observes w w'"
  proof (atomize (full), cases res)
    case (Inl err)
    then show "effects (runs_only M) w w' \<and> observes w w'" using assms n e o by (simp add: pg_status_cmd_def)
  next
    case (Inr pg)
    obtain r w2 where r: "pg_Reconcile pg w1 = (r, w2)" by fastforce
    then have g: "graph_of (pg_Reconcile pg) w1 r w2" by (simp add: graph_of_def)
    have w': "w' = pg_Close pg (print_all (status_lines r) w2)" using assms n Inr r by (simp add: pg_status_cmd_def)
    have o2: "observes w1 w2" using postgres_reads.reads[OF g] by simp
    then have e2: "effects (runs_only M) w1 w2"
      using postgres_confined.confined[OF g] by (auto simp: effects_runs_only observes_def)
    have "effects (runs_only M) w2 w'" "effects observing w2 w'"
      unfolding w' by (rule effects_trans[OF effects_prints effects_close]; simp)+
    then show "effects (runs_only M) w w' \<and> observes w w'"
      using e e2 o o2 unfolding observes_effects by (meson effects_trans)
  qed
qed

section \<open>A command in a dry run\<close>

lemma adopt_dry: "effects (runs_only M) w (snd (AdoptAsSecondary (New cfg True) h w))"
proof -
  have "fc_dryRun (New cfg True)" by (simp add: New_def Let_def split: option.splits)
  then show ?thesis
    using fold_emit(1)[of w] added_fold_emit[OF extends_refl[of w]]
    by (simp add: AdoptAsSecondary_def run_named_dry effects_runs_only)
qed

lemma setup_dry:
  assumes "pg_setup_cmd cfg True d n w = (x, w')"
  shows "effects (runs_only M) w w'"
proof (cases "findSecondary cfg n")
  case (Inr sc)
  define opts where "opts = \<lparr>po_PrimaryDSN = ReplicationDSN (site_Postgres (Primary cfg)), po_DataDir = d,
      po_SlotName = pg_SlotName (site_Postgres sc), po_DryRun = True\<rparr>"
  obtain r w1 where r: "pgs_Run opts w = (r, w1)" by fastforce
  have "\<not> runs_basebackup opts w" by (simp add: runs_basebackup_def opts_def)
  from Run_refused[OF this r] have "effects (runs_only M) w w1" by (simp add: effects_runs_only)
  then show ?thesis using assms r Inr by (simp add: pg_setup_cmd_def opts_def split: if_splits)
qed (use assms in \<open>simp add: pg_setup_cmd_def\<close>)

lemma failover_dry:
  assumes "failover_cmd cfg True n f w = (x, w')"
  shows "effects (runs_only M) w w'"
proof -
  have "effects (runs_only M) w (snd (Promote (New cfg True) m w))" for m
    using rehearsal_quiet[of w cfg m] Promote_observes[of "New cfg True" m w]
    by (cases "Promote (New cfg True) m w") (simp add: effects_runs_only observes_def)
  then show ?thesis
    using assms by (auto simp: failover_cmd_def Let_def split: if_splits prod.splits list.splits) (metis snd_conv)+
qed

lemma site_dry:
  assumes "site_action st a cfg = Some f" and "f w = (x, w')" and "gl_dryRun (globals st)"
  shows "effects (runs_only (dry_call cfg)) w w'"
proof (cases a)
  case RunConfigValidate
  then show ?thesis using assms by (auto simp: validate_cmd_def intro!: effects_prints)
next
  case RunPGSetup
  then show ?thesis using assms setup_dry by auto
next
  case RunPGStatus
  then show ?thesis using assms status_effects(1) by auto
next
  case RunDBKey
  then show ?thesis using assms dbkey_runs_only by (auto simp: dbkey_cmd_def split: if_splits)
next
  case RunFailover
  then show ?thesis using assms failover_dry by auto
next
  case RunAdopt
  then show ?thesis
    using assms adopt_dry[of "dry_call cfg" w cfg]
    by (auto simp: adopt_cmd_def Let_def split: if_splits prod.splits) (metis snd_conv)+
next
  case RunRunbook
  then show ?thesis using assms by (auto simp: runbook_cmd_def intro!: effects_emit)
next
  case RunDoctor
  then have "doctor_cmd cfg w = (x, w')" using assms by simp
  from doctor_runs_only[OF this] show ?thesis by (rule effects_mono) (auto dest: harmless_runs_only)
qed (use assms in simp_all)

lemma sync_runs_only:
  assumes "sync_cmd js aws cfg dry w lg x w'"
  shows "effects (runs_only (mirror_call cfg dry)) w w'"
  using assms
proof (rule sync_cmdE)
  fix e
  assume "buildReconcilers aws cfg dry w = (Failed e, w')"
  then show ?thesis by (rule build_effects)
next
  fix p
  assume "buildReconcilers aws cfg dry w = (Panicked p, w')"
  then show ?thesis by (rule build_effects)
next
  fix recs pg w1 w2
  assume w': "w' = pg_Close pg w2" and b: "buildReconcilers aws cfg dry w = (Done (recs, pg), w1)"
    and l: "sync_loop (map (component_obj js) recs) w1 lg w2"
  have "effects (runs_only (mirror_call cfg dry)) w1 w2"
    using sync_loop_confined[OF l components_confined[OF built_calls[OF b]]] by (auto simp: effects_runs_only)
  from effects_trans[OF effects_trans[OF build_effects[OF b] this] effects_close] show ?thesis unfolding w' by simp
qed

lemma command_dry:
  assumes "run_on pf st cfg a w x w'" and "gl_dryRun (globals st)"
  shows "effects (runs_only (dry_call cfg)) w w'"
  using assms(1)
proof (rule run_onE)
  fix f
  assume "site_action st a cfg = Some f" "f w = (x, w')"
  then show ?thesis using site_dry assms(2) by blast
next
  fix lg
  assume "sync_cmd (pf_registry_json pf) (pf_aws pf) cfg (gl_dryRun (globals st)) w lg x w'"
  from sync_runs_only[OF this] show ?thesis
    by (rule runs_only_mono) (use assms(2) serve_dry in \<open>auto simp: serve_call_def\<close>)
next
  assume "serve_events_cmd pf cfg (gl_dryRun (globals st)) w x w'"
  from serve_runs_only[OF this] show ?thesis
    by (rule runs_only_mono) (use assms(2) serve_dry in auto)
qed

section \<open>What a command writes\<close>

lemma sync_observes:
  assumes "sync_cmd js aws cfg dry w lg x w'"
  shows "observes w w'"
  using assms
proof (rule sync_cmdE)
  fix recs pg w1 w2
  assume w': "w' = pg_Close pg w2" and b: "buildReconcilers aws cfg dry w = (Done (recs, pg), w1)"
    and l: "sync_loop (map (component_obj js) recs) w1 lg w2"
  have "sync_loop rcs v lg v' \<Longrightarrow> \<forall>rc \<in> set rcs. reading_reconciler (rec_run rc) \<Longrightarrow> effects observing v v'" for rcs v lg v'
  proof (induction rule: sync_loop.induct)
    case (sync_next rc w res w1 rcs lg w')
    have "effects observing w w1"
      using reading_reconciler.reads[of "rec_run rc", OF _ sync_next(1)] sync_next.prems unfolding observes_effects by simp
    from effects_emit[OF this, of "Printed (sync_line (rec_name rc) res)"] show ?case
      using sync_next by (auto intro: effects_trans)
  qed simp
  from this[OF l components_read] have "effects observing w1 w2" .
  from effects_trans[OF effects_trans[OF buildReconcilers_observes[OF b, unfolded observes_effects] this] effects_close]
  show ?thesis unfolding w' observes_effects by simp
qed (auto dest: buildReconcilers_observes)

definition setup_write :: "settings \<Rightarrow> event \<Rightarrow> bool" where
  "setup_write st e \<longleftrightarrow>
     \<not> gl_dryRun (globals st) \<and> (\<exists>c. settled c \<and> e = WriteFile (auto_conf (string_flag setup_flags st ''data-dir'')) c)"

lemma setup_effects:
  assumes "pg_setup_cmd cfg (gl_dryRun (globals st)) (string_flag setup_flags st ''data-dir'') n w = (x, w')"
  shows "effects (\<lambda>e. observing e \<or> setup_write st e) w w'"
proof (cases "findSecondary cfg n")
  case (Inr sc)
  define opts where "opts = \<lparr>po_PrimaryDSN = ReplicationDSN (site_Postgres (Primary cfg)),
      po_DataDir = string_flag setup_flags st ''data-dir'', po_SlotName = pg_SlotName (site_Postgres sc),
      po_DryRun = gl_dryRun (globals st)\<rparr>"
  obtain r w1 where r: "pgs_Run opts w = (r, w1)" by fastforce
  have "effects (\<lambda>e. observing e \<or> setup_write st e) w w1"
    using Run_effects[OF r] by (auto simp: effects_def setup_write_def opts_def)
  then show ?thesis using assms r Inr by (simp add: pg_setup_cmd_def opts_def split: if_splits)
qed (use assms in \<open>simp add: pg_setup_cmd_def\<close>)

lemma site_effects:
  assumes "site_action st a cfg = Some f" and "f w = (x, w')"
  shows "effects (\<lambda>e. observing e \<or> a = RunPGSetup \<and> setup_write st e) w w'"
proof (cases "a = RunPGSetup")
  case True
  then show ?thesis using assms setup_effects[of cfg st] by auto
next
  case False
  have "observes w w'"
  proof (cases a)
    case RunConfigValidate
    then show ?thesis using assms by (auto simp: validate_cmd_def observes_effects intro!: effects_prints)
  next
    case RunPGStatus
    then show ?thesis using assms status_effects(2) by auto
  next
    case RunDBKey
    have "effects observing v (dbkey_loop p ss v)" for p ss v
    proof (induction ss arbitrary: v)
      case (Cons s ss)
      obtain r v2 where c: "dbkey_Check p (site_SSHHost s) (emit (Printed (''checking '' @ site_Name s @ '' ... '')) v) = (r, v2)"
        by fastforce
      then have "effects observing (emit (Printed (''checking '' @ site_Name s @ '' ... '')) v) v2"
        using CheckWithRunner_observes unfolding dbkey_Check_def observes_effects by blast
      moreover have "effects observing v (emit (Printed (''checking '' @ site_Name s @ '' ... '')) v)"
        by (rule effects_emit) simp_all
      ultimately have "effects observing v v2" by (rule effects_trans[rotated])
      then have "effects observing v (emit (Printed (dbkey_verdict r)) v2)" by (rule effects_emit) simp
      from effects_trans[OF this Cons.IH] show ?case using c by simp
    qed simp
    then show ?thesis using assms RunDBKey by (auto simp: dbkey_cmd_def observes_effects split: if_splits)
  next
    case RunFailover
    then show ?thesis
      using assms by (auto simp: failover_cmd_def Let_def split: if_splits prod.splits list.splits dest: Promote_observes)
  next
    case RunAdopt
    then show ?thesis
      using assms by (auto simp: adopt_cmd_def Let_def split: if_splits prod.splits dest: AdoptAsSecondary_observes)
  next
    case RunRunbook
    then show ?thesis using assms by (auto simp: runbook_cmd_def observes_emits)
  next
    case RunDoctor
    then have "doctor_cmd cfg w = (x, w')" using assms by simp
    from doctor_runs_only[OF this] show ?thesis
      unfolding observes_effects by (rule effects_mono) (auto dest: harmless_observing)
  qed (use assms False in simp_all)
  then show ?thesis unfolding observes_effects by (rule effects_mono) simp
qed

text \<open>The wizard's file.\<close>

definition init_path :: "settings \<Rightarrow> string" where
  "init_path st = (case string_flag init_flags st ''output'' of [] \<Rightarrow> ''config.yaml'' | p \<Rightarrow> p)"

lemma init_path_if: "init_path st = (if string_flag init_flags st ''output'' = [] then ''config.yaml'' else string_flag init_flags st ''output'')"
  by (simp add: init_path_def split: list.splits)

lemma init_effects:
  assumes "init_cmd (string_flag init_flags st ''output'') input w = (x, w')"
  shows "effects (\<lambda>e. (\<exists>s. e = Printed s) \<or> (\<exists>c. e = WriteFile (init_path st) c)) w w'" (is "effects ?P w w'")
proof -
  obtain a rest w1 where r: "RunWithInput (input, w) = (a, (rest, w1))" by (metis prod.collapse)
  have 1: "effects ?P w w1"
    using RunWithInput_talks[OF r] unfolding talks_effects by (rule effects_mono) simp
  obtain e w2 where p: "write_path (init_path st) (GenerateYAML a) w1 = (e, w2)" by fastforce
  then have 2: "effects ?P w w2"
    using effects_emit[OF 1, of "WriteFile (init_path st) (GenerateYAML a)"] by (auto simp: write_path_def)
  have "effects ?P w2 (print_all (next_steps (init_path st)) w2)" by (rule effects_prints) simp
  from effects_trans[OF 2 this] show ?thesis
    using assms r p 2 unfolding init_cmd_def Let_def init_path_if[symmetric] by (cases e) auto
qed

lemma bare_effects:
  assumes "bare_action pf st a = Some f" and "f w = (x, w')"
  shows "effects (\<lambda>e. (\<exists>s. e = Printed s) \<or> a = RunInit \<and> (\<exists>c. e = WriteFile (init_path st) c)) w w'"
proof (cases a)
  case RunVersion
  then show ?thesis using assms by (auto simp: version_cmd_def intro!: effects_emit)
next
  case RunSLA
  then show ?thesis using assms by (auto simp: sla_cmd_def split: prod.splits intro!: effects_prints)
next
  case RunInit
  then have "init_cmd (string_flag init_flags st ''output'') (pf_stdin pf) w = (x, w')" using assms by simp
  from init_effects[OF this] RunInit show ?thesis by simp
qed (use assms in simp_all)

lemma command_effects:
  assumes "run_on pf st cfg a w x w'"
  shows "effects (\<lambda>e. observing e \<or> a = RunPGSetup \<and> setup_write st e) w w'"
  using assms
proof (rule run_onE)
  fix f
  assume "site_action st a cfg = Some f" "f w = (x, w')"
  then show ?thesis by (rule site_effects)
next
  fix lg
  assume "sync_cmd (pf_registry_json pf) (pf_aws pf) cfg (gl_dryRun (globals st)) w lg x w'"
  from sync_observes[OF this] show ?thesis unfolding observes_effects by (rule effects_mono) simp
next
  assume "serve_events_cmd pf cfg (gl_dryRun (globals st)) w x w'"
  from serve_observes[OF this] show ?thesis unfolding observes_effects by (rule effects_mono) simp
qed

section \<open>The process\<close>

fun action_path :: "action \<Rightarrow> string list" where
  "action_path RunVersion = [''version'']"
| "action_path RunConfigValidate = [''config-validate'']"
| "action_path RunServe = [''serve'']"
| "action_path RunPGSetup = [''pg'', ''setup'']"
| "action_path RunPGStatus = [''pg'', ''status'']"
| "action_path RunSync = [''sync'']"
| "action_path RunDBKey = [''dbkey'']"
| "action_path RunFailover = [''failover'']"
| "action_path RunAdopt = [''adopt-as-secondary'']"
| "action_path RunRunbook = [''runbook'']"
| "action_path RunSLA = [''sla'']"
| "action_path RunDoctor = [''doctor'']"
| "action_path RunInit = [''init'']"

lemma find_command_paths: "find_command c ns = Some d \<Longrightarrow> (p @ ns, d) \<in> set (paths p c)"
proof (induction ns arbitrary: c p)
  case Nil
  then show ?case by (cases d) simp
next
  case (Cons n ns)
  then obtain s where f: "find (\<lambda>s. cm_use s = n) (cm_subs c) = Some s" and d: "find_command s ns = Some d"
    by (auto split: option.splits)
  have s: "s \<in> set (cm_subs c)" "cm_use s = n" using f by (auto simp: find_Some_iff)
  have "((p @ [n]) @ ns, d) \<in> set (paths (p @ [n]) s)" by (rule Cons.IH[OF d])
  then show ?case using s by (cases c) auto
qed

lemma chosen_action:
  assumes "find_command newRootCmd path = Some c" and "cm_run c = Some a"
  shows "path = action_path a"
proof -
  have "list_all (\<lambda>(p, c). case cm_run c of Some a \<Rightarrow> p = action_path a | None \<Rightarrow> True) all_commands"
    by code_simp
  moreover have "(path, c) \<in> set all_commands" using find_command_paths[OF assms(1), of "[]"] by (simp add: all_commands_def)
  ultimately show ?thesis using assms(2) by (fastforce simp: list_all_iff)
qed

lemma action_found: "\<exists>c. find_command newRootCmd (action_path a) = Some c \<and> cm_run c = Some a"
proof -
  let ?as = "[RunVersion, RunConfigValidate, RunServe, RunPGSetup, RunPGStatus, RunSync, RunDBKey, RunFailover, RunAdopt,
       RunRunbook, RunSLA, RunDoctor, RunInit]"
  have "list_all (\<lambda>a. case find_command newRootCmd (action_path a) of Some c \<Rightarrow> cm_run c = Some a | None \<Rightarrow> False) ?as"
    by code_simp
  moreover have "a \<in> set ?as" by (cases a) simp_all
  ultimately have "case find_command newRootCmd (action_path a) of Some c \<Rightarrow> cm_run c = Some a | None \<Rightarrow> False"
    unfolding list_all_iff by blast
  then show ?thesis by (cases "find_command newRootCmd (action_path a)") simp_all
qed

lemma report_effects: "(\<And>s. P (Printed s)) \<Longrightarrow> effects P w w1 \<Longrightarrow> effects P w (report a x w1)"
  by (auto simp: report_def error_line_def split: option.splits intro: effects_emit)

lemma bare_needs: "bare_action pf st a = None \<longleftrightarrow> needs_config a"
  by (cases a) (simp_all add: needs_config_def)

lemma action_path_simps:
  "action_path a = [''init''] \<longleftrightarrow> a = RunInit" "action_path a = [''pg'', ''setup''] \<longleftrightarrow> a = RunPGSetup"
  by (cases a; simp)+

lemma action_path_serve: "[''serve''] = action_path a \<longleftrightarrow> a = RunServe"
  by (cases a) simp_all

lemma needs_serve: "needs_config RunServe"
  by (simp add: needs_config_def)

text \<open>The runs of the process, by the body that ran.\<close>

lemma geoctl_runs:
  assumes "geoctl pf args w n w'"
  obtains (refused) e where "pf_parse pf newRootCmd args = Refused e" "n = 1" "w' = emit (error_line e) w"
  | (helped) t where "pf_parse pf newRootCmd args = Helped t" "n = 0" "w' = emit (Printed t) w"
  | (ran) a st x w1 where "pf_parse pf newRootCmd args = Chosen (action_path a) st" "runE pf st a w x w1"
      "n = exit_status x" "w' = report a x w1"
  using assms
proof (rule geoctlE)
  fix path st c a x w1
  assume "pf_parse pf newRootCmd args = Chosen path st" "find_command newRootCmd path = Some c" "cm_run c = Some a"
    "runE pf st a w x w1" "n = exit_status x" "w' = report a x w1"
  then show thesis using ran chosen_action by blast
qed (use refused helped in blast)+

section \<open>How a run ends\<close>

lemma loaded_valid: "load pf st = Inr (cfg, lg) \<Longrightarrow> Secondaries cfg \<noteq> []"
  using validate_errors_iff
  by (auto simp: load_def loadConfig_def Load_def validate_def valid_config_def Let_def
      split: sum.splits outcome.splits if_splits)

lemma unloaded:
  assumes "load pf st = Inl x"
  obtains e where "x = ExitLoad e"
  | p raw c where "x = ExitPanic p" "pf_read_file pf (gl_configPath (globals st)) = Inr raw" "pf_yaml pf raw = Inr c"
      "dns_options c \<noteq> []"
proof (cases "Load (pf_read_file pf) (pf_yaml pf) (pf_env pf) (gl_configPath (globals st))")
  case (Done r)
  then show thesis using assms that(1) by (auto simp: load_def loadConfig_def split: sum.splits)
next
  case (Failed e)
  then show thesis by (auto simp: Load_def Let_def split: sum.splits outcome.splits prod.splits if_splits)
next
  case (Panicked p)
  from Load_panics[OF this] show thesis
    using Panicked assms that(2) by (auto simp: load_def loadConfig_def)
qed

lemma adopt_no_crash:
  assumes "AdoptAsSecondary (New cfg dry) h w = (r, w')" and "Secondaries cfg \<noteq> []"
  shows "r \<noteq> Crashed p"
proof (cases "dry \<or> \<not> sync_FailoverEnabled (Sync cfg)")
  case True
  have "fc_dryRun (New cfg dry) = dry" "fc_cfg (New cfg dry) = cfg" by (simp_all add: New_def Let_def split: option.splits)
  then show ?thesis using assms(1) True by (auto simp: AdoptAsSecondary_def run_named_dry split: if_splits)
next
  case False
  define c where "c = New cfg dry"
  have c: "\<not> fc_dryRun c" "fc_cfg c = cfg" using False by (simp_all add: c_def New_def Let_def split: option.splits)
  obtain np nps where s: "Secondaries cfg = np # nps" using assms(2) by (cases "Secondaries cfg") auto
  have b: "basebackup_step c h = lift_step (sshSecondary c h (basebackup_cmd np))"
    by (rule ext) (simp add: basebackup_step_def c s)
  let ?ss = "[(''stop gitlab on old primary'', sshSecondary c h stop_cmd),
       (''pg_basebackup from new primary'', sshSecondary c h (basebackup_cmd np)),
       (''enable read-only mode on old primary'', EnableWithConfig h (fc_dryRun c) (fc_sshCfg c)),
       (''start gitlab on old primary as secondary'', sshSecondary c h start_cmd)]"
  have "run_named False (map (\<lambda>(n, s). (n, lift_step s)) ?ss) w = (r, w')"
    using assms(1) False c unfolding c_def[symmetric] by (simp add: AdoptAsSecondary_def adopt_steps_def b)
  moreover have "\<forall>p. fst (run_named False (map (\<lambda>(n, s). (n, lift_step s)) ?ss) w) \<noteq> Crashed p"
    using run_named_real[of ?ss w] by blast
  ultimately show ?thesis by (simp only: fst_conv) blast
qed

lemma start_no_panic: "serve_start js aws cfg dry w \<noteq> (Panicked p, w')"
proof
  assume p: "serve_start js aws cfg dry w = (Panicked p, w')"
  obtain res wb where b: "buildReconcilers aws cfg dry w = (res, wb)" by fastforce
  then have "res \<noteq> Panicked q" for q by (cases rule: build_cases) auto
  then show False using p b
    by (auto simp: serve_start_def split: outcome.splits prod.splits option.splits sum.splits if_splits)
qed

lemma command_status:
  assumes "run_on pf st cfg a w x w'" and "Secondaries cfg \<noteq> []"
  shows "exit_status x \<noteq> 2"
  using assms(1)
proof (rule run_onE)
  fix f
  assume f: "site_action st a cfg = Some f" "f w = (x, w')"
  show ?thesis
  proof (cases a)
    case RunFailover
    have "exit_status (ExitFailover r) \<noteq> 2" if "Promote c n w = (r, v)" for c n r v
      using Promote_no_crash[OF that] by (cases r) auto
    then show ?thesis
      using f RunFailover by (auto simp: failover_cmd_def Let_def split: if_splits prod.splits list.splits)
  next
    case RunAdopt
    have "exit_status (ExitFailover r) \<noteq> 2" if "AdoptAsSecondary (New cfg dry) h w = (r, v)" for dry h r v
      using adopt_no_crash[OF that assms(2)] by (cases r) auto
    then show ?thesis using f RunAdopt by (auto simp: adopt_cmd_def Let_def split: if_splits prod.splits)
  qed (use f in \<open>auto simp: validate_cmd_def pg_setup_cmd_def pg_status_cmd_def dbkey_cmd_def runbook_cmd_def
      doctor_cmd_def of_error_def split: sum.splits prod.splits option.splits if_splits\<close>)
next
  fix lg
  assume "sync_cmd (pf_registry_json pf) (pf_aws pf) cfg (gl_dryRun (globals st)) w lg x w'"
  then show ?thesis
  proof (rule sync_cmdE)
    fix p
    assume "buildReconcilers (pf_aws pf) cfg (gl_dryRun (globals st)) w = (Panicked p, w')"
    then show ?thesis by (cases rule: build_cases) simp_all
  qed simp_all
next
  assume "serve_events_cmd pf cfg (gl_dryRun (globals st)) w x w'"
  then show ?thesis
  proof (rule serve_events_cmdE)
    fix s w1 es h
    assume "x = serve_result h"
    then show ?thesis by (cases h rule: serve_result.cases) simp_all
  qed (simp_all add: start_no_panic)
qed

lemma status_range: "exit_status x = 0 \<or> exit_status x = 1 \<and> error_text a x \<noteq> None \<or> exit_status x = 2"
proof (cases x)
  case (ExitFailover r)
  then show ?thesis by (cases r) simp_all
qed simp_all

lemma bare_status: "bare_action pf st a = Some f \<Longrightarrow> exit_status (fst (f w)) \<noteq> 2"
  by (cases a) (auto simp: version_cmd_def sla_cmd_def init_cmd_def of_error_def Let_def split: prod.splits option.splits)

section \<open>A run ends\<close>

lemma body_returns: "\<exists>x w'. runE pf st a w x w'"
proof (cases "needs_config a")
  case False
  then obtain f where "bare_action pf st a = Some f" using bare_needs[of pf st a] by auto
  then show ?thesis using run_bare by (metis prod.collapse)
next
  case True
  show ?thesis
  proof (cases "load pf st")
    case (Inl x)
    then show ?thesis using run_unloaded[OF True] by blast
  next
    case (Inr l)
    obtain cfg lg where l: "load pf st = Inr (cfg, lg)" using Inr by (cases l) simp
    have serve: "\<exists>x w'. serve_events_cmd pf cfg dry w x w'" for dry
    proof -
      obtain res w1 where st: "serve_start (pf_registry_json pf) (pf_aws pf) cfg dry w = (res, w1)" by fastforce
      show ?thesis
      proof (cases res)
        case (Done s)
        then show ?thesis using serve_cmd_runs[OF serve_ends[OF _ serve_begin]] st by metis
      qed (use st events_not_started events_panic in blast)+
    qed
    have "\<exists>x w'. run_on pf st cfg a w x w'"
    proof (cases "site_action st a cfg")
      case None
      then have "a = RunSync \<or> a = RunServe" using True by (cases a) (simp_all add: needs_config_def)
      then show ?thesis
        using on_sync[of pf cfg st w _ _ _] on_serve[of pf cfg st w] serve[of "gl_dryRun (globals st)"]
          sync_cmd_returns[of "pf_registry_json pf" "pf_aws pf" cfg "gl_dryRun (globals st)" w]
        by metis
    next
      case (Some f)
      then show ?thesis using on_site by (metis prod.collapse)
    qed
    then show ?thesis using run_loaded[OF True l] by blast
  qed
qed

text \<open>The library's promise: what it chooses is a command of the tree that has a body.\<close>

definition well_parsed :: "platform \<Rightarrow> string list \<Rightarrow> bool" where
  "well_parsed pf args \<longleftrightarrow>
     (case pf_parse pf newRootCmd args of Chosen path st \<Rightarrow> \<exists>a. path = action_path a | _ \<Rightarrow> True)"

lemma geoctl_returns:
  assumes "well_parsed pf args"
  shows "\<exists>n w'. geoctl pf args w n w'"
proof (cases "pf_parse pf newRootCmd args")
  case (Chosen path st)
  then obtain a where a: "path = action_path a" using assms by (auto simp: well_parsed_def)
  obtain c where c: "find_command newRootCmd path = Some c" "cm_run c = Some a" using action_found a by blast
  obtain x w1 where "runE pf st a w x w1" using body_returns by blast
  from geoctl_ran[OF Chosen c this] show ?thesis by blast
qed (use geoctl_refused geoctl_helped in blast)+

text \<open>How a body that needs a configuration fails to get one, and how any body ends.\<close>

lemma body_ends:
  assumes "runE pf st a w x w1"
  shows "needs_config a \<and> load pf st = Inl (ExitLoad e) \<longrightarrow> x = ExitLoad e \<and> w1 = w"
    and "exit_status x = 2 \<Longrightarrow> needs_config a \<and> w1 = w \<and> (\<exists>p. x = ExitPanic p) \<and>
      (\<exists>raw c. pf_read_file pf (gl_configPath (globals st)) = Inr raw \<and> pf_yaml pf raw = Inr c \<and> dns_options c \<noteq> [])"
proof -
  show "needs_config a \<and> load pf st = Inl (ExitLoad e) \<longrightarrow> x = ExitLoad e \<and> w1 = w"
    using assms
  proof (rule runE_cases)
    fix f
    assume "bare_action pf st a = Some f"
    then have "\<not> needs_config a" using bare_needs[of pf st a] by simp
    then show ?thesis by blast
  qed auto
  assume 2: "exit_status x = 2"
  from assms show "needs_config a \<and> w1 = w \<and> (\<exists>p. x = ExitPanic p) \<and>
      (\<exists>raw c. pf_read_file pf (gl_configPath (globals st)) = Inr raw \<and> pf_yaml pf raw = Inr c \<and> dns_options c \<noteq> [])"
  proof (rule runE_cases)
    fix f
    assume "bare_action pf st a = Some f" "f w = (x, w1)"
    then show ?thesis using bare_status[of pf st a f w] 2 by simp
  next
    assume n: "needs_config a" "w1 = w" and l: "load pf st = Inl x"
    from l show ?thesis by (cases rule: unloaded) (use 2 n in auto)
  next
    fix cfg lg
    assume "load pf st = Inr (cfg, lg)" "run_on pf st cfg a w x w1"
    then show ?thesis using command_status loaded_valid 2 by blast
  qed
qed

lemma body_extends: "runE pf st a w x w1 \<Longrightarrow> extends w w1"
proof (erule runE_cases)
  fix f
  assume "bare_action pf st a = Some f" "f w = (x, w1)"
  from bare_effects[OF this] show ?thesis by (simp add: effects_def)
next
  fix cfg lg
  assume "run_on pf st cfg a w x w1"
  from command_effects[OF this] show ?thesis by (simp add: effects_def)
qed simp

section \<open>Properties\<close>

text \<open>C4. A dry run changes nothing anywhere, whichever command it is. Whatever the sites answer and
  however the events of a serving process interleave, a process started with the dry-run flag runs
  only the mirror's commands in their dry form (transfers along the configured paths that rsync is
  told to rehearse, and repository checks) and the reading commands of the doctor and of the key
  comparison; it runs them only once a configuration has been loaded; and no file is written, except
  by the wizard, which does not know the flag.\<close>

theorem dry_run_inert:
  assumes "geoctl pf args w n w'" and "pf_parse pf newRootCmd args = Chosen path st" and "gl_dryRun (globals st)"
  shows "(\<forall>x \<in> set (execs (added w w')). \<exists>cfg lg. load pf st = Inr (cfg, lg) \<and> dry_call cfg x) \<and>
    (\<forall>p c. WriteFile p c \<in> set (added w w') \<longrightarrow> path = [''init''] \<and> p = init_path st)"
  using assms(1)
proof (cases rule: geoctl_runs)
  case (ran a st' x w1)
  then have a: "path = action_path a" and r: "runE pf st a w x w1" using assms(2) by simp_all
  let ?M = "\<lambda>x. \<exists>cfg lg. load pf st = Inr (cfg, lg) \<and> dry_call cfg x"
  let ?W = "\<lambda>e. \<forall>p c. e = WriteFile p c \<longrightarrow> path = [''init''] \<and> p = init_path st"
  have "effects (runs_only ?M) w w1 \<and> effects ?W w w1"
    using r
  proof (rule runE_cases)
    fix f
    assume "bare_action pf st a = Some f" "f w = (x, w1)"
    note b = bare_effects[OF this]
    have "effects (runs_only ?M) w w1" using b by (rule effects_mono) auto
    moreover have "effects ?W w w1" using b by (rule effects_mono) (auto simp: a)
    ultimately show ?thesis ..
  next
    fix cfg lg
    assume l: "load pf st = Inr (cfg, lg)" and c: "run_on pf st cfg a w x w1"
    have "effects (runs_only ?M) w w1"
      using command_dry[OF c assms(3)] by (rule runs_only_mono) (use l in blast)
    moreover have "effects ?W w w1"
      using command_effects[OF c] by (rule effects_mono) (use assms(3) in \<open>auto simp: setup_write_def\<close>)
    ultimately show ?thesis ..
  qed auto
  then have "effects (runs_only ?M) w w'" "effects ?W w w'" unfolding ran(4) by (auto intro: report_effects)
  then show ?thesis unfolding effects_runs_only by (auto simp: effects_def)
qed (use assms(2) in simp_all)

text \<open>C13. Databases are only read, and two commands write files. Whatever a process does, dry run or not,
  every statement it sends to a database reads, and it writes no file, except that the wizard
  writes the configuration it was told to write, and that a bootstrap that is no dry run writes the
  settings file of the data directory it was given, with its application named.\<close>

theorem two_writers:
  assumes "geoctl pf args w n w'" and "e \<in> set (added w w')"
  shows "observing e \<or> (\<exists>path st p c. pf_parse pf newRootCmd args = Chosen path st \<and> e = WriteFile p c \<and>
     (path = [''init''] \<and> p = init_path st \<or>
      path = [''pg'', ''setup''] \<and> \<not> gl_dryRun (globals st) \<and>
        p = auto_conf (string_flag setup_flags st ''data-dir'') \<and> settled c))"
  using assms(1)
proof (cases rule: geoctl_runs)
  case (ran a st x w1)
  let ?P = "\<lambda>e. observing e \<or> a = RunPGSetup \<and> setup_write st e \<or> a = RunInit \<and> (\<exists>c. e = WriteFile (init_path st) c)"
  have "effects ?P w w1"
    using ran(2)
  proof (rule runE_cases)
    fix f
    assume "bare_action pf st a = Some f" "f w = (x, w1)"
    from bare_effects[OF this] show ?thesis by (rule effects_mono) auto
  next
    fix cfg lg
    assume "run_on pf st cfg a w x w1"
    from command_effects[OF this] show ?thesis by (rule effects_mono) blast
  qed auto
  then have "effects ?P w w'" unfolding ran(4) by (intro report_effects) auto
  then have "?P e" using assms(2) by (simp add: effects_def)
  then show ?thesis using ran(1) by (auto simp: setup_write_def)
qed (use assms(2) in \<open>simp_all add: error_line_def\<close>)


section \<open>Witnesses\<close>

definition sample_platform :: "string list \<Rightarrow> settings \<Rightarrow> platform" where
  "sample_platform path st =
     \<lparr>pf_parse = (\<lambda>c args. Chosen path st), pf_read_file = (\<lambda>_. Inr []), pf_yaml = (\<lambda>_. Inr sample_config),
      pf_env = sample_env, pf_aws = (\<lambda>_. None), pf_registry_json = \<lparr>dec_catalog = (\<lambda>_. Inr []), dec_tags = (\<lambda>_. Inr [])\<rparr>,
      pf_webhook_json = (\<lambda>_. Inl []), pf_gathered = Inr [], pf_now = 0,
      pf_build = \<lparr>vi_Version = ''dev'', vi_Commit = ''none'', vi_BuildDate = ''unknown'', vi_GoVersion = ''go1.23'', vi_OS = ''linux'', vi_Arch = ''amd64''\<rparr>, pf_stdin = []\<rparr>"

theorem dry_run_inert_witness:
  "\<exists>n w'. geoctl (sample_platform [''dbkey''] [(''dry-run'', BoolValue True)]) [] (calm_world []) n w' \<and>
     execs (added (calm_world []) w') \<noteq> [] \<and>
     (\<forall>x \<in> set (execs (added (calm_world []) w')). \<exists>cfg. dry_call cfg x)"
proof -
  let ?st = "[(''dry-run'', BoolValue True)]"
  let ?pf = "sample_platform [''dbkey''] ?st" and ?w = "calm_world []"
  have d: "gl_dryRun (globals ?st)" by code_simp
  have "case load ?pf ?st of
      Inr (cfg, lg) \<Rightarrow> execs (trace (snd (dbkey_cmd cfg ?w))) \<noteq> [] | Inl _ \<Rightarrow> False" by code_simp
  then obtain cfg lg where l: "load ?pf ?st = Inr (cfg, lg)" and ne: "execs (trace (snd (dbkey_cmd cfg ?w))) \<noteq> []"
    by (auto split: sum.splits)
  obtain x w1 where r: "dbkey_cmd cfg ?w = (x, w1)" by fastforce
  have "runE ?pf ?st RunDBKey ?w x w1"
    by (rule run_loaded[OF _ l on_site[of ?st RunDBKey cfg "dbkey_cmd cfg"]]) (simp_all add: needs_config_def r)
  moreover obtain c where "find_command newRootCmd [''dbkey''] = Some c" "cm_run c = Some RunDBKey"
    using action_found[of RunDBKey] by auto
  ultimately have g: "geoctl ?pf [] ?w (exit_status x) (report RunDBKey x w1)"
    using geoctl_ran[where pf = ?pf and path = "[''dbkey'']" and st = ?st and args = "[]"] by (simp add: sample_platform_def)
  have "extends ?w w1" using dbkey_runs_only r unfolding dbkey_cmd_def effects_def by (metis extends_refl snd_conv)
  then have "execs (added ?w (report RunDBKey x w1)) \<noteq> []"
    using ne r by (auto simp: report_def error_line_def added_emitI added_def calm_world_def split: option.splits)
  then show ?thesis using dry_run_inert[OF g _ d] g by (fastforce simp: sample_platform_def)
qed

theorem two_writers_witness:
  "\<exists>n w' c. geoctl (sample_platform [''init''] []) [] (calm_world []) n w' \<and>
     WriteFile ''config.yaml'' c \<in> set (added (calm_world []) w') \<and> init_path [] = ''config.yaml''"
proof -
  let ?pf = "sample_platform [''init''] []" and ?w = "calm_world []"
  obtain a rest w1 where r: "RunWithInput ([], ?w) = (a, (rest, w1))" by (metis prod.collapse)
  define w2 where "w2 = emit (WriteFile ''config.yaml'' (GenerateYAML a)) w1"
  have x: "extends ?w w1" using RunWithInput_talks[OF r] by (simp add: talks_def)
  then have "write_err w1 = write_err ?w" by (rule extends_env)
  then have p: "write_path ''config.yaml'' (GenerateYAML a) w1 = (None, w2)"
    by (simp add: write_path_def w2_def calm_world_def)
  have "string_flag init_flags [] ''output'' = ''config.yaml''" by code_simp
  then have i: "init_cmd (string_flag init_flags [] ''output'') (pf_stdin ?pf) ?w = (ExitOk, print_all (next_steps ''config.yaml'') w2)"
    using r p by (simp add: init_cmd_def sample_platform_def Let_def)
  have "runE ?pf [] RunInit ?w ExitOk (print_all (next_steps ''config.yaml'') w2)"
    by (rule run_bare[of ?pf "[]" RunInit "init_cmd (string_flag init_flags [] ''output'') (pf_stdin ?pf)"]) (simp_all only: bare_action.simps i)
  moreover obtain c where "find_command newRootCmd [''init''] = Some c" "cm_run c = Some RunInit"
    using action_found[of RunInit] by auto
  ultimately have g: "geoctl ?pf [] ?w 0 (print_all (next_steps ''config.yaml'') w2)"
    using geoctl_ran[where pf = ?pf and path = "[''init'']" and st = "[]" and args = "[]" and x = ExitOk]
    by (simp add: sample_platform_def report_def)
  have "extends ?w w2" "WriteFile ''config.yaml'' (GenerateYAML a) \<in> set (added ?w w2)"
    unfolding w2_def using x by (simp_all add: extends_emitI added_emitI)
  then have m: "WriteFile ''config.yaml'' (GenerateYAML a) \<in> set (added ?w (print_all (next_steps ''config.yaml'') w2))"
    using added_trans[of ?w w2 "print_all (next_steps ''config.yaml'') w2"] print_all_events[of w2 "next_steps ''config.yaml''"]
    by (simp only: set_append Un_iff simp_thms)
  have p: "pf_parse ?pf newRootCmd [] = Chosen [''init''] []" by (simp add: sample_platform_def)
  have "init_path [] = ''config.yaml''" using two_writers[OF g m] unfolding p by auto
  then show ?thesis using g m by blast
qed


end
