(* ===== verification/Autorepair.thy ===== *)
theory Autorepair
  imports GitFetch
begin

text \<open>
  \<open>internal/autorepair/autorepair.go\<close>: the repair of one repository by a fresh fetch, and of one S3
  object, which only logs. The runner the repairer holds is the real one; \<open>WithRunner\<close> exists for
  tests and is left out.
\<close>

section \<open>Repositories\<close>

record git_repair =
  ar_primarySSHHost :: string
  ar_reposPath :: string
  ar_dryRun :: bool

definition NewGitRepair :: "string \<Rightarrow> string \<Rightarrow> bool \<Rightarrow> git_repair" where
  "NewGitRepair primarySSHHost reposPath dryRun =
     \<lparr>ar_primarySSHHost = primarySSHHost, ar_reposPath = reposPath, ar_dryRun = dryRun\<rparr>"

definition repair_args :: "git_repair \<Rightarrow> string \<Rightarrow> string list" where
  "repair_args g repoPath =
     [''-C'', path_join [ar_reposPath g, repoPath], ''fetch'', ''--prune'', ''--no-tags'',
      ''ssh://'' @ ar_primarySSHHost g @ ''/var/opt/gitlab/git-data/repositories/'' @ repoPath,
      ''+refs/*:refs/*'', ''+refs/tags/*:refs/tags/*'']"

definition RepairRepo :: "git_repair \<Rightarrow> string \<Rightarrow> step" where
  "RepairRepo g repoPath w =
     (if ar_dryRun g then (None, emit (Logged ''info'' (''[dry-run] would repair: '' @ repoPath)) w)
      else (case RunWith ''git'' (repair_args g repoPath) [] w of
              ((out, Some e), w1) \<Rightarrow> (Some (''git fetch '' @ repoPath @ '': '' @ e @ '': '' @ trim_space out), w1)
            | ((out, None), w1) \<Rightarrow> (None, emit (Logged ''info'' (''auto-repaired git repo: '' @ repoPath)) w1)))"

section \<open>Objects\<close>

definition RepairObject :: "bool \<Rightarrow> string \<Rightarrow> string \<Rightarrow> step" where
  "RepairObject dryRun bucket key w =
     (None,
      emit (if dryRun then Logged ''info'' (''[dry-run] would copy S3 object: '' @ bucket @ ''/'' @ key)
            else Logged ''warn'' (''S3 object drift detected; relying on bucket replication to catch up: '' @
                                  bucket @ ''/'' @ key)) w)"

section \<open>Lemmas\<close>

lemma RepairRepo_spec:
  assumes "RepairRepo g p w = (r, w')"
  shows "extends w w'" and "execs (added w w') = (if ar_dryRun g then [] else [(''git'', repair_args g p)])"
  using assms
  by (auto simp: RepairRepo_def RunWith_def exec_cmd_def added_emitI extends_emitI split: if_splits option.splits prod.splits)

text \<open>No object is copied: the repair runs nothing and cannot fail.\<close>

lemma RepairObject_idle: "\<exists>w'. RepairObject d b k w = (None, w') \<and> extends w w' \<and> execs (added w w') = []"
  by (simp add: RepairObject_def)

text \<open>
  The path is not validated as \<open>FetchProject\<close> validates it: one that climbs out of the repositories
  directory is handed to git.
\<close>

lemma repair_path_escapes:
  "repair_args (NewGitRepair ''p:22'' ''/repos'' False) ''../x.git'' ! 1 = ''/x.git''"
  by code_simp

text \<open>The command and the environment of the only event of a run, if there is one.\<close>

definition sole_exec :: "event list \<Rightarrow> (string \<times> string list \<times> string list) option" where
  "sole_exec es = (case es of Exec p a n # _ \<Rightarrow> Some (p, a, n) | _ \<Rightarrow> None)"

text \<open>A repair fetches what a sweep would fetch: with the same host and repositories directory, it
  sends the very command with which the sweep's fetch of a project of that (non-empty) path would
  start, and reports success exactly if that fetch would. Both run nothing in a dry run. Only the
  environment differs: the sweep hands git the ssh options of the configuration, the repair none.\<close>

lemma repair_matches_fetch:
  assumes "path \<noteq> []" and "\<And>env env'. cmd_reply w (trace w) ''git'' args env = cmd_reply w (trace w) ''git'' args env'"
    and "args = git_args (gf_New host repos n pool dry c) \<lparr>ID = i, RepoPath = path\<rparr>"
    and "RepairRepo (NewGitRepair host repos dry) path w = (r, w1)"
    and "fetchOne (gf_New host repos n pool dry c) \<lparr>ID = i, RepoPath = path\<rparr> w = (ok, w2)"
  shows "execs (added w w1) = execs (added w w2) \<and> (r = None) = ok \<and>
    sole_exec (added w w1) = (if dry then None else Some (''git'', args, [])) \<and>
    sole_exec (added w w2) = (if dry then None else Some (''git'', args, [''GIT_SSH_COMMAND='' @ SSHString c]))"
proof -
  let ?r = "gf_New host repos n pool dry c" and ?p = "\<lparr>ID = i, RepoPath = path\<rparr>"
  have a: "repair_args (NewGitRepair host repos dry) path = args"
    unfolding assms(3) by (simp add: repair_args_def git_args_def NewGitRepair_def gf_New_def)
  have d: "ar_dryRun (NewGitRepair host repos dry) = dry" "gf_dryRun ?r = dry" "git_env ?r = [''GIT_SSH_COMMAND='' @ SSHString c]"
    "RepoPath ?p \<noteq> []"
    using assms(1) by (simp_all add: NewGitRepair_def gf_New_def git_env_def)
  obtain out e where q: "cmd_reply w (trace w) ''git'' args env = (out, e)" for env
    using assms(2) by (metis prod.collapse)
  show ?thesis
  proof (cases dry)
    case True
    then show ?thesis using assms(4,5) d by (auto simp: RepairRepo_def fetchOne_def sole_exec_def)
  next
    case False
    then have R: "RepairRepo (NewGitRepair host repos dry) path w =
        (case e of Some x \<Rightarrow> (Some (''git fetch '' @ path @ '': '' @ x @ '': '' @ trim_space out), emit (Exec ''git'' args []) w)
         | None \<Rightarrow> (None, emit (Logged ''info'' (''auto-repaired git repo: '' @ path)) (emit (Exec ''git'' args []) w)))"
      and F: "fetchOne ?r ?p w =
        (case e of Some x \<Rightarrow> (False, emit (Logged ''warn'' (''git fetch failed: '' @ path)) (emit (Exec ''git'' args (git_env ?r)) w))
         | None \<Rightarrow> (True, emit (Exec ''git'' args (git_env ?r)) w))"
      unfolding RepairRepo_def fetchOne_def RunWith_def exec_cmd_def a d(1,2) q assms(3)[symmetric]
      using d(4) by (cases e; simp)+
    show ?thesis
      using False assms(4,5) unfolding R F d(3)
      by (cases e) (auto simp: added_emitI extends_emitI sole_exec_def)
  qed
qed

lemma repair_matches_fetch_witness:
  "sole_exec (added (calm_world []) (snd (RepairRepo (NewGitRepair ''p:22'' ''/repos'' False) ''g/x.git'' (calm_world [])))) =
     Some (''git'', git_args (gf_New ''p:22'' ''/repos'' ''s'' ''dsn'' False ssh_Default) \<lparr>ID = 0, RepoPath = ''g/x.git''\<rparr>, [])"
proof -
  let ?g = "NewGitRepair ''p:22'' ''/repos'' False" and ?r = "gf_New ''p:22'' ''/repos'' ''s'' ''dsn'' False ssh_Default"
    and ?p = "\<lparr>ID = 0, RepoPath = ''g/x.git''\<rparr>"
  obtain r w1 where R: "RepairRepo ?g ''g/x.git'' (calm_world []) = (r, w1)" by fastforce
  obtain ok w2 where F: "fetchOne ?r ?p (calm_world []) = (ok, w2)" by fastforce
  have c: "cmd_reply (calm_world []) (trace (calm_world [])) ''git'' (git_args ?r ?p) env =
      cmd_reply (calm_world []) (trace (calm_world [])) ''git'' (git_args ?r ?p) env'" for env env'
    by (simp add: calm_world_def)
  have "sole_exec (added (calm_world []) w1) = (if False then None else Some (''git'', git_args ?r ?p, []))"
    using repair_matches_fetch[OF _ c refl R F] by simp
  then show ?thesis unfolding R snd_conv by (simp only: if_False)
qed

end
