(* ===== verification/Webhook_Process.thy ===== *)
theory Webhook_Process
  imports Webhook Metrics
begin

text \<open>
  The receiver and the trigger manager of \<open>internal/webhook/webhook.go\<close> put together: a job that the
  handler starts calls \<open>Trigger\<close>, waits there, fetches or gives up, leaves, and then frees its slot.
  Requests, jobs and context cancellations interleave in any order; the fetch itself is one step.
\<close>

section \<open>The process\<close>

text \<open>
  A job has started; is in call \<open>i\<close> of \<open>Trigger\<close>; is about to run the deferred function of that call,
  with the call's result; or has that result.
\<close>

datatype job_state = Started | InCall nat | Deferred nat "string option" | Returned "string option"

type_synonym hook_state = "(job \<times> job_state) list \<times> trigger_manager \<times> world"

inductive hook_step ::
    "(string \<Rightarrow> string + string) \<Rightarrow> trigger_func \<Rightarrow> wh_server \<Rightarrow> hook_state \<Rightarrow> hook_state \<Rightarrow> bool"
  for um fetch s where
  hook_arrives: "handleWebhook um s req (map fst js) w = ((code, map fst js @ new), w') \<Longrightarrow>
    hook_step um fetch s (js, m, w) (js @ map (\<lambda>j. (j, Started)) new, m, w')"
| hook_enters: "hook_step um fetch s (pre @ (j, Started) # post, m, w)
    (pre @ (j, InCall (length (tm_calls m))) # post, trigger_enter (fst j) m, w)"
| hook_context: "tm_step (ParentDone i) m = Some m' \<Longrightarrow> hook_step um fetch s (js, m, w) (js, m', w)"
| hook_gives_up: "tm_step (SeesCancel i) m = Some m' \<Longrightarrow>
    hook_step um fetch s (pre @ (j, InCall i) # post, m, w) (pre @ (j, Deferred i (Some e)) # post, m', w)"
| hook_timer: "tm_step (TimerFires i) m = Some m' \<Longrightarrow> hook_step um fetch s (js, m, w) (js, m', w)"
| hook_fetches: "tm_step (FetchReturns i) m = Some m' \<Longrightarrow> fetch (fst j) (snd j) w r w' \<Longrightarrow>
    hook_step um fetch s (pre @ (j, InCall i) # post, m, w) (pre @ (j, Deferred i r) # post, m', w')"
| hook_leaves: "tm_step (Leave i) m = Some m' \<Longrightarrow>
    hook_step um fetch s (pre @ (j, Deferred i r) # post, m, w) (pre @ (j, Returned r) # post, m', w)"
| hook_finishes: "hook_step um fetch s (pre @ (j, Returned r) # post, m, w) (pre @ post, m, finishJob j r w)"

inductive hook_reach ::
    "(string \<Rightarrow> string + string) \<Rightarrow> trigger_func \<Rightarrow> wh_server \<Rightarrow> world \<Rightarrow> hook_state \<Rightarrow> bool"
  for um fetch s w0 where
  hook_start: "hook_reach um fetch s w0 ([], NewTriggerManager, w0)"
| hook_next: "hook_reach um fetch s w0 st \<Longrightarrow> hook_step um fetch s st st' \<Longrightarrow> hook_reach um fetch s w0 st'"

section \<open>The listener\<close>

text \<open>The routes of the receiver, the answer of its handler given, and what \<open>Start\<close> returns.\<close>

definition webhook_route :: "int \<times> string \<Rightarrow> string \<Rightarrow> int \<times> string" where
  "webhook_route handled path =
     (if path = ''/webhook'' then handled
      else if path = ''/healthz'' then (200, ''ok'' @ nl)
      else (404, ''404 page not found'' @ nl))"

definition webhook_Start :: "wh_server \<Rightarrow> listener_end \<Rightarrow> step" where
  "webhook_Start s l w =
     (Start_result l, emit (Logged ''info'' (''webhook server listening: '' @ hs_Addr (http_server_of (sv_addr s)))) w)"

section \<open>Calls and their jobs\<close>

text \<open>The call a job is in.\<close>

fun call_of :: "job_state \<Rightarrow> nat option" where
  "call_of (InCall i) = Some i"
| "call_of (Deferred i r) = Some i"
| "call_of _ = None"

definition calls_of :: "(job \<times> job_state) list \<Rightarrow> nat list" where
  "calls_of js = List.map_filter (\<lambda>x. call_of (snd x)) js"

lemma calls_of_simps [simp]:
  "calls_of [] = []" "calls_of (xs @ ys) = calls_of xs @ calls_of ys"
  "calls_of (x # xs) = (case call_of (snd x) of Some i \<Rightarrow> i # calls_of xs | None \<Rightarrow> calls_of xs)"
  "calls_of (map (\<lambda>j. (j, Started)) new) = []"
  by (auto simp: calls_of_def map_filter_def split: option.split)

lemma calls_of_member: "i \<in> set (calls_of js) \<longleftrightarrow> (\<exists>x \<in> set js. call_of (snd x) = Some i)"
  by (induction js) (auto split: option.splits)

lemma calls_of_length: "length (calls_of js) \<le> length js"
  by (simp add: calls_of_def map_filter_def)

definition live :: "trigger_manager \<Rightarrow> nat \<Rightarrow> bool" where
  "live m i \<longleftrightarrow> i < length (tm_calls m) \<and> cl_phase (tm_calls m ! i) \<noteq> Gone"

text \<open>
  A call of a job is where the job says it is, for the job's project; different jobs are in
  different calls, and every call that has not left is some job's. A stored entry is a call of its
  project that has not left.
\<close>

fun call_ok :: "trigger_manager \<Rightarrow> job \<times> job_state \<Rightarrow> bool" where
  "call_ok m (j, InCall i) \<longleftrightarrow> i < length (tm_calls m) \<and> cl_path (tm_calls m ! i) = fst j \<and>
     cl_phase (tm_calls m ! i) \<in> {Debouncing, Fetching}"
| "call_ok m (j, Deferred i r) \<longleftrightarrow> i < length (tm_calls m) \<and> cl_path (tm_calls m ! i) = fst j \<and>
     cl_phase (tm_calls m ! i) = Leaving"
| "call_ok m (j, _) \<longleftrightarrow> True"

definition hook_ok :: "wh_server \<Rightarrow> hook_state \<Rightarrow> bool" where
  "hook_ok s st \<longleftrightarrow>
     (case st of (js, m, w) \<Rightarrow>
        length js \<le> sv_cap s \<and> (\<forall>x \<in> set js. Validate (fst (fst x)) = None \<and> call_ok m x) \<and>
        distinct (calls_of js) \<and> (\<forall>i. live m i \<longrightarrow> i \<in> set (calls_of js)) \<and>
        (\<forall>p k. tm_pending m p = Some k \<longrightarrow> live m k \<and> cl_path (tm_calls m ! k) = p))"

text \<open>What the operations of the manager do to a call.\<close>

lemma call_after [simp]:
  "k < length (tm_calls m) \<Longrightarrow> tm_calls (set_cancelled i m) ! k =
     (if i = k then (tm_calls m ! k)\<lparr>cl_cancelled := True\<rparr> else tm_calls m ! k)"
  "k < length (tm_calls m) \<Longrightarrow> tm_calls (set_phase i ph m) ! k =
     (if i = k then (tm_calls m ! k)\<lparr>cl_phase := ph\<rparr> else tm_calls m ! k)"
  by (auto simp: set_cancelled_def set_phase_def nth_update_in)

lemma manager_sizes [simp]:
  "length (tm_calls (set_cancelled i m)) = length (tm_calls m)" "tm_pending (set_cancelled i m) = tm_pending m"
  "length (tm_calls (set_phase i ph m)) = length (tm_calls m)" "tm_pending (set_phase i ph m) = tm_pending m"
  by (simp_all add: set_cancelled_def set_phase_def)

lemma set_cancelled_ok:
  "hook_ok s (js, m, w) \<Longrightarrow> hook_ok s (js, set_cancelled i m, w')"
proof -
  have "call_ok m x \<Longrightarrow> call_ok (set_cancelled i m) x" for x
    by (cases "(m, x)" rule: call_ok.cases) auto
  moreover have "live (set_cancelled i m) k = live m k" for k by (auto simp: live_def split: if_splits)
  moreover have "live m k \<Longrightarrow> cl_path (tm_calls (set_cancelled i m) ! k) = cl_path (tm_calls m ! k)" for k
    by (auto simp: live_def)
  ultimately show "hook_ok s (js, m, w) \<Longrightarrow> hook_ok s (js, set_cancelled i m, w')"
    by (auto simp: hook_ok_def)
qed

text \<open>A change of the phase of call \<open>i\<close> concerns only the job in that call.\<close>

lemma other_calls:
  assumes "distinct (calls_of (pre @ (j, st) # post))" and "call_of st = Some i" and "x \<in> set pre \<union> set post"
  shows "call_of (snd x) \<noteq> Some i"
proof -
  have "call_of (snd x) = Some i \<Longrightarrow> i \<in> set (calls_of pre) \<union> set (calls_of post)"
    using assms(3) calls_of_member[of i pre] calls_of_member[of i post] by blast
  then show ?thesis using assms(1,2) by auto
qed

lemma call_ok_other: "call_ok m x \<Longrightarrow> call_of (snd x) \<noteq> Some i \<Longrightarrow> call_ok (set_phase i ph m) x"
  by (cases "(m, x)" rule: call_ok.cases) auto

lemma phase_ok:
  assumes ok: "hook_ok s (pre @ (j, st) # post, m, w)" and c: "call_of st = Some i" "call_of st' = Some i"
    and ph: "ph \<noteq> Gone" "call_ok (set_phase i ph m) (j, st')"
  shows "hook_ok s (pre @ (j, st') # post, set_phase i ph m, w')"
proof -
  have d: "distinct (calls_of (pre @ (j, st) # post))" using ok by (simp add: hook_ok_def)
  have "call_ok (set_phase i ph m) x" if "x \<in> set pre \<union> set post" for x
    using ok that other_calls[OF d c(1) that] call_ok_other by (auto simp: hook_ok_def)
  moreover have "live (set_phase i ph m) k \<Longrightarrow> live m k" for k
  proof -
    have "live m i" using ok c(1) by (cases st) (auto simp: hook_ok_def live_def)
    then show "live (set_phase i ph m) k \<Longrightarrow> live m k" by (auto simp: live_def split: if_splits)
  qed
  moreover have "live m k \<Longrightarrow> live (set_phase i ph m) k \<and> cl_path (tm_calls (set_phase i ph m) ! k) = cl_path (tm_calls m ! k)" for k
    using ph(1) by (auto simp: live_def)
  ultimately show ?thesis using ok c ph(2) by (auto simp: hook_ok_def)
qed

lemma enter_ok:
  assumes ok: "hook_ok s (pre @ (j, Started) # post, m, w)"
  shows "hook_ok s (pre @ (j, InCall (length (tm_calls m))) # post, trigger_enter (fst j) m, w)"
proof -
  define m1 where "m1 = (case tm_pending m (fst j) of Some i \<Rightarrow> set_cancelled i m | None \<Rightarrow> m)"
  have ok1: "hook_ok s (pre @ (j, Started) # post, m1, w)"
    unfolding m1_def using ok set_cancelled_ok[OF ok] by (cases "tm_pending m (fst j)") auto
  let ?n = "length (tm_calls m1)" and ?m2 = "trigger_enter (fst j) m"
  have n: "?n = length (tm_calls m)" unfolding m1_def by (auto split: option.split)
  have t: "?m2 = m1\<lparr>tm_pending := (tm_pending m1)(fst j \<mapsto> ?n),
      tm_calls := tm_calls m1 @ [\<lparr>cl_path = fst j, cl_cancelled = False, cl_phase = Debouncing\<rparr>]\<rparr>"
    by (simp add: trigger_enter_def m1_def Let_def)
  have old: "call_ok m1 x \<Longrightarrow> call_ok ?m2 x" for x
    unfolding t by (cases "(m1, x)" rule: call_ok.cases) (auto simp: nth_append)
  have lv: "live ?m2 k \<longleftrightarrow> live m1 k \<or> k = ?n" for k
    unfolding t by (auto simp: live_def nth_append less_Suc_eq)
  have pa: "live m1 k \<Longrightarrow> cl_path (tm_calls ?m2 ! k) = cl_path (tm_calls m1 ! k)" for k
    unfolding t by (auto simp: live_def nth_append)
  have new: "call_ok ?m2 (j, InCall ?n)" "cl_path (tm_calls ?m2 ! ?n) = fst j" unfolding t by simp_all
  have fresh: "?n \<notin> set (calls_of (pre @ (j, Started) # post))"
  proof
    assume "?n \<in> set (calls_of (pre @ (j, Started) # post))"
    then obtain x where "x \<in> set (pre @ (j, Started) # post)" "call_of (snd x) = Some ?n"
      unfolding calls_of_member by blast
    then have "call_ok m1 x" "call_of (snd x) = Some ?n" using ok1 by (auto simp: hook_ok_def)
    then show False by (cases "(m1, x)" rule: call_ok.cases) auto
  qed
  have p: "tm_pending ?m2 = (tm_pending m1)(fst j \<mapsto> ?n)" unfolding t by simp
  show ?thesis
    using ok1 old lv pa new fresh unfolding hook_ok_def n[symmetric] by (auto simp: p split: if_splits)
qed

lemma leave_ok:
  assumes ok: "hook_ok s (pre @ (j, Deferred i r) # post, m, w)"
  shows "hook_ok s (pre @ (j, Returned r) # post, trigger_leave i m, w)"
proof -
  let ?m1 = "m\<lparr>tm_pending := (tm_pending m)(cl_path (tm_calls m ! i) := None)\<rparr>"
  have t: "trigger_leave i m = set_phase i Gone ?m1" by (simp add: trigger_leave_def)
  have same: "call_ok ?m1 x = call_ok m x" "live ?m1 k = live m k" for x k
    by (cases "(m, x)" rule: call_ok.cases) (auto simp: live_def)
  have d: "distinct (calls_of (pre @ (j, Deferred i r) # post))" using ok by (simp add: hook_ok_def)
  have i: "i < length (tm_calls m)" using ok by (simp add: hook_ok_def)
  have others: "call_ok (set_phase i Gone ?m1) x" if "x \<in> set pre \<union> set post" for x
    using ok that other_calls[OF d _ that, of i] call_ok_other[of ?m1 x i Gone] same by (auto simp: hook_ok_def)
  have lv: "live (set_phase i Gone ?m1) k \<longleftrightarrow> live m k \<and> k \<noteq> i" for k
    using i by (auto simp: live_def split: if_splits)
  have pend: "tm_pending (set_phase i Gone ?m1) p = Some k \<Longrightarrow>
      live (set_phase i Gone ?m1) k \<and> cl_path (tm_calls (set_phase i Gone ?m1) ! k) = p" for p k
  proof -
    assume a: "tm_pending (set_phase i Gone ?m1) p = Some k"
    then have "tm_pending m p = Some k" "p \<noteq> cl_path (tm_calls m ! i)" by (auto split: if_splits)
    then have "live m k" "cl_path (tm_calls m ! k) = p" "k \<noteq> i" using ok by (auto simp: hook_ok_def)
    then show ?thesis using lv by (simp add: live_def)
  qed
  show ?thesis
    unfolding t hook_ok_def using ok others lv pend d by (auto simp: hook_ok_def)
qed

lemma hook_step_ok:
  assumes "hook_ok s st" and "hook_step um fetch s st st'"
  shows "hook_ok s st'"
  using assms(2)
proof cases
  case (hook_arrives req js w code new w' m)
  have len: "length js \<le> sv_cap s" using assms(1) hook_arrives by (simp add: hook_ok_def)
  have "length (map fst js @ new) \<le> sv_cap s \<and> (\<forall>j \<in> set new. Validate (fst j) = None)"
    using handle_cases[OF hook_arrives(3)] len by (auto simp: names_project_def split: if_splits)
  then show ?thesis using assms(1) hook_arrives by (auto simp: hook_ok_def)
next
  case (hook_enters pre j post m w)
  then show ?thesis using assms(1) enter_ok by blast
next
  case (hook_context i m m' js w)
  then have "m' = set_cancelled i m" by (simp split: if_splits)
  then show ?thesis using set_cancelled_ok assms(1) hook_context by blast
next
  case (hook_gives_up i m m' pre j post w e)
  then have m': "m' = set_phase i Leaving m" by (simp split: if_splits)
  have ok: "hook_ok s (pre @ (j, InCall i) # post, m, w)" using assms(1) hook_gives_up(1) by simp
  then have "call_ok m (j, InCall i)" by (simp add: hook_ok_def)
  then have c: "call_ok (set_phase i Leaving m) (j, Deferred i (Some e))" by simp
  show ?thesis unfolding hook_gives_up(2) m' by (rule phase_ok[OF ok _ _ _ c]) simp_all
next
  case (hook_timer i m m' js w)
  then have m': "m' = set_phase i Fetching m" and i: "in_phase i Debouncing m" by (simp_all split: if_splits)
  then have "i \<in> set (calls_of js)" using assms(1) hook_timer by (auto simp: hook_ok_def live_def in_phase_def)
  then obtain j st where "(j, st) \<in> set js" and c: "call_of st = Some i" unfolding calls_of_member by force
  then obtain pre post where js: "js = pre @ (j, st) # post" by (meson split_list)
  have ok: "hook_ok s (pre @ (j, st) # post, m, w)" using assms(1) hook_timer(1) js by simp
  then have "call_ok m (j, st)" by (simp add: hook_ok_def)
  then have k: "call_ok (set_phase i Fetching m) (j, st)" using c i by (cases st) (auto simp: in_phase_def)
  show ?thesis unfolding hook_timer(2) m' js by (rule phase_ok[OF ok c c _ k]) simp
next
  case (hook_fetches i m m' j w r w' pre post)
  then have m': "m' = set_phase i Leaving m" by (simp split: if_splits)
  have ok: "hook_ok s (pre @ (j, InCall i) # post, m, w)" using assms(1) hook_fetches(1) by simp
  then have "call_ok m (j, InCall i)" by (simp add: hook_ok_def)
  then have c: "call_ok (set_phase i Leaving m) (j, Deferred i r)" by simp
  show ?thesis unfolding hook_fetches(2) m' by (rule phase_ok[OF ok _ _ _ c]) simp_all
next
  case (hook_leaves i m m' pre j r post w)
  then have "m' = trigger_leave i m" by (simp split: if_splits)
  then show ?thesis using leave_ok assms(1) hook_leaves by blast
next
  case (hook_finishes pre j r post m w)
  then show ?thesis using assms(1) by (auto simp: hook_ok_def)
qed

lemma hook_reach_ok: "hook_reach um fetch s w0 st \<Longrightarrow> hook_ok s st"
proof (induction rule: hook_reach.induct)
  case hook_start
  then show ?case by (simp add: hook_ok_def NewTriggerManager_def live_def)
next
  case (hook_next st st')
  then show ?case using hook_step_ok by blast
qed

lemma live_calls: "hook_ok s (js, m, w) \<Longrightarrow> finite {i. live m i} \<and> card {i. live m i} \<le> sv_cap s"
proof -
  assume ok: "hook_ok s (js, m, w)"
  have sub: "{i. live m i} \<subseteq> set (calls_of js)" using ok by (auto simp: hook_ok_def)
  have "card {i. live m i} \<le> card (set (calls_of js))" by (rule card_mono[OF _ sub]) simp
  also have "\<dots> \<le> length js" using card_length[of "calls_of js"] calls_of_length[of js] by linarith
  also have "\<dots> \<le> sv_cap s" using ok by (simp add: hook_ok_def)
  finally show ?thesis using finite_subset[OF sub] by simp
qed

text \<open>
  A push that a later one supersedes while it waits is no failure, but it is told as one: its call
  gives up with the error of its context, and the job logs an error.
\<close>

lemma superseded_push_logged_as_failure:
  assumes "hook_reach um fetch s w0 (pre @ (j, InCall i) # post, m, w)"
    and "in_phase i Debouncing m" "cl_cancelled (tm_calls m ! i)"
  shows "\<exists>m' w'. hook_reach um fetch s w0 (pre @ post, m', w') \<and>
    Logged ''error'' (''webhook-triggered sync failed: '' @ fst j) \<in> set (added w w')"
proof -
  let ?e = "''context canceled''" and ?m1 = "set_phase i Leaving m"
  have 1: "hook_reach um fetch s w0 (pre @ (j, Deferred i (Some ?e)) # post, ?m1, w)"
    using hook_next[OF assms(1) hook_gives_up[of i m ?m1]] assms(2,3) by simp
  have "in_phase i Leaving ?m1" using assms(2) by (simp add: in_phase_def)
  then have 2: "hook_reach um fetch s w0 (pre @ (j, Returned (Some ?e)) # post, trigger_leave i ?m1, w)"
    using hook_next[OF 1 hook_leaves[of i ?m1 "trigger_leave i ?m1"]] by simp
  have "Logged ''error'' (''webhook-triggered sync failed: '' @ fst j) \<in> set (added w (finishJob j (Some ?e) w))"
    by (simp add: finishJob_def added_def)
  then show ?thesis using hook_next[OF 2 hook_finishes] by blast
qed

section \<open>Properties\<close>

text \<open>C26. A flood of pushes is bounded all the way down: in every state that the receiver and the
  trigger manager can reach together, whatever requests, timers, timeouts, fetches and clean-ups
  interleave, at most eight jobs hold a slot, at most eight calls wait, fetch or are about to leave,
  and the map of pending projects has at most eight entries, each for a valid project path and
  pointing to a call of that project that has not left; so nothing is leaked.\<close>

theorem pushes_bounded:
  assumes "NewServer addr tok = Inr s" and "hook_reach um fetch s w0 (js, m, w)"
  shows "length js \<le> 8 \<and> card {i. live m i} \<le> 8 \<and> card (dom (tm_pending m)) \<le> 8 \<and>
    (\<forall>p k. tm_pending m p = Some k \<longrightarrow> Validate p = None \<and> live m k \<and> cl_path (tm_calls m ! k) = p)"
proof -
  have cap: "sv_cap s = 8" using assms(1) by (simp add: NewServer_Inr)
  note ok = hook_reach_ok[OF assms(2)]
  have pend: "Validate p = None \<and> live m k \<and> cl_path (tm_calls m ! k) = p" if e: "tm_pending m p = Some k" for p k
  proof -
    have l: "live m k" "cl_path (tm_calls m ! k) = p" using ok e by (auto simp: hook_ok_def)
    then have "k \<in> set (calls_of js)" using ok by (auto simp: hook_ok_def)
    then obtain x where x: "x \<in> set js" "call_of (snd x) = Some k" unfolding calls_of_member by blast
    then have "call_ok m x" "Validate (fst (fst x)) = None" using ok by (auto simp: hook_ok_def)
    then have "cl_path (tm_calls m ! k) = fst (fst x)" using x(2) by (cases "(m, x)" rule: call_ok.cases) auto
    then show ?thesis using l \<open>Validate (fst (fst x)) = None\<close> by simp
  qed
  have "inj_on (\<lambda>p. the (tm_pending m p)) (dom (tm_pending m))"
    using pend by (auto simp: inj_on_def) metis
  moreover have "(\<lambda>p. the (tm_pending m p)) ` dom (tm_pending m) \<subseteq> {i. live m i}" using pend by fastforce
  ultimately have "card (dom (tm_pending m)) \<le> card {i. live m i}"
    using card_inj_on_le live_calls[OF ok] by blast
  then show ?thesis using live_calls[OF ok] ok cap pend by (simp add: hook_ok_def)
qed

text \<open>Two pushes to one project: the second call cancels the first.\<close>

theorem pushes_bounded_witness:
  "\<exists>s js m w. NewServer '':8080'' ''tok'' = Inr s \<and>
     hook_reach Inr (\<lambda>_ _ w r w'. r = None \<and> w' = w) s (calm_world []) (js, m, w) \<and> length js = 2 \<and>
     cl_cancelled (tm_calls m ! 0) \<and> \<not> cl_cancelled (tm_calls m ! 1) \<and> card {i. live m i} \<le> 8 \<and>
     (\<forall>p k. tm_pending m p = Some k \<longrightarrow> Validate p = None \<and> live m k)"
proof -
  let ?s = "\<lparr>sv_addr = '':8080'', sv_secretToken = ''tok'', sv_cap = 8\<rparr>" and ?f = "\<lambda>_ _ w r w'. r = None \<and> w' = w"
  let ?j = "(''group/app'', ''Push Hook'')" and ?w = "calm_world []"
  have s: "NewServer '':8080'' ''tok'' = Inr ?s" by (simp add: NewServer_def)
  have v: "Validate ''group/app'' = None" by code_simp
  have h: "handleWebhook Inr ?s (push_request ''tok'') jobs ?w = ((200, jobs @ [?j]), ?w)" if "length jobs < 8" for jobs
    using that by (simp add: handleWebhook_def push_request_def read_body_def extractProjectPath_def limit_bytes_take v)
  let ?m1 = "trigger_enter ''group/app'' NewTriggerManager"
  let ?m2 = "trigger_enter ''group/app'' ?m1"
  have 1: "hook_reach Inr ?f ?s ?w ([(?j, Started)], NewTriggerManager, ?w)"
    using hook_next[OF hook_start hook_arrives[where js = "[]" and new = "[?j]"]] h[of "[]"] by simp
  have "hook_step Inr ?f ?s ([(?j, Started)], NewTriggerManager, ?w) ([(?j, InCall 0)], ?m1, ?w)"
    using hook_enters[of Inr ?f ?s "[]" ?j "[]" NewTriggerManager ?w] by (simp add: NewTriggerManager_def)
  then have 2: "hook_reach Inr ?f ?s ?w ([(?j, InCall 0)], ?m1, ?w)" by (rule hook_next[OF 1])
  have 3: "hook_reach Inr ?f ?s ?w ([(?j, InCall 0), (?j, Started)], ?m1, ?w)"
    using hook_next[OF 2 hook_arrives[where js = "[(?j, InCall 0)]" and new = "[?j]"]] h[of "[?j]"] by simp
  have n: "length (tm_calls ?m1) = 1" by code_simp
  have "hook_step Inr ?f ?s ([(?j, InCall 0), (?j, Started)], ?m1, ?w) ([(?j, InCall 0), (?j, InCall 1)], ?m2, ?w)"
    using hook_enters[of Inr ?f ?s "[(?j, InCall 0)]" ?j "[]" ?m1 ?w] n by simp
  then have 4: "hook_reach Inr ?f ?s ?w ([(?j, InCall 0), (?j, InCall 1)], ?m2, ?w)" by (rule hook_next[OF 3])
  have c: "cl_cancelled (tm_calls ?m2 ! 0)" "\<not> cl_cancelled (tm_calls ?m2 ! 1)" by code_simp+
  note B = pushes_bounded[OF s 4]
  have "card {i. live ?m2 i} \<le> 8" "\<forall>p k. tm_pending ?m2 p = Some k \<longrightarrow> Validate p = None \<and> live ?m2 k"
    using B by blast+
  then show ?thesis
    using s 4 c by (intro exI[of _ ?s] exI[of _ "[(?j, InCall 0), (?j, InCall 1)]"] exI[of _ ?m2] exI[of _ ?w]) simp
qed

end
