(* ===== verification/Yaml.thy ===== *)
theory Yaml
  imports Config
begin

text \<open>
  A reader for the part of YAML that the configuration files of this program are written in: block
  mappings and sequences whose leaves are plain or double-quoted scalars on one line, with
  comments and blank lines, in printable ASCII, as the YAML specification describes them; whatever
  is outside that part is refused. The program leaves this to a library, which stays a parameter of
  \<open>Load\<close>; the reader is what a property can require of that parameter when it speaks about the text
  of a file.
\<close>

section \<open>Lines\<close>

datatype yaml = Plain string | Quoted string | Mapping "(string \<times> yaml) list" | Sequence "yaml list"

text \<open>The pieces of a line, each at its indentation.\<close>

datatype item = Open string | Entry string yaml | Dash | Item yaml

type_synonym token = "nat \<times> item"

abbreviation space :: "char \<Rightarrow> bool" where "space c \<equiv> c = CHR '' ''"

definition indicators :: string where
  "indicators = ''-?:,[]{}#&*!|>%@`'' @ [CHR 0x27, CHR 0x22]"

definition printable :: "char \<Rightarrow> bool" where
  "printable c \<longleftrightarrow> 32 \<le> (of_char c :: nat) \<and> (of_char c :: nat) \<le> 126"

definition plain_scalar :: "string \<Rightarrow> bool" where
  "plain_scalar s \<longleftrightarrow>
     s \<noteq> [] \<and> hd s \<notin> set indicators \<and> hd s \<noteq> CHR '' '' \<and> last s \<noteq> CHR '' '' \<and> last s \<noteq> CHR '':'' \<and>
     \<not> str_contains s '': '' \<and> \<not> str_contains s '' #'' \<and> list_all printable s"

fun cut_comment :: "string \<Rightarrow> string" where
  "cut_comment [] = []"
| "cut_comment (c # s) = (if has_prefix (c # s) '' #'' then [] else c # cut_comment s)"

definition scalar :: "string \<Rightarrow> yaml option" where
  "scalar v =
     (case dropWhile space v of
        [] \<Rightarrow> None
      | c # s \<Rightarrow>
          if c = CHR 0x22
          then (let q = takeWhile (\<lambda>c. c \<noteq> CHR 0x22) s; r = dropWhile (\<lambda>c. c \<noteq> CHR 0x22) s
                in if CHR 0x5C \<in> set q \<or> r = [] \<or> dropWhile space (tl r) \<noteq> [] then None else Some (Quoted q))
          else (let p = rev (dropWhile space (rev (cut_comment (c # s))))
                in if plain_scalar p then Some (Plain p) else None))"

definition key_char :: "char \<Rightarrow> bool" where
  "key_char c \<longleftrightarrow> is_alnum c \<or> c = CHR ''_''"

definition split_key :: "string \<Rightarrow> (string \<times> string) option" where
  "split_key body =
     (case dropWhile key_char body of
        c # v \<Rightarrow>
          if takeWhile key_char body \<noteq> [] \<and> c = CHR '':'' \<and> (v = [] \<or> hd v = CHR '' '')
          then Some (takeWhile key_char body, v) else None
      | [] \<Rightarrow> None)"

definition rest_tokens :: "nat \<Rightarrow> string \<Rightarrow> token list option" where
  "rest_tokens n body =
     (case split_key body of
        Some (k, v) \<Rightarrow>
          if dropWhile space v = [] then Some [(n, Open k)] else map_option (\<lambda>s. [(n, Entry k s)]) (scalar v)
      | None \<Rightarrow> map_option (\<lambda>s. [(n, Item s)]) (scalar body))"

definition line_tokens :: "string \<Rightarrow> token list option" where
  "line_tokens l =
     (let n = length (takeWhile space l)
      in if \<not> list_all printable l then None
         else case dropWhile space l of
           [] \<Rightarrow> Some []
         | c # s \<Rightarrow>
             if c = CHR ''#'' then Some []
             else if has_prefix (c # s) ''- '' then map_option (\<lambda>ts. (n, Dash) # ts) (rest_tokens (n + 2) (tl s))
             else rest_tokens n (c # s))"

fun tokens :: "string list \<Rightarrow> token list option" where
  "tokens [] = Some []"
| "tokens (l # ls) =
     (case line_tokens l of None \<Rightarrow> None | Some ts \<Rightarrow> map_option (\<lambda>us. ts @ us) (tokens ls))"

section \<open>Blocks\<close>

text \<open>
  A block starts at the indentation of its first piece and ends where the indentation is smaller.
  The fuel bounds the depth of the calls.
\<close>

fun node :: "nat \<Rightarrow> nat \<Rightarrow> token list \<Rightarrow> (yaml \<times> token list) option"
and entries :: "nat \<Rightarrow> nat \<Rightarrow> token list \<Rightarrow> ((string \<times> yaml) list \<times> token list) option"
and elements :: "nat \<Rightarrow> nat \<Rightarrow> token list \<Rightarrow> (yaml list \<times> token list) option"
where
  "node 0 n ts = None"
| "node (Suc f) n ts =
     (case ts of
        [] \<Rightarrow> None
      | (m, t) # r \<Rightarrow>
          if m \<noteq> n then None
          else (case t of
                  Item s \<Rightarrow> Some (s, r)
                | Dash \<Rightarrow> map_option (\<lambda>(vs, r'). (Sequence vs, r')) (elements f n ts)
                | _ \<Rightarrow> map_option (\<lambda>(kvs, r'). (Mapping kvs, r')) (entries f n ts)))"
| "entries 0 n ts = None"
| "entries (Suc f) n ts =
     (case ts of
        [] \<Rightarrow> Some ([], [])
      | (m, t) # r \<Rightarrow>
          if m < n then Some ([], ts)
          else if n < m then None
          else (case t of
                  Entry k s \<Rightarrow> map_option (\<lambda>(kvs, r'). ((k, s) # kvs, r')) (entries f n r)
                | Open k \<Rightarrow>
                    (case (if r \<noteq> [] \<and> n < fst (hd r) then node f (fst (hd r)) r else Some (Plain [], r)) of
                       None \<Rightarrow> None
                     | Some (v, r1) \<Rightarrow> map_option (\<lambda>(kvs, r'). ((k, v) # kvs, r')) (entries f n r1))
                | _ \<Rightarrow> None))"
| "elements 0 n ts = None"
| "elements (Suc f) n ts =
     (case ts of
        [] \<Rightarrow> Some ([], [])
      | (m, t) # r \<Rightarrow>
          if m < n then Some ([], ts)
          else if n < m \<or> t \<noteq> Dash then None
          else (case (if r \<noteq> [] \<and> n < fst (hd r) then node f (fst (hd r)) r else Some (Plain [], r)) of
                  None \<Rightarrow> None
                | Some (v, r1) \<Rightarrow> map_option (\<lambda>(vs, r'). (v # vs, r')) (elements f n r1)))"

definition read_yaml :: "string \<Rightarrow> yaml option" where
  "read_yaml text =
     (case tokens (split_on (CHR 0x0A) text) of
        None \<Rightarrow> None
      | Some ts \<Rightarrow> (case node (2 * length ts + 2) 0 ts of Some (v, []) \<Rightarrow> Some v | _ \<Rightarrow> None))"

section \<open>Reading back a block\<close>

text \<open>A tree as its pieces, every level two deeper than the one around it.\<close>

fun is_scalar :: "yaml \<Rightarrow> bool" where
  "is_scalar (Plain s) = True"
| "is_scalar (Quoted s) = True"
| "is_scalar v = False"

fun tok :: "nat \<Rightarrow> yaml \<Rightarrow> token list"
and tok_entries :: "nat \<Rightarrow> (string \<times> yaml) list \<Rightarrow> token list"
and tok_elements :: "nat \<Rightarrow> yaml list \<Rightarrow> token list"
where
  "tok n (Plain s) = [(n, Item (Plain s))]"
| "tok n (Quoted s) = [(n, Item (Quoted s))]"
| "tok n (Mapping kvs) = tok_entries n kvs"
| "tok n (Sequence vs) = tok_elements n vs"
| "tok_entries n [] = []"
| "tok_entries n ((k, v) # kvs) =
     (if is_scalar v then [(n, Entry k v)] else (n, Open k) # tok (n + 2) v) @ tok_entries n kvs"
| "tok_elements n [] = []"
| "tok_elements n (v # vs) = (n, Dash) # tok (n + 2) v @ tok_elements n vs"

text \<open>No empty blocks.\<close>

fun filled :: "yaml \<Rightarrow> bool"
and filled_entries :: "(string \<times> yaml) list \<Rightarrow> bool"
and filled_elements :: "yaml list \<Rightarrow> bool"
where
  "filled (Plain s) = True"
| "filled (Quoted s) = True"
| "filled (Mapping kvs) = (kvs \<noteq> [] \<and> filled_entries kvs)"
| "filled (Sequence vs) = (vs \<noteq> [] \<and> filled_elements vs)"
| "filled_entries [] = True"
| "filled_entries ((k, v) # kvs) = (filled v \<and> filled_entries kvs)"
| "filled_elements [] = True"
| "filled_elements (v # vs) = (filled v \<and> filled_elements vs)"

lemma tok_heads:
  "kvs \<noteq> [] \<Longrightarrow> \<exists>x ts. tok_entries n kvs = (n, x) # ts \<and> ((\<exists>k s. x = Entry k s) \<or> (\<exists>k. x = Open k))"
  "vs \<noteq> [] \<Longrightarrow> \<exists>ts. tok_elements n vs = (n, Dash) # ts"
  by (cases kvs; auto) (cases vs; auto)

lemma tok_head: "filled t \<Longrightarrow> \<exists>x ts. tok n t = (n, x) # ts"
  using tok_heads by (cases t) fastforce+

definition ends_at :: "nat \<Rightarrow> token list \<Rightarrow> bool" where
  "ends_at n rest \<longleftrightarrow> rest = [] \<or> fst (hd rest) < n"

lemma ends_at_entries: "ends_at n rest \<Longrightarrow> ends_at (n + 2) (tok_entries n kvs @ rest)"
  using tok_heads(1)[of kvs n] by (cases "kvs = []") (auto simp: ends_at_def)

lemma ends_at_elements: "ends_at n rest \<Longrightarrow> ends_at (n + 2) (tok_elements n vs @ rest)"
  using tok_heads(2)[of vs n] by (cases "vs = []") (auto simp: ends_at_def)

lemma read_blocks:
  "filled t \<Longrightarrow> 2 * length (tok n t @ rest) + 1 < f \<Longrightarrow> ends_at n rest \<Longrightarrow> node f n (tok n t @ rest) = Some (t, rest)"
  "filled_entries kvs \<Longrightarrow> 2 * length (tok_entries n kvs @ rest) < f \<Longrightarrow> ends_at n rest \<Longrightarrow>
     entries f n (tok_entries n kvs @ rest) = Some (kvs, rest)"
  "filled_elements vs \<Longrightarrow> 2 * length (tok_elements n vs @ rest) < f \<Longrightarrow> ends_at n rest \<Longrightarrow>
     elements f n (tok_elements n vs @ rest) = Some (vs, rest)"
proof (induction n t and n kvs and n vs arbitrary: f rest and f rest and f rest rule: tok_tok_entries_tok_elements.induct)
  case (1 n s)
  then show ?case by (cases f) simp_all
next
  case (2 n s)
  then show ?case by (cases f) simp_all
next
  case (3 n kvs)
  then obtain x ts where x: "tok_entries n kvs = (n, x) # ts" "(\<exists>k s. x = Entry k s) \<or> (\<exists>k. x = Open k)"
    using tok_heads(1)[of kvs n] by auto
  obtain f' where f: "f = Suc f'" using 3 by (cases f) auto
  have "entries f' n (tok_entries n kvs @ rest) = Some (kvs, rest)" using 3 f by simp
  then show ?case using x f by auto
next
  case (4 n vs)
  then obtain ts where x: "tok_elements n vs = (n, Dash) # ts" using tok_heads(2)[of vs n] by auto
  obtain f' where f: "f = Suc f'" using 4 by (cases f) auto
  have "elements f' n (tok_elements n vs @ rest) = Some (vs, rest)" using 4 f by simp
  then show ?case using x f by auto
next
  case (5 n)
  then show ?case by (cases f) (auto simp: ends_at_def split: list.splits)
next
  case (6 n k v kvs)
  obtain f' where f: "f = Suc f'" using 6 by (cases f) auto
  show ?case
  proof (cases "is_scalar v")
    case True
    then have "entries f' n (tok_entries n kvs @ rest) = Some (kvs, rest)" using 6 f by auto
    then show ?thesis using True f by simp
  next
    case False
    obtain x ts where x: "tok (n + 2) v = (n + 2, x) # ts" using tok_head[of v "n + 2"] 6(3) by auto
    have "node f' (n + 2) (tok (n + 2) v @ tok_entries n kvs @ rest) = Some (v, tok_entries n kvs @ rest)"
      using 6 f False ends_at_entries by auto
    moreover have "entries f' n (tok_entries n kvs @ rest) = Some (kvs, rest)" using 6 f False by auto
    ultimately show ?thesis using False f x by simp
  qed
next
  case (7 n)
  then show ?case by (cases f) (auto simp: ends_at_def split: list.splits)
next
  case (8 n v vs)
  obtain f' where f: "f = Suc f'" using 8 by (cases f) auto
  obtain x ts where x: "tok (n + 2) v = (n + 2, x) # ts" using tok_head[of v "n + 2"] 8(3) by auto
  have "node f' (n + 2) (tok (n + 2) v @ tok_elements n vs @ rest) = Some (v, tok_elements n vs @ rest)"
    using 8 f ends_at_elements by auto
  moreover have "elements f' n (tok_elements n vs @ rest) = Some (vs, rest)" using 8 f by auto
  ultimately show ?case using f x by simp
qed

text \<open>Two units of fuel per piece are enough.\<close>

lemma read_yaml_tokens:
  assumes "tokens (split_on (CHR 0x0A) text) = Some (tok 0 t)" and "filled t"
  shows "read_yaml text = Some t"
  using read_blocks(1)[OF assms(2), of 0 "[]" "2 * length (tok 0 t) + 2"] assms(1)
  by (simp add: read_yaml_def ends_at_def)

section \<open>Scalars\<close>

lemma cut_comment_id: "\<not> str_contains s '' #'' \<Longrightarrow> cut_comment s = s"
  by (induction s) auto

lemma plain_dropWhile: "plain_scalar v \<Longrightarrow> dropWhile space v = v" "plain_scalar v \<Longrightarrow> dropWhile space (rev v) = rev v"
proof -
  show "plain_scalar v \<Longrightarrow> dropWhile space v = v" by (cases v) (auto simp: plain_scalar_def)
  show "plain_scalar v \<Longrightarrow> dropWhile space (rev v) = rev v"
    by (cases v rule: rev_cases) (auto simp: plain_scalar_def)
qed

lemma scalar_plain:
  assumes "plain_scalar v"
  shows "scalar v = Some (Plain v)" "scalar (CHR '' '' # v) = Some (Plain v)"
proof -
  obtain c s where v: "v = c # s" using assms by (cases v) (auto simp: plain_scalar_def)
  have "c \<noteq> CHR 0x22" using assms v by (auto simp: plain_scalar_def indicators_def)
  moreover have "cut_comment v = v" using assms cut_comment_id by (simp add: plain_scalar_def)
  ultimately show "scalar v = Some (Plain v)"
    using assms plain_dropWhile[OF assms] unfolding scalar_def v by (simp add: Let_def)
  then show "scalar (CHR '' '' # v) = Some (Plain v)" by (simp add: scalar_def)
qed

end
