(* ===== verification/Config_Yaml.thy ===== *)
theory Config_Yaml
  imports Yaml
begin

text \<open>
  The decoding of a document into the configuration records, by the field tags of the structs in
  \<open>internal/config/config.go\<close> and with unknown keys refused, as \<open>Load\<close> asks for. A null leaves a field
  as it is. Numbers and durations are read in the forms the program's own files use; other forms,
  which the library reads too, are refused here.
\<close>

section \<open>Leaves\<close>

definition nulls :: "string list" where
  "nulls = [[], ''~'', ''null'', ''Null'', ''NULL'']"

fun is_null :: "yaml \<Rightarrow> bool" where
  "is_null (Plain s) = (s \<in> set nulls)"
| "is_null _ = False"

fun as_string :: "yaml \<Rightarrow> string option" where
  "as_string (Plain s) = Some s"
| "as_string (Quoted s) = Some s"
| "as_string _ = None"

fun as_bool :: "yaml \<Rightarrow> bool option" where
  "as_bool (Plain s) = (if s = ''true'' then Some True else if s = ''false'' then Some False else None)"
| "as_bool _ = None"

definition digit_value :: "char \<Rightarrow> int" where
  "digit_value c = of_char c - 48"

definition digits_value :: "string \<Rightarrow> int" where
  "digits_value s = foldl (\<lambda>n c. 10 * n + digit_value c) 0 s"

definition decimal :: "string \<Rightarrow> int option" where
  "decimal s = (if s \<noteq> [] \<and> list_all is_digit s \<and> (hd s \<noteq> CHR ''0'' \<or> s = ''0'') then Some (digits_value s) else None)"

fun as_int :: "yaml \<Rightarrow> int option" where
  "as_int (Plain s) = (case decimal s of Some n \<Rightarrow> if n < 2 ^ 63 then Some n else None | None \<Rightarrow> None)"
| "as_int _ = None"

text \<open>A number of seconds, minutes or hours.\<close>

fun as_duration :: "yaml \<Rightarrow> int option" where
  "as_duration (Plain s) =
     (case dropWhile is_digit s of
        [u] \<Rightarrow>
          (case map_of [(CHR ''s'', second_ns), (CHR ''m'', 60 * second_ns), (CHR ''h'', 3600 * second_ns)] u of
             Some k \<Rightarrow>
               (case decimal (takeWhile is_digit s) of
                  Some n \<Rightarrow> if n * k < 2 ^ 63 then Some (n * k) else None
                | None \<Rightarrow> None)
           | None \<Rightarrow> None)
      | _ \<Rightarrow> None)"
| "as_duration _ = None"

text \<open>A decimal fraction, rounded to a 64-bit float.\<close>

fun as_float :: "yaml \<Rightarrow> rat option" where
  "as_float (Plain s) =
     (case dropWhile is_digit s of
        c # d \<Rightarrow>
          if c = CHR ''.'' \<and> d \<noteq> [] \<and> list_all is_digit d
          then map_option (\<lambda>n. f64_round (of_int n + of_int (digits_value d) / 10 ^ length d)) (decimal (takeWhile is_digit s))
          else None
      | [] \<Rightarrow> map_option (\<lambda>n. f64_round (of_int n)) (decimal s))"
| "as_float _ = None"

section \<open>Structs\<close>

text \<open>A field by its tag: what it does with the value of its key.\<close>

type_synonym 'r field_decoder = "string \<times> (yaml \<Rightarrow> 'r \<Rightarrow> 'r option)"

definition leaf :: "string \<Rightarrow> (yaml \<Rightarrow> 'a option) \<Rightarrow> (('a \<Rightarrow> 'a) \<Rightarrow> 'r \<Rightarrow> 'r) \<Rightarrow> 'r field_decoder" where
  "leaf tag dec upd = (tag, \<lambda>v r. if is_null v then Some r else map_option (\<lambda>x. upd (\<lambda>_. x) r) (dec v))"

fun decode_fields :: "'r field_decoder list \<Rightarrow> (string \<times> yaml) list \<Rightarrow> 'r \<Rightarrow> 'r option" where
  "decode_fields fs [] r = Some r"
| "decode_fields fs ((k, v) # kvs) r =
     (case map_of fs k of
        None \<Rightarrow> None
      | Some dec \<Rightarrow> (case dec v r of None \<Rightarrow> None | Some r' \<Rightarrow> decode_fields fs kvs r'))"

fun struct :: "'r field_decoder list \<Rightarrow> 'r \<Rightarrow> yaml \<Rightarrow> 'r option" where
  "struct fs zero (Mapping kvs) = (if distinct (map fst kvs) then decode_fields fs kvs zero else None)"
| "struct fs zero _ = None"

fun all_some :: "'a option list \<Rightarrow> 'a list option" where
  "all_some [] = Some []"
| "all_some (x # xs) = (case x of None \<Rightarrow> None | Some y \<Rightarrow> map_option (\<lambda>ys. y # ys) (all_some xs))"

fun slice :: "(yaml \<Rightarrow> 'a option) \<Rightarrow> yaml \<Rightarrow> 'a list option" where
  "slice dec (Sequence vs) = (if list_ex is_null vs then None else all_some (map dec vs))"
| "slice dec _ = None"

definition pointer :: "(yaml \<Rightarrow> 'a option) \<Rightarrow> yaml \<Rightarrow> 'a option option" where
  "pointer dec v = map_option Some (dec v)"

fun string_map :: "yaml \<Rightarrow> (string \<times> string) list option" where
  "string_map (Mapping kvs) =
     (if distinct (map fst kvs) \<and> list_all (\<lambda>(k, v). k \<notin> set nulls \<and> \<not> is_null v) kvs
      then all_some (map (\<lambda>(k, v). map_option (Pair k) (as_string v)) kvs) else None)"
| "string_map _ = None"

definition zero_pg :: PostgresConfig where
  "zero_pg =
     \<lparr>pg_Host = [], pg_Port = 0, pg_DB = [], pg_User = [], pg_Password = [], pg_ReplicationUser = [],
      pg_ReplicationPassword = [], pg_SlotName = [], pg_SSLMode = [], pg_SSLRootCert = [], pg_SSLCert = [], pg_SSLKey = []\<rparr>"

definition decode_pg :: "yaml \<Rightarrow> PostgresConfig option" where
  "decode_pg = struct
     [leaf ''host'' as_string pg_Host_update, leaf ''port'' as_int pg_Port_update, leaf ''db'' as_string pg_DB_update,
      leaf ''user'' as_string pg_User_update, leaf ''password'' as_string pg_Password_update,
      leaf ''replication_user'' as_string pg_ReplicationUser_update,
      leaf ''replication_password'' as_string pg_ReplicationPassword_update,
      leaf ''slot_name'' as_string pg_SlotName_update, leaf ''sslmode'' as_string pg_SSLMode_update,
      leaf ''ssl_root_cert'' as_string pg_SSLRootCert_update, leaf ''ssl_cert'' as_string pg_SSLCert_update,
      leaf ''ssl_key'' as_string pg_SSLKey_update] zero_pg"

definition zero_git :: GitStorage where
  "zero_git = \<lparr>git_Mode = [], git_ReposPath = [], git_HashedStorage = False\<rparr>"

definition decode_git :: "yaml \<Rightarrow> GitStorage option" where
  "decode_git = struct
     [leaf ''mode'' as_string git_Mode_update, leaf ''repos_path'' as_string git_ReposPath_update,
      leaf ''hashed_storage'' as_bool git_HashedStorage_update] zero_git"

definition zero_s3 :: S3Config where
  "zero_s3 =
     \<lparr>s3_Region = [], s3_PrimaryBucket = [], s3_ReplicaBucket = [], s3_AccessKey = [], s3_SecretKey = [], s3_Endpoint = [],
      s3_ReplicationLag = 0\<rparr>"

definition decode_s3 :: "yaml \<Rightarrow> S3Config option" where
  "decode_s3 = struct
     [leaf ''region'' as_string s3_Region_update, leaf ''primary_bucket'' as_string s3_PrimaryBucket_update,
      leaf ''replica_bucket'' as_string s3_ReplicaBucket_update, leaf ''access_key'' as_string s3_AccessKey_update,
      leaf ''secret_key'' as_string s3_SecretKey_update, leaf ''endpoint'' as_string s3_Endpoint_update,
      leaf ''replication_lag'' as_duration s3_ReplicationLag_update] zero_s3"

definition zero_os :: ObjectStoreConfig where
  "zero_os = \<lparr>os_Backend = [], os_S3 = None, os_FSPaths = []\<rparr>"

definition decode_os :: "yaml \<Rightarrow> ObjectStoreConfig option" where
  "decode_os = struct
     [leaf ''backend'' as_string os_Backend_update, leaf ''s3'' (pointer decode_s3) os_S3_update,
      leaf ''fs_paths'' (slice as_string) os_FSPaths_update] zero_os"

definition decode_registry :: "yaml \<Rightarrow> RegistryConfig option" where
  "decode_registry = struct
     [leaf ''mode'' as_string reg_Mode_update, leaf ''fs_path'' as_string reg_FSPath_update,
      leaf ''s3'' (pointer decode_s3) reg_S3_update] \<lparr>reg_Mode = [], reg_FSPath = [], reg_S3 = None\<rparr>"

definition zero_site :: SiteConfig where
  "zero_site =
     \<lparr>site_Name = [], site_ExternalURL = [], site_Postgres = zero_pg, site_Git = zero_git, site_ObjectStore = zero_os,
      site_Registry = None, site_SSHHost = []\<rparr>"

definition decode_site :: "yaml \<Rightarrow> SiteConfig option" where
  "decode_site = struct
     [leaf ''name'' as_string site_Name_update, leaf ''external_url'' as_string site_ExternalURL_update,
      leaf ''postgres'' decode_pg site_Postgres_update, leaf ''git'' decode_git site_Git_update,
      leaf ''object_storage'' decode_os site_ObjectStore_update,
      leaf ''registry'' (pointer decode_registry) site_Registry_update,
      leaf ''ssh_host'' as_string site_SSHHost_update] zero_site"

definition zero_sync :: SyncConfig where
  "zero_sync =
     \<lparr>sync_SweepInterval = 0, sync_LagWarningThreshold = 0, sync_LagCriticalThreshold = 0, sync_FailoverEnabled = False,
      sync_ReadOnlySecondary = False, sync_ConsistencySamplePct = 0\<rparr>"

definition decode_sync :: "yaml \<Rightarrow> SyncConfig option" where
  "decode_sync = struct
     [leaf ''sweep_interval'' as_duration sync_SweepInterval_update,
      leaf ''lag_warning_threshold'' as_duration sync_LagWarningThreshold_update,
      leaf ''lag_critical_threshold'' as_duration sync_LagCriticalThreshold_update,
      leaf ''failover_enabled'' as_bool sync_FailoverEnabled_update,
      leaf ''read_only_secondary'' as_bool sync_ReadOnlySecondary_update,
      leaf ''consistency_sample_pct'' as_float sync_ConsistencySamplePct_update] zero_sync"

definition decode_webhook :: "yaml \<Rightarrow> WebhookConfig option" where
  "decode_webhook = struct
     [leaf ''addr'' as_string wh_Addr_update, leaf ''secret_token'' as_string wh_SecretToken_update]
     \<lparr>wh_Addr = [], wh_SecretToken = []\<rparr>"

definition decode_api :: "yaml \<Rightarrow> APIValidatorConfig option" where
  "decode_api = struct
     [leaf ''enabled'' as_bool api_Enabled_update, leaf ''primary_token'' as_string api_PrimaryToken_update,
      leaf ''secondary_token'' as_string api_SecondaryToken_update]
     \<lparr>api_Enabled = False, api_PrimaryToken = [], api_SecondaryToken = []\<rparr>"

definition decode_failover :: "yaml \<Rightarrow> FailoverConfig option" where
  "decode_failover = struct
     [leaf ''health_check_urls'' (slice as_string) fo_HealthCheckURLs_update,
      leaf ''health_check_interval'' as_duration fo_HealthCheckInterval_update,
      leaf ''quorum_required'' as_int fo_QuorumRequired_update, leaf ''dns_plugin'' as_string fo_DNSPlugin_update,
      leaf ''dns_config'' string_map fo_DNSConfig_update, leaf ''auto_failover'' as_bool fo_AutoFailover_update]
     \<lparr>fo_HealthCheckURLs = [], fo_HealthCheckInterval = 0, fo_QuorumRequired = 0, fo_DNSPlugin = [], fo_DNSConfig = [],
      fo_AutoFailover = False\<rparr>"

definition decode_ssh :: "yaml \<Rightarrow> ssh_config option" where
  "decode_ssh = struct
     [leaf ''known_hosts_file'' as_string KnownHostsFile_update,
      leaf ''strict_host_key_checking'' as_string StrictHostKeyChecking_update]
     \<lparr>KnownHostsFile = [], StrictHostKeyChecking = []\<rparr>"

text \<open>The structs of one or two strings around the metrics address and the log settings.\<close>

definition decode_metrics :: "yaml \<Rightarrow> string option" where
  "decode_metrics = struct [leaf ''addr'' as_string (\<lambda>f. f)] []"

definition decode_log :: "yaml \<Rightarrow> (string \<times> string) option" where
  "decode_log = struct [leaf ''level'' as_string apfst, leaf ''format'' as_string apsnd] ([], [])"

definition zero_config :: Config where
  "zero_config =
     \<lparr>Primary = zero_site, Secondaries = [], Sync = zero_sync, Metrics_Addr = [], Log_Level = [], Log_Format = [],
      ControlDB = [], Webhook = None, APIValidator = None, Failover = None,
      SSH = \<lparr>KnownHostsFile = [], StrictHostKeyChecking = []\<rparr>\<rparr>"

definition decode_config :: "yaml \<Rightarrow> Config option" where
  "decode_config = struct
     [leaf ''primary'' decode_site Primary_update, leaf ''secondaries'' (slice decode_site) Secondaries_update,
      leaf ''sync'' decode_sync Sync_update, leaf ''metrics'' decode_metrics Metrics_Addr_update,
      leaf ''log'' decode_log (\<lambda>f c. c\<lparr>Log_Level := fst (f ([], [])), Log_Format := snd (f ([], []))\<rparr>),
      leaf ''control_db'' as_string ControlDB_update, leaf ''webhook'' (pointer decode_webhook) Webhook_update,
      leaf ''api_validator'' (pointer decode_api) APIValidator_update,
      leaf ''failover'' (pointer decode_failover) Failover_update, leaf ''ssh'' decode_ssh SSH_update] zero_config"

text \<open>A file to a configuration.\<close>

definition read_config :: "string \<Rightarrow> Config option" where
  "read_config text = (case read_yaml text of Some t \<Rightarrow> decode_config t | None \<Rightarrow> None)"

text \<open>What is relied on of the decoder that \<open>Load\<close> calls: it agrees with this reading where this one succeeds.\<close>

definition reads_blocks :: "(string \<Rightarrow> string + Config) \<Rightarrow> bool" where
  "reads_blocks yaml_decode \<longleftrightarrow> (\<forall>text c. read_config text = Some c \<longrightarrow> yaml_decode text = Inr c)"

lemma reads_blocks_self:
  "reads_blocks (\<lambda>text. case read_config text of Some c \<Rightarrow> Inr c | None \<Rightarrow> Inl ''unsupported'')"
  by (simp add: reads_blocks_def)

end
