(* ===== verification/Wizard.thy ===== *)
theory Wizard
  imports Config_Yaml Initcmd Config_Props
begin

text \<open>
  The file of the configuration wizard, read again: what \<open>internal/initcmd\<close> writes and what
  \<open>internal/config\<close> loads from it.
\<close>

section \<open>The document\<close>

definition s3_tree :: "Answers \<Rightarrow> string \<Rightarrow> yaml" where
  "s3_tree a endpoint =
     Mapping ([(''region'', Plain (S3Region a)), (''primary_bucket'', Plain (S3PrimaryBucket a)),
       (''replica_bucket'', Plain (S3ReplicaBucket a)), (''access_key'', Plain ''${S3_AK}''),
       (''secret_key'', Plain ''${S3_SK}'')] @
       (if endpoint \<noteq> [] then [(''endpoint'', Plain endpoint)] else []))"

definition primary_tree :: "Answers \<Rightarrow> yaml" where
  "primary_tree a =
     Mapping
       [(''name'', Plain (PrimaryName a)), (''external_url'', Plain (PrimaryURL a)), (''ssh_host'', Plain (PrimarySSHHost a)),
        (''postgres'', Mapping
          ([(''host'', Plain (PrimaryPGHost a)), (''port'', Plain (PrimaryPGPort a)), (''db'', Plain (PrimaryPGDB a)),
            (''user'', Plain (PrimaryPGUser a)), (''password'', Plain ''${PG_CTRL_PASSWORD}''),
            (''replication_user'', Plain (PrimaryReplUser a)), (''replication_password'', Plain ''${PG_REPL_PASSWORD}''),
            (''sslmode'', Plain ''require'')] @
           (if PrimarySlot a \<noteq> [] then [(''slot_name'', Plain (PrimarySlot a))] else []))),
        (''git'', Mapping
          [(''mode'', Plain (PrimaryGitMode a)), (''repos_path'', Plain (PrimaryReposPath a)),
           (''hashed_storage'', Plain ''true'')]),
        (''object_storage'', Mapping
          [(''backend'', Plain (ObjectStorageBackend a)),
           (if ObjectStorageBackend a = ''s3'' then (''s3'', s3_tree a (S3Endpoint a))
            else (''fs_paths'', Sequence
              [Plain ''/var/opt/gitlab/uploads'', Plain ''/var/opt/gitlab/artifacts'', Plain ''/var/opt/gitlab/packages'',
               Plain ''/var/opt/gitlab/lfs-objects'']))])]"

definition secondary_tree :: "Answers \<Rightarrow> yaml" where
  "secondary_tree a =
     Mapping
       [(''name'', Plain (SecondaryName a)), (''external_url'', Plain (SecondaryURL a)),
        (''ssh_host'', Plain (SecondarySSHHost a)),
        (''postgres'', Mapping
          [(''host'', Plain (SecondaryPGHost a)), (''port'', Plain (SecondaryPGPort a)), (''db'', Plain (PrimaryPGDB a)),
           (''user'', Plain (PrimaryPGUser a)), (''password'', Plain ''${PG_CTRL_PASSWORD}''),
           (''replication_user'', Plain (PrimaryReplUser a)), (''replication_password'', Plain ''${SEC_REPL_PASSWORD}'')]),
        (''git'', Mapping
          [(''mode'', Plain (PrimaryGitMode a)), (''repos_path'', Plain (SecondaryReposPath a)),
           (''hashed_storage'', Plain ''true'')]),
        (''object_storage'', Mapping
          ((''backend'', Plain (ObjectStorageBackend a)) #
           (if ObjectStorageBackend a = ''s3'' then [(''s3'', s3_tree a [])] else [])))]"

definition options_tree :: "Answers \<Rightarrow> (string \<times> yaml) list" where
  "options_tree a =
     [(''sync'', Mapping
        [(''sweep_interval'', Plain ''5m''), (''lag_warning_threshold'', Plain ''30s''),
         (''lag_critical_threshold'', Plain ''5m''), (''failover_enabled'', Plain (show_bool (FailoverEnabled a))),
         (''read_only_secondary'', Plain (show_bool (ReadOnlySecondary a))), (''consistency_sample_pct'', Plain ''0.01'')]),
      (''metrics'', Mapping [(''addr'', Quoted '':9101'')]),
      (''log'', Mapping [(''level'', Plain ''info''), (''format'', Plain ''json'')]),
      (''control_db'', Plain ''sqlite://data/geoctl.db'')]"

definition wizard_tree :: "Answers \<Rightarrow> yaml" where
  "wizard_tree a =
     Mapping ([(''primary'', primary_tree a), (''secondaries'', Sequence [secondary_tree a])] @ options_tree a)"

text \<open>Answers that YAML reads as the strings they are, and that hold no reference.\<close>

definition plain_answer :: "string \<Rightarrow> bool" where
  "plain_answer s \<longleftrightarrow> plain_scalar s \<and> s \<notin> set nulls \<and> \<not> str_contains s ''${''"

definition plain_answers :: "Answers \<Rightarrow> bool" where
  "plain_answers a \<longleftrightarrow>
     list_all plain_answer
       [PrimaryName a, PrimaryURL a, PrimarySSHHost a, PrimaryPGHost a, PrimaryPGPort a, PrimaryPGDB a, PrimaryPGUser a,
        PrimaryReplUser a, PrimaryGitMode a, PrimaryReposPath a, SecondaryName a, SecondaryURL a, SecondarySSHHost a,
        SecondaryPGHost a, SecondaryPGPort a, SecondaryReposPath a, ObjectStorageBackend a] \<and>
     (PrimarySlot a = [] \<or> plain_answer (PrimarySlot a)) \<and>
     (ObjectStorageBackend a = ''s3'' \<longrightarrow>
        list_all plain_answer [S3Region a, S3PrimaryBucket a, S3ReplicaBucket a] \<and>
        (S3Endpoint a = [] \<or> plain_answer (S3Endpoint a)))"

section \<open>Reading the lines\<close>

lemma plain_not_blank: "plain_scalar v \<Longrightarrow> \<not> (\<forall>c \<in> set v. c = CHR '' '')"
  by (auto simp: plain_scalar_def intro!: bexI[of _ "hd v"])

lemma key_chars:
  "key_char (CHR ''a'')"  "key_char (CHR ''b'')"  "key_char (CHR ''c'')"  "key_char (CHR ''d'')"
  "key_char (CHR ''e'')"  "key_char (CHR ''f'')"  "key_char (CHR ''g'')"  "key_char (CHR ''h'')"
  "key_char (CHR ''i'')"  "key_char (CHR ''j'')"  "key_char (CHR ''k'')"  "key_char (CHR ''l'')"
  "key_char (CHR ''m'')"  "key_char (CHR ''n'')"  "key_char (CHR ''o'')"  "key_char (CHR ''p'')"
  "key_char (CHR ''q'')"  "key_char (CHR ''r'')"  "key_char (CHR ''s'')"  "key_char (CHR ''t'')"
  "key_char (CHR ''u'')"  "key_char (CHR ''v'')"  "key_char (CHR ''w'')"  "key_char (CHR ''x'')"
  "key_char (CHR ''y'')"  "key_char (CHR ''z'')"  "key_char (CHR ''_'')"  "key_char (CHR ''3'')"
  "\<not> key_char (CHR '':'')" "\<not> key_char (CHR ''/'')"
  by code_simp+

lemma printable_chars:
  "plain_scalar v \<Longrightarrow> list_all printable v"
  by (simp add: plain_scalar_def)

lemmas line_simps = printable_chars printable_def line_tokens_def rest_tokens_def split_key_def key_chars scalar_plain plain_not_blank

lemma fixed_lines:
  "line_tokens ''primary:'' = Some [(0, Open ''primary'')]"
  "line_tokens ''  postgres:'' = Some [(2, Open ''postgres'')]"
  "line_tokens ''    password: ${PG_CTRL_PASSWORD}'' = Some [(4, Entry ''password'' (Plain ''${PG_CTRL_PASSWORD}''))]"
  "line_tokens ''    replication_password: ${PG_REPL_PASSWORD}'' = Some [(4, Entry ''replication_password'' (Plain ''${PG_REPL_PASSWORD}''))]"
  "line_tokens ''    sslmode: require'' = Some [(4, Entry ''sslmode'' (Plain ''require''))]"
  "line_tokens ''  git:'' = Some [(2, Open ''git'')]"
  "line_tokens ''    hashed_storage: true'' = Some [(4, Entry ''hashed_storage'' (Plain ''true''))]"
  "line_tokens ''  object_storage:'' = Some [(2, Open ''object_storage'')]"
  "line_tokens ''    s3:'' = Some [(4, Open ''s3'')]"
  "line_tokens ''      access_key: ${S3_AK}'' = Some [(6, Entry ''access_key'' (Plain ''${S3_AK}''))]"
  "line_tokens ''      secret_key: ${S3_SK}'' = Some [(6, Entry ''secret_key'' (Plain ''${S3_SK}''))]"
  "line_tokens ''    fs_paths:'' = Some [(4, Open ''fs_paths'')]"
  "line_tokens ''      - /var/opt/gitlab/uploads'' = Some [(6, Dash), (8, Item (Plain ''/var/opt/gitlab/uploads''))]"
  "line_tokens ''      - /var/opt/gitlab/artifacts'' = Some [(6, Dash), (8, Item (Plain ''/var/opt/gitlab/artifacts''))]"
  "line_tokens ''      - /var/opt/gitlab/packages'' = Some [(6, Dash), (8, Item (Plain ''/var/opt/gitlab/packages''))]"
  "line_tokens ''      - /var/opt/gitlab/lfs-objects'' = Some [(6, Dash), (8, Item (Plain ''/var/opt/gitlab/lfs-objects''))]"
  "line_tokens ''secondaries:'' = Some [(0, Open ''secondaries'')]"
  "line_tokens ''    postgres:'' = Some [(4, Open ''postgres'')]"
  "line_tokens ''      password: ${PG_CTRL_PASSWORD}'' = Some [(6, Entry ''password'' (Plain ''${PG_CTRL_PASSWORD}''))]"
  "line_tokens ''      replication_password: ${SEC_REPL_PASSWORD}'' = Some [(6, Entry ''replication_password'' (Plain ''${SEC_REPL_PASSWORD}''))]"
  "line_tokens ''    git:'' = Some [(4, Open ''git'')]"
  "line_tokens ''      hashed_storage: true'' = Some [(6, Entry ''hashed_storage'' (Plain ''true''))]"
  "line_tokens ''    object_storage:'' = Some [(4, Open ''object_storage'')]"
  "line_tokens ''      s3:'' = Some [(6, Open ''s3'')]"
  "line_tokens ''        access_key: ${S3_AK}'' = Some [(8, Entry ''access_key'' (Plain ''${S3_AK}''))]"
  "line_tokens ''        secret_key: ${S3_SK}'' = Some [(8, Entry ''secret_key'' (Plain ''${S3_SK}''))]"
  "line_tokens ''sync:'' = Some [(0, Open ''sync'')]"
  "line_tokens ''  sweep_interval: 5m'' = Some [(2, Entry ''sweep_interval'' (Plain ''5m''))]"
  "line_tokens ''  lag_warning_threshold: 30s'' = Some [(2, Entry ''lag_warning_threshold'' (Plain ''30s''))]"
  "line_tokens ''  lag_critical_threshold: 5m'' = Some [(2, Entry ''lag_critical_threshold'' (Plain ''5m''))]"
  "line_tokens ''  consistency_sample_pct: 0.01'' = Some [(2, Entry ''consistency_sample_pct'' (Plain ''0.01''))]"
  "line_tokens ''metrics:'' = Some [(0, Open ''metrics'')]"
  "line_tokens ''log:'' = Some [(0, Open ''log'')]"
  "line_tokens ''  level: info'' = Some [(2, Entry ''level'' (Plain ''info''))]"
  "line_tokens ''  format: json'' = Some [(2, Entry ''format'' (Plain ''json''))]"
  "line_tokens ''control_db: sqlite://data/geoctl.db'' = Some [(0, Entry ''control_db'' (Plain ''sqlite://data/geoctl.db''))]"
  by (simp add: line_simps plain_scalar_def indicators_def)+

lemma other_lines:
  "line_tokens (''  addr: '' @ [CHR 0x22] @ '':9101'' @ [CHR 0x22]) = Some [(2, Entry ''addr'' (Quoted '':9101''))]"
  "line_tokens [] = Some []"
  by code_simp+

lemma answer_lines:
  assumes "plain_scalar v"
  shows
    "line_tokens (''  name: '' @ v) = Some [(2, Entry ''name'' (Plain v))]"
    "line_tokens (''  external_url: '' @ v) = Some [(2, Entry ''external_url'' (Plain v))]"
    "line_tokens (''  ssh_host: '' @ v) = Some [(2, Entry ''ssh_host'' (Plain v))]"
    "line_tokens (''    host: '' @ v) = Some [(4, Entry ''host'' (Plain v))]"
    "line_tokens (''    port: '' @ v) = Some [(4, Entry ''port'' (Plain v))]"
    "line_tokens (''    db: '' @ v) = Some [(4, Entry ''db'' (Plain v))]"
    "line_tokens (''    user: '' @ v) = Some [(4, Entry ''user'' (Plain v))]"
    "line_tokens (''    replication_user: '' @ v) = Some [(4, Entry ''replication_user'' (Plain v))]"
    "line_tokens (''    slot_name: '' @ v) = Some [(4, Entry ''slot_name'' (Plain v))]"
    "line_tokens (''    mode: '' @ v) = Some [(4, Entry ''mode'' (Plain v))]"
    "line_tokens (''    repos_path: '' @ v) = Some [(4, Entry ''repos_path'' (Plain v))]"
    "line_tokens (''    backend: '' @ v) = Some [(4, Entry ''backend'' (Plain v))]"
    "line_tokens (''      region: '' @ v) = Some [(6, Entry ''region'' (Plain v))]"
    "line_tokens (''      primary_bucket: '' @ v) = Some [(6, Entry ''primary_bucket'' (Plain v))]"
    "line_tokens (''      replica_bucket: '' @ v) = Some [(6, Entry ''replica_bucket'' (Plain v))]"
    "line_tokens (''      endpoint: '' @ v) = Some [(6, Entry ''endpoint'' (Plain v))]"
    "line_tokens (''  - name: '' @ v) = Some [(2, Dash), (4, Entry ''name'' (Plain v))]"
    "line_tokens (''    external_url: '' @ v) = Some [(4, Entry ''external_url'' (Plain v))]"
    "line_tokens (''    ssh_host: '' @ v) = Some [(4, Entry ''ssh_host'' (Plain v))]"
    "line_tokens (''      host: '' @ v) = Some [(6, Entry ''host'' (Plain v))]"
    "line_tokens (''      port: '' @ v) = Some [(6, Entry ''port'' (Plain v))]"
    "line_tokens (''      db: '' @ v) = Some [(6, Entry ''db'' (Plain v))]"
    "line_tokens (''      user: '' @ v) = Some [(6, Entry ''user'' (Plain v))]"
    "line_tokens (''      replication_user: '' @ v) = Some [(6, Entry ''replication_user'' (Plain v))]"
    "line_tokens (''      mode: '' @ v) = Some [(6, Entry ''mode'' (Plain v))]"
    "line_tokens (''      repos_path: '' @ v) = Some [(6, Entry ''repos_path'' (Plain v))]"
    "line_tokens (''      backend: '' @ v) = Some [(6, Entry ''backend'' (Plain v))]"
    "line_tokens (''        region: '' @ v) = Some [(8, Entry ''region'' (Plain v))]"
    "line_tokens (''        primary_bucket: '' @ v) = Some [(8, Entry ''primary_bucket'' (Plain v))]"
    "line_tokens (''        replica_bucket: '' @ v) = Some [(8, Entry ''replica_bucket'' (Plain v))]"
    "line_tokens (''  failover_enabled: '' @ v) = Some [(2, Entry ''failover_enabled'' (Plain v))]"
    "line_tokens (''  read_only_secondary: '' @ v) = Some [(2, Entry ''read_only_secondary'' (Plain v))]"
  by (simp add: line_simps assms)+

lemmas written_lines = fixed_lines other_lines(1)[simplified] other_lines(2) answer_lines[simplified]

lemma tokens_append: "tokens (xs @ ys) =
    (case tokens xs of None \<Rightarrow> None | Some ts \<Rightarrow> map_option (\<lambda>us. ts @ us) (tokens ys))"
  by (induction xs; cases "tokens ys") (auto split: option.splits)

lemma show_bool_plain: "plain_scalar (show_bool b)"
  by (simp add: show_bool_def plain_scalar_def indicators_def printable_def)

lemma plain_answers_scalars:
  assumes "plain_answers a"
  shows "plain_scalar (PrimaryName a)" "plain_scalar (PrimaryURL a)" "plain_scalar (PrimarySSHHost a)"
    "plain_scalar (PrimaryPGHost a)" "plain_scalar (PrimaryPGPort a)" "plain_scalar (PrimaryPGDB a)"
    "plain_scalar (PrimaryPGUser a)" "plain_scalar (PrimaryReplUser a)" "plain_scalar (PrimaryGitMode a)"
    "plain_scalar (PrimaryReposPath a)" "plain_scalar (SecondaryName a)" "plain_scalar (SecondaryURL a)"
    "plain_scalar (SecondarySSHHost a)" "plain_scalar (SecondaryPGHost a)" "plain_scalar (SecondaryPGPort a)"
    "plain_scalar (SecondaryReposPath a)" "plain_scalar (ObjectStorageBackend a)"
    "PrimarySlot a \<noteq> [] \<Longrightarrow> plain_scalar (PrimarySlot a)"
    "ObjectStorageBackend a = ''s3'' \<Longrightarrow> plain_scalar (S3Region a)"
    "ObjectStorageBackend a = ''s3'' \<Longrightarrow> plain_scalar (S3PrimaryBucket a)"
    "ObjectStorageBackend a = ''s3'' \<Longrightarrow> plain_scalar (S3ReplicaBucket a)"
    "ObjectStorageBackend a = ''s3'' \<Longrightarrow> S3Endpoint a \<noteq> [] \<Longrightarrow> plain_scalar (S3Endpoint a)"
  using assms by (auto simp: plain_answers_def plain_answer_def)

lemma part_tokens:
  assumes "plain_answers a"
  shows "tokens (primary_yaml a) = Some (tok_entries 0 [(''primary'', primary_tree a)])"
    and "tokens (secondary_yaml a) = Some (tok_entries 0 [(''secondaries'', Sequence [secondary_tree a])])"
    and "tokens (options_yaml a) = Some (tok_entries 0 (options_tree a))"
proof -
  note p = plain_answers_scalars[OF assms]
  show "tokens (primary_yaml a) = Some (tok_entries 0 [(''primary'', primary_tree a)])"
  proof (cases "ObjectStorageBackend a = ''s3''")
    case True
    then show ?thesis
      using p by (cases "PrimarySlot a = []"; cases "S3Endpoint a = []")
        (simp_all add: primary_yaml_def primary_tree_def s3_tree_def written_lines)
  next
    case False
    then show ?thesis
      using p by (cases "PrimarySlot a = []") (simp_all add: primary_yaml_def primary_tree_def written_lines)
  qed
  show "tokens (secondary_yaml a) = Some (tok_entries 0 [(''secondaries'', Sequence [secondary_tree a])])"
    using p by (cases "ObjectStorageBackend a = ''s3''")
      (simp_all add: secondary_yaml_def secondary_tree_def s3_tree_def written_lines)
  show "tokens (options_yaml a) = Some (tok_entries 0 (options_tree a))"
    by (simp add: options_yaml_def options_tree_def written_lines show_bool_plain)
qed

lemma file_read:
  assumes "clean a" and "plain_answers a"
  shows "read_yaml (GenerateYAML a) = Some (wizard_tree a)"
proof -
  have "filled (wizard_tree a)"
    by (simp add: wizard_tree_def primary_tree_def secondary_tree_def options_tree_def s3_tree_def)
  moreover have "tok_entries n (xs @ ys) = tok_entries n xs @ tok_entries n ys" for n xs ys
    by (induction xs) auto
  then have "tokens (yaml_lines a @ [[]]) = Some (tok 0 (wizard_tree a))"
    unfolding yaml_lines_def tokens_append part_tokens[OF assms(2)] by (simp add: wizard_tree_def other_lines)
  ultimately show ?thesis
    using read_yaml_tokens split_concat_lines[OF yaml_one_line[OF assms(1)]] by (simp add: GenerateYAML_def)
qed

section \<open>The configuration\<close>

definition port :: "string \<Rightarrow> int" where
  "port s = (case decimal s of Some n \<Rightarrow> n | None \<Rightarrow> 0)"

text \<open>What the answers say, with \<open>secret\<close> giving what stands for a variable.\<close>

definition wizard_s3 :: "(string \<Rightarrow> string) \<Rightarrow> Answers \<Rightarrow> string \<Rightarrow> S3Config" where
  "wizard_s3 secret a endpoint =
     \<lparr>s3_Region = S3Region a, s3_PrimaryBucket = S3PrimaryBucket a, s3_ReplicaBucket = S3ReplicaBucket a,
      s3_AccessKey = secret ''S3_AK'', s3_SecretKey = secret ''S3_SK'', s3_Endpoint = endpoint, s3_ReplicationLag = 0\<rparr>"

definition wizard_primary :: "(string \<Rightarrow> string) \<Rightarrow> Answers \<Rightarrow> SiteConfig" where
  "wizard_primary secret a =
     \<lparr>site_Name = PrimaryName a, site_ExternalURL = PrimaryURL a,
      site_Postgres =
        \<lparr>pg_Host = PrimaryPGHost a, pg_Port = port (PrimaryPGPort a), pg_DB = PrimaryPGDB a, pg_User = PrimaryPGUser a,
         pg_Password = secret ''PG_CTRL_PASSWORD'', pg_ReplicationUser = PrimaryReplUser a,
         pg_ReplicationPassword = secret ''PG_REPL_PASSWORD'', pg_SlotName = PrimarySlot a, pg_SSLMode = ''require'',
         pg_SSLRootCert = [], pg_SSLCert = [], pg_SSLKey = []\<rparr>,
      site_Git = \<lparr>git_Mode = PrimaryGitMode a, git_ReposPath = PrimaryReposPath a, git_HashedStorage = True\<rparr>,
      site_ObjectStore =
        (if ObjectStorageBackend a = ''s3''
         then \<lparr>os_Backend = ''s3'', os_S3 = Some (wizard_s3 secret a (S3Endpoint a)), os_FSPaths = []\<rparr>
         else \<lparr>os_Backend = ObjectStorageBackend a, os_S3 = None,
                os_FSPaths = [''/var/opt/gitlab/uploads'', ''/var/opt/gitlab/artifacts'', ''/var/opt/gitlab/packages'',
                              ''/var/opt/gitlab/lfs-objects'']\<rparr>),
      site_Registry = None, site_SSHHost = PrimarySSHHost a\<rparr>"

definition wizard_secondary :: "(string \<Rightarrow> string) \<Rightarrow> Answers \<Rightarrow> SiteConfig" where
  "wizard_secondary secret a =
     \<lparr>site_Name = SecondaryName a, site_ExternalURL = SecondaryURL a,
      site_Postgres =
        \<lparr>pg_Host = SecondaryPGHost a, pg_Port = port (SecondaryPGPort a), pg_DB = PrimaryPGDB a, pg_User = PrimaryPGUser a,
         pg_Password = secret ''PG_CTRL_PASSWORD'', pg_ReplicationUser = PrimaryReplUser a,
         pg_ReplicationPassword = secret ''SEC_REPL_PASSWORD'', pg_SlotName = [], pg_SSLMode = [],
         pg_SSLRootCert = [], pg_SSLCert = [], pg_SSLKey = []\<rparr>,
      site_Git = \<lparr>git_Mode = PrimaryGitMode a, git_ReposPath = SecondaryReposPath a, git_HashedStorage = True\<rparr>,
      site_ObjectStore =
        \<lparr>os_Backend = ObjectStorageBackend a,
         os_S3 = (if ObjectStorageBackend a = ''s3'' then Some (wizard_s3 secret a []) else None), os_FSPaths = []\<rparr>,
      site_Registry = None, site_SSHHost = SecondarySSHHost a\<rparr>"

definition wizard_config :: "(string \<Rightarrow> string) \<Rightarrow> Answers \<Rightarrow> Config" where
  "wizard_config secret a =
     \<lparr>Primary = wizard_primary secret a, Secondaries = [wizard_secondary secret a],
      Sync =
        \<lparr>sync_SweepInterval = 300 * second_ns, sync_LagWarningThreshold = 30 * second_ns,
         sync_LagCriticalThreshold = 300 * second_ns, sync_FailoverEnabled = FailoverEnabled a,
         sync_ReadOnlySecondary = ReadOnlySecondary a, sync_ConsistencySamplePct = f64_round (1 / 100)\<rparr>,
      Metrics_Addr = '':9101'', Log_Level = ''info'', Log_Format = ''json'', ControlDB = ''sqlite://data/geoctl.db'',
      Webhook = None, APIValidator = None, Failover = None,
      SSH = \<lparr>KnownHostsFile = [], StrictHostKeyChecking = []\<rparr>\<rparr>"

definition reference :: "string \<Rightarrow> string" where
  "reference v = ''${'' @ v @ ''}''"

text \<open>Ports, and the git mode, that the loader takes.\<close>

definition usable_answers :: "Answers \<Rightarrow> bool" where
  "usable_answers a \<longleftrightarrow>
     plain_answers a \<and> 0 < port (PrimaryPGPort a) \<and> port (PrimaryPGPort a) < 65536 \<and>
     0 < port (SecondaryPGPort a) \<and> port (SecondaryPGPort a) < 65536 \<and> PrimaryGitMode a \<in> {''rsync'', ''fetch''}"

lemma plain_answers_strings:
  assumes "plain_answers a"
  shows "list_all (\<lambda>s. s \<notin> set nulls \<and> \<not> str_contains s ''${'')
     [PrimaryName a, PrimaryURL a, PrimarySSHHost a, PrimaryPGHost a, PrimaryPGPort a, PrimaryPGDB a, PrimaryPGUser a,
        PrimaryReplUser a, PrimaryGitMode a, PrimaryReposPath a, SecondaryName a, SecondaryURL a, SecondarySSHHost a,
        SecondaryPGHost a, SecondaryPGPort a, SecondaryReposPath a, ObjectStorageBackend a]"
    "PrimarySlot a \<noteq> [] \<Longrightarrow> PrimarySlot a \<notin> set nulls" "\<not> str_contains (PrimarySlot a) ''${''"
    "ObjectStorageBackend a = ''s3'' \<Longrightarrow> list_all (\<lambda>s. s \<notin> set nulls \<and> \<not> str_contains s ''${'')
      [S3Region a, S3PrimaryBucket a, S3ReplicaBucket a]"
    "ObjectStorageBackend a = ''s3'' \<Longrightarrow> S3Endpoint a \<noteq> [] \<Longrightarrow> S3Endpoint a \<notin> set nulls"
    "ObjectStorageBackend a = ''s3'' \<Longrightarrow> \<not> str_contains (S3Endpoint a) ''${''"
  using assms by (auto simp: plain_answers_def plain_answer_def)

lemma port_int: "0 < port s \<Longrightarrow> port s < 65536 \<Longrightarrow> as_int (Plain s) = Some (port s)"
  by (auto simp: port_def split: option.splits)

lemma fixed_values:
  "reference v \<notin> set nulls" "''require'' \<notin> set nulls" "''true'' \<notin> set nulls"
  "as_bool (Plain (show_bool b)) = Some b" "show_bool b \<notin> set nulls"
  by (simp_all add: reference_def nulls_def show_bool_def)

lemma pg_decoded:
  assumes "h \<notin> set nulls" "p \<notin> set nulls" "as_int (Plain p) = Some n" "d \<notin> set nulls" "u \<notin> set nulls" "r \<notin> set nulls"
    "pw \<notin> set nulls" "rpw \<notin> set nulls" "sl \<noteq> [] \<Longrightarrow> sl \<notin> set nulls"
  shows "decode_pg (Mapping
          ([(''host'', Plain h), (''port'', Plain p), (''db'', Plain d), (''user'', Plain u), (''password'', Plain pw),
            (''replication_user'', Plain r), (''replication_password'', Plain rpw)] @
           (if ssl \<noteq> [] then [(''sslmode'', Plain ''require'')] else []) @
           (if sl \<noteq> [] then [(''slot_name'', Plain sl)] else []))) =
     Some \<lparr>pg_Host = h, pg_Port = n, pg_DB = d, pg_User = u, pg_Password = pw, pg_ReplicationUser = r,
      pg_ReplicationPassword = rpw, pg_SlotName = sl, pg_SSLMode = (if ssl \<noteq> [] then ''require'' else []),
      pg_SSLRootCert = [], pg_SSLCert = [], pg_SSLKey = []\<rparr>"
  using assms fixed_values(2)
  by (cases "ssl = []"; cases "sl = []") (simp_all add: decode_pg_def leaf_def zero_pg_def del: as_int.simps)

lemma git_decoded:
  assumes "m \<notin> set nulls" "p \<notin> set nulls"
  shows "decode_git (Mapping [(''mode'', Plain m), (''repos_path'', Plain p), (''hashed_storage'', Plain ''true'')]) =
     Some \<lparr>git_Mode = m, git_ReposPath = p, git_HashedStorage = True\<rparr>"
  using assms fixed_values(3) by (simp add: decode_git_def leaf_def zero_git_def)

lemma s3_decoded:
  assumes "plain_answers a" and "ObjectStorageBackend a = ''s3''" and "e = [] \<or> e = S3Endpoint a"
  shows "decode_s3 (s3_tree a e) = Some (wizard_s3 reference a e)"
  using plain_answers_strings(4,5)[OF assms(1,2)] assms(3) fixed_values(1)[of "''S3_AK''"] fixed_values(1)[of "''S3_SK''"]
  by (cases "e = []") (auto simp: s3_tree_def decode_s3_def leaf_def zero_s3_def wizard_s3_def reference_def)

lemma sync_decoded:
  "decode_sync (Mapping
        [(''sweep_interval'', Plain ''5m''), (''lag_warning_threshold'', Plain ''30s''),
         (''lag_critical_threshold'', Plain ''5m''), (''failover_enabled'', Plain (show_bool f)),
         (''read_only_secondary'', Plain (show_bool r)), (''consistency_sample_pct'', Plain ''0.01'')]) =
   Some \<lparr>sync_SweepInterval = 300 * second_ns, sync_LagWarningThreshold = 30 * second_ns,
     sync_LagCriticalThreshold = 300 * second_ns, sync_FailoverEnabled = f, sync_ReadOnlySecondary = r,
     sync_ConsistencySamplePct = f64_round (1 / 100)\<rparr>"
proof -
  have "as_duration (Plain ''5m'') = Some (300 * second_ns)" "as_duration (Plain ''30s'') = Some (30 * second_ns)"
    "as_float (Plain ''0.01'') = Some (f64_round (1 / 100))" by code_simp+
  moreover have "''5m'' \<notin> set nulls" "''30s'' \<notin> set nulls" "''0.01'' \<notin> set nulls" by (simp_all add: nulls_def)
  ultimately show ?thesis
    using fixed_values(4,5) by (simp add: decode_sync_def leaf_def zero_sync_def del: as_duration.simps as_float.simps as_bool.simps)
qed

lemma primary_decoded:
  assumes "usable_answers a"
  shows "decode_site (primary_tree a) = Some (wizard_primary reference a)"
proof -
  have p: "plain_answers a" using assms by (simp add: usable_answers_def)
  note s = plain_answers_strings[OF p]
  have n: "as_int (Plain (PrimaryPGPort a)) = Some (port (PrimaryPGPort a))"
    using assms by (intro port_int) (simp_all add: usable_answers_def)
  have pg: "decode_pg (Mapping
          ([(''host'', Plain (PrimaryPGHost a)), (''port'', Plain (PrimaryPGPort a)), (''db'', Plain (PrimaryPGDB a)),
            (''user'', Plain (PrimaryPGUser a)), (''password'', Plain ''${PG_CTRL_PASSWORD}''),
            (''replication_user'', Plain (PrimaryReplUser a)), (''replication_password'', Plain ''${PG_REPL_PASSWORD}''),
            (''sslmode'', Plain ''require'')] @
           (if PrimarySlot a \<noteq> [] then [(''slot_name'', Plain (PrimarySlot a))] else []))) =
      Some (site_Postgres (wizard_primary reference a))"
    using pg_decoded[of "PrimaryPGHost a" "PrimaryPGPort a" "port (PrimaryPGPort a)" "PrimaryPGDB a" "PrimaryPGUser a"
        "PrimaryReplUser a" "''${PG_CTRL_PASSWORD}''" "''${PG_REPL_PASSWORD}''" "PrimarySlot a" "''x''"]
      s(1,2) n fixed_values(1)[of "''PG_CTRL_PASSWORD''"] fixed_values(1)[of "''PG_REPL_PASSWORD''"]
    by (simp add: wizard_primary_def reference_def del: as_int.simps)
  have git: "decode_git (Mapping [(''mode'', Plain (PrimaryGitMode a)), (''repos_path'', Plain (PrimaryReposPath a)),
      (''hashed_storage'', Plain ''true'')]) = Some (site_Git (wizard_primary reference a))"
    using s(1) by (simp add: git_decoded wizard_primary_def)
  have os: "decode_os (Mapping
          [(''backend'', Plain (ObjectStorageBackend a)),
           (if ObjectStorageBackend a = ''s3'' then (''s3'', s3_tree a (S3Endpoint a))
            else (''fs_paths'', Sequence
              [Plain ''/var/opt/gitlab/uploads'', Plain ''/var/opt/gitlab/artifacts'', Plain ''/var/opt/gitlab/packages'',
               Plain ''/var/opt/gitlab/lfs-objects'']))]) = Some (site_ObjectStore (wizard_primary reference a))"
  proof (cases "ObjectStorageBackend a = ''s3''")
    case True
    have "\<not> is_null (s3_tree a (S3Endpoint a))" by (simp add: s3_tree_def)
    then show ?thesis using True s(1) s3_decoded[OF p True, of "S3Endpoint a"]
      by (simp add: decode_os_def leaf_def zero_os_def pointer_def wizard_primary_def)
  next
    case False
    have "set nulls \<inter> {''/var/opt/gitlab/uploads'', ''/var/opt/gitlab/artifacts'', ''/var/opt/gitlab/packages'',
        ''/var/opt/gitlab/lfs-objects''} = {}" by (simp add: nulls_def)
    then show ?thesis using False s(1) by (simp add: decode_os_def leaf_def zero_os_def wizard_primary_def)
  qed
  show ?thesis
    unfolding primary_tree_def decode_site_def
    using s(1) by (simp add: leaf_def zero_site_def pg git os del: append.simps) (simp add: wizard_primary_def)
qed

lemma secondary_decoded:
  assumes "usable_answers a"
  shows "decode_site (secondary_tree a) = Some (wizard_secondary reference a)"
proof -
  have p: "plain_answers a" using assms by (simp add: usable_answers_def)
  note s = plain_answers_strings[OF p]
  have n: "as_int (Plain (SecondaryPGPort a)) = Some (port (SecondaryPGPort a))"
    using assms by (intro port_int) (simp_all add: usable_answers_def)
  have pg: "decode_pg (Mapping
          [(''host'', Plain (SecondaryPGHost a)), (''port'', Plain (SecondaryPGPort a)), (''db'', Plain (PrimaryPGDB a)),
           (''user'', Plain (PrimaryPGUser a)), (''password'', Plain ''${PG_CTRL_PASSWORD}''),
           (''replication_user'', Plain (PrimaryReplUser a)), (''replication_password'', Plain ''${SEC_REPL_PASSWORD}'')]) =
      Some (site_Postgres (wizard_secondary reference a))"
    using pg_decoded[of "SecondaryPGHost a" "SecondaryPGPort a" "port (SecondaryPGPort a)" "PrimaryPGDB a" "PrimaryPGUser a"
        "PrimaryReplUser a" "''${PG_CTRL_PASSWORD}''" "''${SEC_REPL_PASSWORD}''" "[]" "[]"]
      s(1) n fixed_values(1)[of "''PG_CTRL_PASSWORD''"] fixed_values(1)[of "''SEC_REPL_PASSWORD''"]
    by (simp add: wizard_secondary_def reference_def del: as_int.simps)
  have git: "decode_git (Mapping [(''mode'', Plain (PrimaryGitMode a)), (''repos_path'', Plain (SecondaryReposPath a)),
      (''hashed_storage'', Plain ''true'')]) = Some (site_Git (wizard_secondary reference a))"
    using s(1) by (simp add: git_decoded wizard_secondary_def)
  have os: "decode_os (Mapping
          ((''backend'', Plain (ObjectStorageBackend a)) #
           (if ObjectStorageBackend a = ''s3'' then [(''s3'', s3_tree a [])] else []))) =
      Some (site_ObjectStore (wizard_secondary reference a))"
  proof (cases "ObjectStorageBackend a = ''s3''")
    case True
    have "\<not> is_null (s3_tree a [])" by (simp add: s3_tree_def)
    then show ?thesis using True s(1) s3_decoded[OF p True, of "[]"]
      by (simp add: decode_os_def leaf_def zero_os_def pointer_def wizard_secondary_def)
  next
    case False
    then show ?thesis using s(1) by (simp add: decode_os_def leaf_def zero_os_def wizard_secondary_def)
  qed
  show ?thesis
    unfolding secondary_tree_def decode_site_def
    using s(1) by (simp add: leaf_def zero_site_def pg git os del: append.simps) (simp add: wizard_secondary_def)
qed

lemma config_decoded:
  assumes "usable_answers a"
  shows "decode_config (wizard_tree a) = Some (wizard_config reference a)"
proof -
  have trees: "\<not> is_null (primary_tree a)" "\<not> is_null (secondary_tree a)"
    by (simp_all add: primary_tree_def secondary_tree_def)
  have "decode_metrics (Mapping [(''addr'', Quoted '':9101'')]) = Some '':9101''"
    "decode_log (Mapping [(''level'', Plain ''info''), (''format'', Plain ''json'')]) = Some (''info'', ''json'')"
    "''sqlite://data/geoctl.db'' \<notin> set nulls"
    by (simp_all add: decode_metrics_def decode_log_def leaf_def nulls_def)
  then show ?thesis
    using primary_decoded[OF assms] secondary_decoded[OF assms] trees
    by (simp add: wizard_tree_def options_tree_def decode_config_def leaf_def zero_config_def sync_decoded wizard_config_def)
qed

section \<open>The variables and the checks\<close>

definition wizard_variables :: "Answers \<Rightarrow> string set" where
  "wizard_variables a =
     {''PG_CTRL_PASSWORD'', ''PG_REPL_PASSWORD'', ''SEC_REPL_PASSWORD''} \<union>
     (if ObjectStorageBackend a = ''s3'' then {''S3_AK'', ''S3_SK''} else {})"

definition provides :: "environment \<Rightarrow> string set \<Rightarrow> bool" where
  "provides env vs \<longleftrightarrow> (\<forall>v \<in> vs. env v \<noteq> None \<and> env v \<noteq> Some [])"

abbreviation secret :: "environment \<Rightarrow> string \<Rightarrow> string" where
  "secret env v \<equiv> the (env v)"

lemma resolve_plain_string: "\<not> str_contains s ''${'' \<Longrightarrow> resolve_string env s = Done s"
  by (simp add: resolve_string_def expandEnvString_def)

lemma reference_read:
  "list_all (\<lambda>v. envRefRe (reference v) = Some (v, []))
     [''PG_CTRL_PASSWORD'', ''PG_REPL_PASSWORD'', ''SEC_REPL_PASSWORD'', ''S3_AK'', ''S3_SK'']"
  by code_simp

lemma resolve_reference:
  assumes "env v \<noteq> None" and "env v \<noteq> Some []"
    and "v \<in> {''PG_CTRL_PASSWORD'', ''PG_REPL_PASSWORD'', ''SEC_REPL_PASSWORD'', ''S3_AK'', ''S3_SK''}"
  shows "resolve_string env (reference v) = Done (secret env v)"
proof -
  obtain s where s: "env v = Some s" "s \<noteq> []" using assms by auto
  have "envRefRe (reference v) = Some (v, [])" "str_contains (reference v) ''${''"
    using assms(3) reference_read by (auto simp: reference_def)
  then have "replaceEnv env (reference v) = (s, [])" using s by (simp add: reference_def)
  then show ?thesis
    using s \<open>str_contains (reference v) ''${''\<close> by (simp add: resolve_string_def expandEnvString_def)
qed

lemma resolve_constants:
  "resolve_string env [] = Done []" "resolve_string env ''require'' = Done ''require''"
  "resolve_string env ''s3'' = Done ''s3''" "resolve_string env '':9101'' = Done '':9101''"
  "resolve_string env ''info'' = Done ''info''" "resolve_string env ''json'' = Done ''json''"
  "resolve_string env ''sqlite://data/geoctl.db'' = Done ''sqlite://data/geoctl.db''"
  "resolve_string env ''/var/opt/gitlab/uploads'' = Done ''/var/opt/gitlab/uploads''"
  "resolve_string env ''/var/opt/gitlab/artifacts'' = Done ''/var/opt/gitlab/artifacts''"
  "resolve_string env ''/var/opt/gitlab/packages'' = Done ''/var/opt/gitlab/packages''"
  "resolve_string env ''/var/opt/gitlab/lfs-objects'' = Done ''/var/opt/gitlab/lfs-objects''"
  by (simp_all add: resolve_plain_string)

lemma s3_resolved:
  assumes "plain_answers a" and "ObjectStorageBackend a = ''s3''" and "provides env (wizard_variables a)"
    and "e = [] \<or> e = S3Endpoint a"
  shows "resolve_s3 env (wizard_s3 reference a e) = Done (wizard_s3 (secret env) a e)"
proof -
  have "resolve_string env (reference ''S3_AK'') = Done (secret env ''S3_AK'')"
    "resolve_string env (reference ''S3_SK'') = Done (secret env ''S3_SK'')"
    using assms(2,3) by (auto simp: provides_def wizard_variables_def intro!: resolve_reference)
  moreover have "resolve_string env e = Done e"
    using plain_answers_strings(6)[OF assms(1,2)] assms(4) by (auto intro!: resolve_plain_string)
  ultimately show ?thesis
    using plain_answers_strings(4)[OF assms(1,2)]
    by (simp add: resolve_s3_def walk.simps wizard_s3_def field_def resolve_plain_string)
qed

lemma site_resolved:
  assumes "resolve_string env (site_Name s) = Done (site_Name s)"
    and "resolve_string env (site_ExternalURL s) = Done (site_ExternalURL s)"
    and "resolve_string env (site_SSHHost s) = Done (site_SSHHost s)"
    and "resolve_pg env (site_Postgres s) = Done p" and "resolve_git env (site_Git s) = Done g"
    and "resolve_os env (site_ObjectStore s) = Done os" and "site_Registry s = None"
  shows "resolve_site env s = Done (s\<lparr>site_Postgres := p, site_Git := g, site_ObjectStore := os\<rparr>)"
  using assms by (simp add: resolve_site_def walk.simps field_def resolve_ptr_def)

lemma sites_resolved:
  assumes "plain_answers a" and "provides env (wizard_variables a)"
  shows "resolve_site env (wizard_primary reference a) = Done (wizard_primary (secret env) a)"
    and "resolve_site env (wizard_secondary reference a) = Done (wizard_secondary (secret env) a)"
proof -
  note s = plain_answers_strings[OF assms(1)]
  have refs: "resolve_string env (reference ''PG_CTRL_PASSWORD'') = Done (secret env ''PG_CTRL_PASSWORD'')"
    "resolve_string env (reference ''PG_REPL_PASSWORD'') = Done (secret env ''PG_REPL_PASSWORD'')"
    "resolve_string env (reference ''SEC_REPL_PASSWORD'') = Done (secret env ''SEC_REPL_PASSWORD'')"
    using assms(2) by (auto simp: provides_def wizard_variables_def intro!: resolve_reference)
  have pg: "resolve_pg env (site_Postgres (wizard_primary reference a)) = Done (site_Postgres (wizard_primary (secret env) a))"
    "resolve_pg env (site_Postgres (wizard_secondary reference a)) = Done (site_Postgres (wizard_secondary (secret env) a))"
    using s(1,3) refs
    by (simp_all add: resolve_pg_def walk.simps wizard_primary_def wizard_secondary_def field_def resolve_plain_string resolve_constants)
  have git: "resolve_git env (site_Git (wizard_primary reference a)) = Done (site_Git (wizard_primary (secret env) a))"
    "resolve_git env (site_Git (wizard_secondary reference a)) = Done (site_Git (wizard_secondary (secret env) a))"
    using s(1) by (simp_all add: resolve_git_def walk.simps wizard_primary_def wizard_secondary_def field_def resolve_plain_string)
  have os: "resolve_os env (site_ObjectStore (wizard_primary reference a)) = Done (site_ObjectStore (wizard_primary (secret env) a))"
    "resolve_os env (site_ObjectStore (wizard_secondary reference a)) = Done (site_ObjectStore (wizard_secondary (secret env) a))"
    using s(1) s3_resolved[OF assms(1) _ assms(2)]
    by (cases "ObjectStorageBackend a = ''s3''";
        simp add: resolve_os_def walk.simps wizard_primary_def wizard_secondary_def field_def resolve_plain_string resolve_constants
          resolve_ptr_def)+
  show "resolve_site env (wizard_primary reference a) = Done (wizard_primary (secret env) a)"
    using s(1) by (subst site_resolved[OF _ _ _ pg(1) git(1) os(1)]) (simp_all add: wizard_primary_def resolve_plain_string)
  show "resolve_site env (wizard_secondary reference a) = Done (wizard_secondary (secret env) a)"
    using s(1) by (subst site_resolved[OF _ _ _ pg(2) git(2) os(2)]) (simp_all add: wizard_secondary_def resolve_plain_string)
qed

lemma config_resolved:
  assumes "plain_answers a" and "provides env (wizard_variables a)"
  shows "resolveEnvInStruct env (wizard_config reference a) = Done (wizard_config (secret env) a)"
  using sites_resolved[OF assms]
  by (simp add: resolveEnvInStruct_def walk.simps wizard_config_def field_def resolve_constants resolve_ptr_def resolve_ssh_def)

lemma config_valid:
  assumes "usable_answers a" and "provides env (wizard_variables a)"
  shows "validate (wizard_config (secret env) a) = ([], wizard_config (secret env) a)"
proof -
  have "plain_answers a" "secret env ''PG_REPL_PASSWORD'' \<noteq> []" "secret env ''SEC_REPL_PASSWORD'' \<noteq> []"
    using assms by (auto simp: usable_answers_def provides_def wizard_variables_def)
  then show ?thesis
    using assms(1)
    by (auto simp: validate_def wizard_config_def wizard_primary_def wizard_secondary_def primary_errors_def
        config_defaults_def sync_defaults_def second_ns_def default_pct_ne usable_answers_def plain_answers_def plain_answer_def plain_scalar_def)
qed

section \<open>The wizard and the loader\<close>

lemma file_decoded:
  assumes "clean a" and "usable_answers a"
  shows "read_config (GenerateYAML a) = Some (wizard_config reference a)"
  using file_read[OF assms(1)] config_decoded[OF assms(2)] assms(2) by (simp add: read_config_def usable_answers_def)

text \<open>C23. What the wizard writes, the loader reads: for answers that YAML takes as they are, ports in
  range and a known git mode, and with the variables the file refers to set, loading the file
  that was generated succeeds, and every field of the configuration is the answer to its
  question, the value of its variable or the fixed setting of the template. Of the YAML decoder this
  uses only that it reads block mappings as documented.\<close>

theorem wizard_config_loads:
  assumes "RunWithInput st = (a, st')" and "usable_answers a"
    and "reads_blocks yaml_decode" and "read_file path = Inr (GenerateYAML a)"
    and "provides env (wizard_variables a)"
  shows "Load read_file yaml_decode env path = Done (Inr (wizard_config (secret env) a))"
proof -
  have "yaml_decode (GenerateYAML a) = Inr (wizard_config reference a)"
    using assms(3) file_decoded[OF RunWithInput_clean[OF assms(1)] assms(2)] by (simp add: reads_blocks_def)
  then show ?thesis
    using assms(2,4,5) config_resolved config_valid[OF assms(2,5)] by (simp add: Load_def usable_answers_def)
qed

text \<open>All defaults.\<close>

definition default_answers :: Answers where
  "default_answers = fst (RunWithInput ([], calm_world []))"

lemma default_usable: "usable_answers default_answers"
  by code_simp

theorem wizard_config_loads_witness:
  "Load (\<lambda>_. Inr (GenerateYAML default_answers))
     (\<lambda>text. case read_config text of Some c \<Rightarrow> Inr c | None \<Rightarrow> Inl ''unsupported'')
     (\<lambda>_. Some ''pw'') ''config.yaml'' = Done (Inr (wizard_config (\<lambda>_. ''pw'') default_answers))"
proof -
  obtain st' where "RunWithInput ([], calm_world []) = (default_answers, st')"
    by (metis default_answers_def prod.collapse)
  then show ?thesis
    using wizard_config_loads[of "([], calm_world [])" default_answers st'
        "\<lambda>text. case read_config text of Some c \<Rightarrow> Inr c | None \<Rightarrow> Inl ''unsupported''"
        "\<lambda>_. Inr (GenerateYAML default_answers)" "''config.yaml''" "\<lambda>_. Some ''pw''"]
      default_usable reads_blocks_self
    by (simp add: provides_def)
qed

text \<open>Answers are written as they are, without quotes: a comment sign in one cuts it off.\<close>

lemma name_line_cut: "line_tokens (''  name: '' @ ''eu #1'') = line_tokens (''  name: '' @ ''eu'')"
  by code_simp

lemma default_named:
  "usable_answers (default_answers\<lparr>PrimaryName := ''eu''\<rparr>)"
  "clean (default_answers\<lparr>PrimaryName := ''eu''\<rparr>)" "clean (default_answers\<lparr>PrimaryName := ''eu #1''\<rparr>)"
  by code_simp+

lemma answer_cut_off:
  assumes "reads_blocks yaml_decode"
  shows "\<exists>c. yaml_decode (GenerateYAML (default_answers\<lparr>PrimaryName := ''eu #1''\<rparr>)) = Inr c \<and> site_Name (Primary c) = ''eu''"
proof -
  let ?a = "\<lambda>n. default_answers\<lparr>PrimaryName := n\<rparr>"
  have "yaml_lines (?a n) = [''primary:'', ''  name: '' @ n] @ drop 2 (yaml_lines default_answers)" for n
    by (simp add: yaml_lines_def primary_yaml_def secondary_yaml_def options_yaml_def)
  then have "tokens (yaml_lines (?a ''eu #1'') @ [[]]) = tokens (yaml_lines (?a ''eu'') @ [[]])"
    using name_line_cut by (simp add: fixed_lines(1))
  then have "read_config (GenerateYAML (?a ''eu #1'')) = read_config (GenerateYAML (?a ''eu''))"
    using split_concat_lines[OF yaml_one_line[OF default_named(2)]] split_concat_lines[OF yaml_one_line[OF default_named(3)]]
    by (simp add: read_config_def read_yaml_def GenerateYAML_def)
  then show ?thesis
    using assms file_decoded[OF default_named(2,1)] by (auto simp: reads_blocks_def wizard_config_def wizard_primary_def)
qed

end
