(* ===== verification/Spec2Isabelle.thy ===== *)
theory Spec2Isabelle
  imports Cli_Props Autorepair Webhook_Process Wizard
begin

text \<open>
  A verification library for gitlab-geo-sync, the \<open>geoctl\<close> control plane that mirrors one GitLab
  installation (the primary) to others (the secondaries): PostgreSQL by streaming replication, git
  repositories and files by rsync or git fetch, objects by bucket replication, and that can
  promote a secondary when the primary is gone. Sources are named relative to \<open>src/\<close>.

  \<^bold>\<open>How the program is put together.\<close> \<open>cmd/geoctl/main.go\<close> loads the configuration
  (\<open>internal/config\<close>) and, for \<open>serve\<close> and \<open>sync\<close>, builds the sync components
  (\<open>internal/reconciler/*\<close>) for the first secondary. Each component has one operation, which
  compares or copies and returns a result. The runner (\<open>internal/reconciler/runner.go\<close>) sweeps over
  them at every tick; a push notification (\<open>internal/webhook\<close>) fetches one project in between; the
  failover controller (\<open>internal/failover\<close>) polls the primary and may promote. Commands on other
  hosts go through \<open>internal/sshexec\<close>, local ones through \<open>internal/localcmd\<close>.

  \<^bold>\<open>The model.\<close> Everything the program does to the outside is an event appended to a history;
  what the outside answers (ssh, rsync, git, PostgreSQL, S3, HTTP servers, the file system, the
  clock's cancellations) is a function of the history, carried by the record \<open>world\<close> and never
  constrained, so a theorem over all worlds covers all failures. A sequential operation is a
  function from a world to its result and the next world; errors are values of an option or a sum
  type, and a panic of the code is a value too. What runs concurrently (the fetch workers, the
  webhook server, the trigger manager, the serving process) is a transition system, and
  properties hold for all its runs.

  \<^bold>\<open>Theories and what they model.\<close>
  \<^item> \<open>Geo_Prelude\<close>: Go's string, path, number and float operations that the code uses, with the
    lemmas and simplification sets the others share. \<open>Geo_World\<close>: events, worlds, steps.
    \<open>Durations\<close> and \<open>Sha1\<close>: \<open>time.Duration.String\<close> and SHA-1 of the standard library.
  \<^item> \<open>Sshexec\<close>, \<open>Readonly\<close>, \<open>Dbkey\<close>, \<open>Projectpath\<close>, \<open>Logging\<close>: the packages of these names.
    \<open>Sshexec\<close> states the interface \<open>sshexec.Runner\<close> as the locale \<open>ssh_runner\<close>.
  \<^item> \<open>Config\<close>, \<open>Config_Props\<close>, \<open>Dsn\<close>: \<open>internal/config/config.go\<close>: the data, the reflective walk
    that resolves environment references, validation and defaults, and the connection strings
    against a reader for libpq's documented grammar. \<open>Yaml\<close>, \<open>Config_Yaml\<close>: a reader for the block
    mappings that configuration files consist of, and the field tags of the structs.
  \<^item> \<open>Reconciler\<close>: \<open>internal/reconciler\<close>: results, the retry loop on 64-bit durations, the sweep, and
    the contract of a component as the locales \<open>reconciler\<close> (it returns and only adds to the
    history), \<open>strict_reconciler\<close> (nothing remains when OK), \<open>confined_reconciler\<close> (the commands
    it may run) and \<open>reading_reconciler\<close> (it sends only reading statements and writes no file). Every component interprets them in its own theory: \<open>Rsync\<close> (gitrsync, fsstorage),
    \<open>GitFetch\<close>, \<open>PgRepl\<close>, \<open>Consistency\<close>, \<open>ObjectStorage\<close>, \<open>Registry\<close>, \<open>ApiValidator\<close>.
  \<^item> \<open>FailoverCtl\<close>: \<open>internal/failover\<close>: promotion, role swap, and the health monitor as a transition
    system. \<open>Detector\<close>: the abstract detector it implements.
  \<^item> \<open>Webhook\<close>: \<open>internal/webhook\<close>: the handler and its jobs, and the trigger manager.
    \<open>Webhook_Process\<close>: the two put together, and the listener. \<open>Metrics\<close>: \<open>internal/metrics\<close>.
  \<^item> \<open>Pgsetup\<close>, \<open>Doctor\<close>, \<open>Sla\<close>, \<open>Initcmd\<close>, \<open>Autorepair\<close>, \<open>Runbook\<close>: the packages of these names
    (\<open>Runbook\<close> also holds \<open>internal/version\<close>). \<open>Wizard\<close>: the file of \<open>Initcmd\<close> under the \<open>Load\<close> of
    \<open>Config\<close>.
  \<^item> \<open>Geoctl\<close>, \<open>Serve\<close>, \<open>Commands\<close>: \<open>cmd/geoctl/main.go\<close>: the construction of the components and of
    the webhook receiver, the serving process as one transition system over all of them with its
    start, its ends and its clean-up, and the other commands. \<open>Interleave\<close>: the serving process
    event by event.
  \<^item> \<open>Cli\<close>: the command line of \<open>main.go\<close>: the tree of commands with their flags, the body each runs
    after loading the configuration (serve event by event), the texts of the errors, and \<open>main\<close>.
    \<open>Cli_Props\<close>: what a run of the whole program may do, and how it ends.

  \<^bold>\<open>What the theorems show.\<close> For the whole program, whichever command is run: a dry run changes nothing on any
  site; databases are only read, and two commands write one file each; every run ends, with one line
  and status 1 when something is refused or fails, and it crashes for one reason only.
  For the serving process: whatever its goroutines do in between, it runs nothing but mirror
  commands, and ssh commands only under automatic failover in a real run; every way the command ends is
  accounted for and closes its pools; a push fetches only the
  repository it names; construction is exact and leaks no pool; a sync always returns and reports
  every component. For failover: when a promotion may run, in which order, that the monitor
  implements its detector and declares a dead primary down in three rounds, and that the failover
  command can never promote. For the components: what OK means for each of them in terms of the
  answers it got, the bounds and termination of the worker pool, the bounds of the retry loop and of
  the webhook's jobs. For the data: validation and loading accept exactly what they should, the
  environment walk resolves every string and changes nothing else, connection strings and key files
  read back as written, accepted project paths stay inside their directory, the generated
  configuration holds no secret and loads as the answers it was made from. Lemmas beside them show where the code does not do what it or its
  comments promise, each named in the text in front of it.

  \<^bold>\<open>Bounds and fuel.\<close> Durations of the retry loop and row counts are 64-bit words, and the theorems
  on them say where wrap-around is excluded. Other counters are unbounded integers: they count
  the items of one run, or their bytes. The only fuel is in two readers, which are specifications: the one
  for connection strings gets one unit per setting, the one for configuration files two per piece of
  a line, which \<open>read_blocks\<close> shows to be enough. All loops of the code are recursive on their list or on the
  attempts left; the worker pool and the runner, which may go on forever, are relations, with
  termination of the pool proved by a measure.

  \<^bold>\<open>Granularity.\<close> In the serving process of \<open>Serve\<close> a sweep, a handled request, a finished job and
  a health round are single steps. \<open>Interleave\<close> drops this: its goroutines interleave event by
  event, each seeing answers that the others may have changed, and the coarse runs are among its
  histories. A read that leaves no event (a file, a directory, the context) is not cut from the
  next event of its goroutine. The atomicity that is left is that of the locks and the atomic
  operations of the code.

  \<^bold>\<open>Parameters.\<close> YAML and JSON decoding, whether an S3 client can be built for a configuration,
  the metrics gathered for the SLA report, and what the command-line library makes of the arguments
  are arguments of the definitions that use them; the record \<open>platform\<close> holds them for the whole program.
  The one assumption on the YAML decoder, \<open>reads_blocks\<close>, is that it agrees with \<open>Config_Yaml\<close> on the
  files that this reader accepts.

  \<^bold>\<open>Not modelled.\<close> What the Prometheus client does with registered collectors and how it shows them, the
  library HTTP servers beyond their routes and what their \<open>Start\<close> returns, how the command-line library
  reads arguments and lays out help, and
  everything that exists only to inject test doubles. Texts of errors that come from libraries are abbreviated,
  and column widths of the doctor's table count bytes.
\<close>

end
